(* ===== verification/Prelude.thy ===== *)
theory Prelude
  imports Main "HOL-Library.Word" "HOL-Library.Monad_Syntax"
begin

text \<open>
  What every component shares: the C integer conversions the programs rely on, byte
  arrays with bounds-checked access, pointer arithmetic inside an array, and the lemma
  collections of the development.

  A C computation whose behaviour may be undefined has type \<open>'a option\<close> and is
  written in the \<open>do\<close> notation of the option monad: \<open>None\<close> stands for undefined
  behaviour (an access outside an object, a dangling pointer, \<open>memcpy\<close> on
  overlapping regions) or, for the one loop of \<^verbatim>\<open>header.h\<close>, for not returning.
\<close>

section \<open>Lemma collections\<close>

named_theorems c_int "conversions between the integer types of C on values in range"
named_theorems frame "what an operation leaves unchanged"
named_theorems hist_simps "the views of a call history"

lemmas bind_some = Option.bind_eq_Some_conv
lemmas bind_none = Option.bind_eq_None_conv

section \<open>Integer conversions\<close>

text \<open>
  An object of type \<open>int\<close> is a HOL \<open>int\<close>; assigning a wider value to it reduces the
  value modulo \<open>2 ^ 32\<close> into the signed range, which \<open>int32\<close> writes out.
  \<open>size_t\<close> and \<open>unsigned\<close> objects are words of 64 and 32 bits.
\<close>

type_synonym byte = "8 word"
type_synonym size_t = "64 word"

definition int32 :: "int \<Rightarrow> int" where
  "int32 x = (x + 2 ^ 31) mod 2 ^ 32 - 2 ^ 31"

lemma int32_id [c_int]: "- (2 ^ 31) \<le> x \<Longrightarrow> x < 2 ^ 31 \<Longrightarrow> int32 x = x"
  by (simp add: int32_def)

lemma int32_range: "- (2 ^ 31) \<le> int32 x \<and> int32 x < 2 ^ 31"
  by (simp add: int32_def)

lemma int32_word: "int32 x = sint (word_of_int x :: 32 word)"
  by (simp add: int32_def sint_sbintrunc' signed_take_bit_eq_take_bit_shift take_bit_eq_mod)

lemma unat_size_add [c_int]:
  "unat (s :: size_t) + k < 2 ^ 64 \<Longrightarrow> unat (s + word_of_nat k) = unat s + k"
  by (simp add: unat_word_ariths unat_of_nat take_bit_eq_mod)

lemma unat_size_lt: "unat (s :: size_t) < 2 ^ 64"
  using unsigned_less [of s] by (rule order.strict_trans2) simp

lemma unat_size_sub [c_int]:
  assumes "k \<le> unat (s :: size_t)"
  shows "unat (s - word_of_nat k) = unat s - k"
proof -
  have "k < 2 ^ 64"
    using assms unat_size_lt by (rule order.strict_trans1)
  then have k: "unat (of_nat k :: size_t) = k"
    by (simp add: unat_of_nat take_bit_nat_eq_self)
  then have "(of_nat k :: size_t) \<le> s"
    using assms by (simp add: word_le_nat_alt)
  then show ?thesis using k by (simp add: unat_sub)
qed

lemma unat_size_of_int [c_int]:
  "0 \<le> x \<Longrightarrow> x < 2 ^ 64 \<Longrightarrow> unat (word_of_int x :: size_t) = nat x"
  by (simp add: unat_eq_nat_uint uint_word_of_int_eq take_bit_eq_mod)

lemma size_t_eq_0_iff: "(s :: size_t) = 0 \<longleftrightarrow> unat s = 0"
  by (simp add: unat_eq_zero)

text \<open>Words are read through \<open>unat\<close>.\<close>

declare of_nat_unat [simp del] uint_nat [simp]

section \<open>Pointers into an array and byte arrays\<close>

text \<open>
  A pointer into a fixed array is its offset. Pointer arithmetic that leaves the array
  (one past the last element is allowed) is undefined, and so is an access outside it.
  The contents of a C array of bytes are a function of the index: uninitialised bytes
  are then just unknown values, and the length is in the bounds checks.
\<close>

definition ptr_add :: "nat \<Rightarrow> nat \<Rightarrow> int \<Rightarrow> nat option" where
  "ptr_add sz off k =
     (if 0 \<le> int off + k \<and> int off + k \<le> int sz then Some (nat (int off + k)) else None)"

definition arr_slice :: "(nat \<Rightarrow> byte) \<Rightarrow> nat \<Rightarrow> nat \<Rightarrow> byte list" where
  "arr_slice a off n = map a [off ..< off + n]"

definition arr_store :: "(nat \<Rightarrow> byte) \<Rightarrow> nat \<Rightarrow> byte list \<Rightarrow> (nat \<Rightarrow> byte)" where
  "arr_store a off bs = (\<lambda>i. if off \<le> i \<and> i < off + length bs then bs ! (i - off) else a i)"

definition arr_read :: "nat \<Rightarrow> (nat \<Rightarrow> byte) \<Rightarrow> nat \<Rightarrow> nat \<Rightarrow> byte list option" where
  "arr_read sz a off n = (if off + n \<le> sz then Some (arr_slice a off n) else None)"

definition arr_write :: "nat \<Rightarrow> (nat \<Rightarrow> byte) \<Rightarrow> nat \<Rightarrow> byte list \<Rightarrow> (nat \<Rightarrow> byte) option" where
  "arr_write sz a off bs =
     (if off + length bs \<le> sz then Some (arr_store a off bs) else None)"

text \<open>
  \<open>memcpy\<close> inside one array. The C standard leaves copying between overlapping regions
  undefined; the one exception made here is a copy of a region onto itself, which GCC,
  the compiler \<^verbatim>\<open>build.sh\<close> calls, documents as harmless (it emits such calls itself).
\<close>

definition c_memcpy ::
  "nat \<Rightarrow> (nat \<Rightarrow> byte) \<Rightarrow> nat \<Rightarrow> nat \<Rightarrow> nat \<Rightarrow> (nat \<Rightarrow> byte) option" where
  "c_memcpy sz a dst src n =
     (if sz < dst + n \<or> sz < src + n then None
      else if dst = src \<or> dst + n \<le> src \<or> src + n \<le> dst
      then Some (arr_store a dst (arr_slice a src n))
      else None)"

lemma length_arr_slice [simp]: "length (arr_slice a off n) = n"
  by (simp add: arr_slice_def)

lemma arr_slice_0 [simp]: "arr_slice a off 0 = []"
  by (simp add: arr_slice_def)

lemma nth_arr_slice [simp]: "i < n \<Longrightarrow> arr_slice a off n ! i = a (off + i)"
  by (simp add: arr_slice_def)

lemma arr_slice_eq_Nil [simp]: "arr_slice a off n = [] \<longleftrightarrow> n = 0"
  by (auto simp: arr_slice_def)

lemma arr_slice_add: "arr_slice a off (m + n) = arr_slice a off m @ arr_slice a (off + m) n"
  by (simp add: arr_slice_def flip: map_append upt_add_eq_append)
     (metis add.assoc le_add1 upt_add_eq_append)

lemma arr_store_Nil [simp]: "arr_store a off [] = a"
  by (rule ext) (auto simp: arr_store_def)

lemma arr_slice_store_same [simp]: "arr_slice (arr_store a off bs) off (length bs) = bs"
  by (rule nth_equalityI) (auto simp: arr_store_def)

lemma arr_slice_store_before [simp]:
  "off + n \<le> dst \<Longrightarrow> arr_slice (arr_store a dst bs) off n = arr_slice a off n"
  by (rule nth_equalityI) (auto simp: arr_store_def)

text \<open>Appending behind a region extends the region by what was written.\<close>

lemma arr_slice_store_append:
  "arr_slice (arr_store a (off + n) bs) off (n + length bs) = arr_slice a off n @ bs"
  by (simp add: arr_slice_add)

lemma arr_slice_drop: "k \<le> n \<Longrightarrow> arr_slice a (off + k) (n - k) = drop k (arr_slice a off n)"
  by (rule nth_equalityI) (auto simp: add.assoc)

lemma arr_slice_take_drop:
  "k \<le> n \<Longrightarrow> arr_slice a off n = take k (arr_slice a off n) @ arr_slice a (off + k) (n - k)"
  by (simp add: arr_slice_drop)

lemma arr_read_Some [simp]:
  "arr_read sz a off n = Some bs \<longleftrightarrow> off + n \<le> sz \<and> bs = arr_slice a off n"
  by (auto simp: arr_read_def)

lemma arr_write_Some [simp]:
  "arr_write sz a off bs = Some a' \<longleftrightarrow> off + length bs \<le> sz \<and> a' = arr_store a off bs"
  by (auto simp: arr_write_def)

lemma ptr_add_Some [simp]:
  "ptr_add sz off k = Some p \<longleftrightarrow>
     0 \<le> int off + k \<and> int off + k \<le> int sz \<and> p = nat (int off + k)"
  by (auto simp: ptr_add_def)

lemma c_memcpy_slice:
  "c_memcpy sz a dst src n = Some a' \<Longrightarrow> arr_slice a' dst n = arr_slice a src n"
proof -
  assume "c_memcpy sz a dst src n = Some a'"
  then have "a' = arr_store a dst (arr_slice a src n)"
    by (auto simp: c_memcpy_def split: if_splits)
  then show ?thesis
    using arr_slice_store_same [of a dst "arr_slice a src n"] by simp
qed

text \<open>A copy to the front of the array is defined unless it overlaps its source in part.\<close>

lemma c_memcpy_front_None:
  "src + n \<le> sz \<Longrightarrow> c_memcpy sz a 0 src n = None \<longleftrightarrow> 0 < src \<and> src < n"
  by (auto simp: c_memcpy_def)

end
