(* ===== verification/Binary64.thy ===== *)
theory Binary64
  imports Complex_Main
begin

text \<open>
  The C type \<open>double\<close>: IEEE 754 binary64 with rounding to nearest, ties to even. A
  finite value is a sign, an integer significand and a binary exponent; an operation
  computes its exact result as a ratio of naturals and rounds once.
\<close>

section \<open>Values\<close>

datatype double = D_nan | D_inf bool | D_fin (d_sign: bool) (d_man: nat) (d_exp: int)

definition is_nan :: "double \<Rightarrow> bool" where
  "is_nan x = (case x of D_nan \<Rightarrow> True | _ \<Rightarrow> False)"

fun d_finite :: "double \<Rightarrow> bool" where
  "d_finite (D_fin s m e) = True"
| "d_finite _ = False"

text \<open>The significand and exponent ranges of binary64 (subnormals have the least exponent).\<close>

fun d_wf :: "double \<Rightarrow> bool" where
  "d_wf (D_fin s m e) = (m \<le> 2 ^ 53 \<and> - 1074 \<le> e \<and> e \<le> 971)"
| "d_wf _ = True"

fun d_val :: "double \<Rightarrow> real" where
  "d_val (D_fin s m e) = (if s then - 1 else 1) * real m * 2 powi e"
| "d_val _ = 0"

section \<open>Rounding\<close>

fun bit_len :: "nat \<Rightarrow> nat" where
  "bit_len n = (if n = 0 then 0 else Suc (bit_len (n div 2)))"

declare bit_len.simps [simp del]

text \<open>The integer nearest to \<open>p / q\<close>, the even one of two that are equally near.\<close>

definition rne :: "nat \<Rightarrow> nat \<Rightarrow> nat" where
  "rne p q = (let k = p div q; r = p mod q
     in if 2 * r < q \<or> (2 * r = q \<and> even k) then k else Suc k)"

definition scale_num :: "nat \<Rightarrow> int \<Rightarrow> nat" where
  "scale_num p e = (if e \<le> 0 then p * 2 ^ nat (- e) else p)"

definition scale_den :: "nat \<Rightarrow> int \<Rightarrow> nat" where
  "scale_den q e = (if e \<le> 0 then q else q * 2 ^ nat e)"

text \<open>\<open>ilog2 p q\<close> is the integer part of the binary logarithm of \<open>p / q\<close>.\<close>

definition ilog2 :: "nat \<Rightarrow> nat \<Rightarrow> int" where
  "ilog2 p q = (let k = int (bit_len p) - int (bit_len q)
     in if scale_den q k \<le> scale_num p k then k else k - 1)"

definition round_ratio :: "bool \<Rightarrow> nat \<Rightarrow> nat \<Rightarrow> double" where
  "round_ratio s p q =
     (if p = 0 then D_fin s 0 0
      else let e = max (ilog2 p q - 52) (- 1074);
               m = rne (scale_num p e) (scale_den q e)
           in if 971 < e \<or> (e = 971 \<and> 2 ^ 53 \<le> m) then D_inf s else D_fin s m e)"

definition double_of_nat :: "nat \<Rightarrow> double" where
  "double_of_nat n = round_ratio False n 1"

section \<open>Arithmetic and comparison\<close>

text \<open>The significand of a finite value as an integer multiple of \<open>2 ^ e0\<close>, \<open>e0\<close> at most its exponent.\<close>

definition d_scaled :: "bool \<Rightarrow> nat \<Rightarrow> int \<Rightarrow> int \<Rightarrow> int" where
  "d_scaled s m e e0 = (if s then - 1 else 1) * int m * 2 ^ nat (e - e0)"

fun d_neg :: "double \<Rightarrow> double" where
  "d_neg D_nan = D_nan"
| "d_neg (D_inf s) = D_inf (\<not> s)"
| "d_neg (D_fin s m e) = D_fin (\<not> s) m e"

fun d_add :: "double \<Rightarrow> double \<Rightarrow> double" where
  "d_add D_nan y = D_nan"
| "d_add x D_nan = D_nan"
| "d_add (D_inf s) (D_inf t) = (if s = t then D_inf s else D_nan)"
| "d_add (D_inf s) y = D_inf s"
| "d_add x (D_inf t) = D_inf t"
| "d_add (D_fin s m e) (D_fin t n f) =
     (let e0 = min e f; z = d_scaled s m e e0 + d_scaled t n f e0
      in if z = 0 then D_fin (s \<and> t) 0 0
         else round_ratio (z < 0) (scale_num (nat \<bar>z\<bar>) (- e0)) (scale_den 1 (- e0)))"

fun d_div :: "double \<Rightarrow> double \<Rightarrow> double" where
  "d_div D_nan y = D_nan"
| "d_div x D_nan = D_nan"
| "d_div (D_inf s) (D_inf t) = D_nan"
| "d_div (D_inf s) (D_fin t n f) = D_inf (s \<noteq> t)"
| "d_div (D_fin s m e) (D_inf t) = D_fin (s \<noteq> t) 0 0"
| "d_div (D_fin s m e) (D_fin t n f) =
     (if n = 0 then if m = 0 then D_nan else D_inf (s \<noteq> t)
      else round_ratio (s \<noteq> t) (scale_num m (f - e)) (scale_den n (f - e)))"

fun d_less :: "double \<Rightarrow> double \<Rightarrow> bool" where
  "d_less D_nan y = False"
| "d_less x D_nan = False"
| "d_less (D_inf s) (D_inf t) = (s \<and> \<not> t)"
| "d_less (D_inf s) y = s"
| "d_less x (D_inf t) = (\<not> t)"
| "d_less (D_fin s m e) (D_fin t n f) =
     (let e0 = min e f in d_scaled s m e e0 < d_scaled t n f e0)"

definition d_zero :: double where
  "d_zero = D_fin False 0 0"

text \<open>The operators of C on \<open>double\<close> (division keeps its own name, \<open>d_div\<close>).\<close>

instantiation double :: "{zero, plus, minus, uminus, ord}"
begin

definition zero_double :: double where "zero_double = d_zero"
definition plus_double :: "double \<Rightarrow> double \<Rightarrow> double" where "plus_double = d_add"
definition uminus_double :: "double \<Rightarrow> double" where "uminus_double = d_neg"
definition minus_double :: "double \<Rightarrow> double \<Rightarrow> double" where
  "minus_double x y = d_add x (d_neg y)"
definition less_double :: "double \<Rightarrow> double \<Rightarrow> bool" where "less_double = d_less"
definition less_eq_double :: "double \<Rightarrow> double \<Rightarrow> bool" where
  "less_eq_double x y \<longleftrightarrow> d_less x y \<or> (\<not> is_nan x \<and> \<not> is_nan y \<and> \<not> d_less y x)"

instance ..

end

lemmas double_ops =
  zero_double_def plus_double_def minus_double_def uminus_double_def
  less_double_def less_eq_double_def

end
