(* ===== verification/Libc.thy ===== *)
theory Libc
  imports Prelude "HOL-Library.Char_ord"
begin

text \<open>
  The C library functions that turn the command line into a socket address:
  \<open>atoi\<close>, \<open>htons\<close> and \<open>inet_addr\<close>. The address fields of \<open>sockaddr_in\<close> are kept as
  the bytes they have in memory, which the socket interface defines to be in network
  order, so the model does not depend on the byte order of the host.
\<close>

section \<open>Characters and numbers\<close>

definition is_digit :: "char \<Rightarrow> bool" where
  "is_digit c \<longleftrightarrow> 48 \<le> (of_char c :: nat) \<and> (of_char c :: nat) \<le> 57"

definition is_space :: "char \<Rightarrow> bool" where
  "is_space c \<longleftrightarrow> (of_char c :: nat) = 32 \<or> (9 \<le> (of_char c :: nat) \<and> (of_char c :: nat) \<le> 13)"

text \<open>The value of a digit in a base up to 16, as \<open>strtoul\<close> reads it.\<close>

definition digit_val :: "nat \<Rightarrow> char \<Rightarrow> nat option" where
  "digit_val b c = (let n = (of_char c :: nat);
       d = (if 48 \<le> n \<and> n \<le> 57 then n - 48
            else if 97 \<le> n \<and> n \<le> 102 then n - 87
            else if 65 \<le> n \<and> n \<le> 70 then n - 55 else b)
     in if d < b then Some d else None)"

fun read_digits :: "nat \<Rightarrow> nat \<Rightarrow> string \<Rightarrow> nat \<times> string" where
  "read_digits b acc [] = (acc, [])"
| "read_digits b acc (c # cs) =
     (case digit_val b c of None \<Rightarrow> (acc, c # cs) | Some d \<Rightarrow> read_digits b (b * acc + d) cs)"

section \<open>atoi\<close>

text \<open>
  Leading white space, an optional sign, decimal digits up to the first other
  character. A value that is no \<open>int\<close> is undefined behaviour.
\<close>

definition atoi :: "string \<Rightarrow> int option" where
  "atoi s = (let t = dropWhile is_space s;
       (neg, u) = (case t of [] \<Rightarrow> (False, []) | c # cs \<Rightarrow>
          if c = CHR ''-'' then (True, cs) else if c = CHR ''+'' then (False, cs) else (False, t));
       v = (if neg then - int (fst (read_digits 10 0 u)) else int (fst (read_digits 10 0 u)))
     in if - (2 ^ 31) \<le> v \<and> v < 2 ^ 31 then Some v else None)"

text \<open>\<open>htons\<close> after the conversion of its argument to \<open>uint16_t\<close>, as bytes in memory.\<close>

definition htons :: "int \<Rightarrow> byte list" where
  "htons n = (let u = word_of_int n :: 16 word in [ucast (drop_bit 8 u), ucast u])"

section \<open>inet_addr\<close>

text \<open>
  One number of the dots-and-numbers notation in C syntax: \<open>0x\<close> hexadecimal, a
  leading \<open>0\<close> octal, otherwise decimal.
\<close>

fun read_number :: "string \<Rightarrow> nat \<times> string" where
  "read_number (c # d # e # cs) =
     (if c = CHR ''0'' \<and> (d = CHR ''x'' \<or> d = CHR ''X'') \<and> digit_val 16 e \<noteq> None
      then read_digits 16 0 (e # cs)
      else read_digits (if c = CHR ''0'' then 8 else 10) 0 (c # d # e # cs))"
| "read_number (c # cs) = read_digits (if c = CHR ''0'' then 8 else 10) 0 (c # cs)"
| "read_number [] = (0, [])"

text \<open>The big-endian bytes of a number, \<open>n\<close> of them.\<close>

fun be_bytes :: "nat \<Rightarrow> nat \<Rightarrow> byte list" where
  "be_bytes 0 v = []"
| "be_bytes (Suc n) v = be_bytes n (v div 256) @ [word_of_nat (v mod 256)]"

definition inaddr_none :: "byte list" where
  "inaddr_none = [255, 255, 255, 255]"

text \<open>
  Up to four numbers separated by dots; all but the last are one byte, the last fills
  the bytes that are left. \<open>k\<close> is the number of bytes still to be given.
\<close>

fun inet_parts :: "nat \<Rightarrow> string \<Rightarrow> byte list option" where
  "inet_parts 0 s = None"
| "inet_parts (Suc k) s =
     (if s = [] \<or> \<not> is_digit (hd s) then None
      else case read_number s of (v, rest) \<Rightarrow>
        if rest \<noteq> [] \<and> hd rest = CHR ''.''
        then if k = 0 \<or> 255 < v then None
             else map_option (\<lambda>bs. word_of_nat v # bs) (inet_parts k (tl rest))
        else if rest \<noteq> [] \<and> \<not> is_space (hd rest) then None
        else if 256 ^ Suc k \<le> v then None
        else Some (be_bytes (Suc k) v))"

definition inet_addr :: "string \<Rightarrow> byte list" where
  "inet_addr s = (case inet_parts 4 s of Some bs \<Rightarrow> bs | None \<Rightarrow> inaddr_none)"

section \<open>Facts\<close>

lemma length_be_bytes [simp]: "length (be_bytes n v) = n"
  by (induction n arbitrary: v) auto

lemma length_inet_parts: "inet_parts k s = Some bs \<Longrightarrow> length bs = k"
proof (induction k s arbitrary: bs rule: inet_parts.induct)
  case (1 s)
  then show ?case by simp
next
  case (2 k s)
  obtain v rest where r: "read_number s = (v, rest)" by force
  show ?case
  proof (cases "rest \<noteq> [] \<and> hd rest = CHR ''.''")
    case True
    with 2 r show ?thesis
      by (auto split: if_splits)
  next
    case False
    with "2.prems" r show ?thesis
      by (auto split: if_splits)
  qed
qed

lemma length_inet_addr: "length (inet_addr s) = 4"
  by (simp add: inet_addr_def inaddr_none_def length_inet_parts split: option.split)

end
