(* ===== verification/Environment.thy ===== *)
theory Environment
  imports Prelude Binary64 Libc
begin

text \<open>
  The outside of the programs: the kernel, the C heap and the libev library. None of it
  is under \<^verbatim>\<open>src/\<close>, so none of it is defined here. Every call a program makes is recorded in
  a history, newest first, with the reply it got; the replies come from a parameter
  \<open>E\<close> of type \<open>env\<close>, a function of the calls made so far, so that ranging over all
  \<open>E\<close> ranges over all behaviours of the outside. What the programs rely on is the
  predicate \<open>env_ok\<close>. What libev does with a watcher (is it active, which callback was
  registered) is read off the history as libev's manual describes it.
\<close>

section \<open>Names shared with the kernel and libev\<close>

type_synonym ptr = "64 word"
type_synonym loop = nat

datatype errno = EINTR | EAGAIN | EINPROGRESS | Errno int

datatype c_const = AF_INET | SOCK_STREAM | SOL_SOCKET | SO_REUSEADDR | FIONBIO | IPPROTO_TCP | TCP_NODELAY
  | F_GETFL | F_SETFL

datatype revent = EV_READ | EV_WRITE | EV_TIMER | EV_ERROR

text \<open>
  The objects that hold watchers: a block of the heap, the \<open>echo_server_t\<close> on the stack
  of a thread, the global variables. A watcher is a member of an object; pointers to
  watchers are the only pointers libev is given.
\<close>

datatype obj = Heap ptr | Stack nat | Global

datatype member =
  Wev_accept | Wev_recv | Wev_send | Wev_timeout | Wev_connect | Wev_exit | Wev_silent

datatype watcher = Member (w_obj: obj) (w_member: member)

datatype callback =
  Wcb_null | Wcb_accept | Wcb_recv | Wcb_send | Wcb_timeout | Wcb_connect | Wcb_exit | Wcb_silent

record sockaddr_in =
  sin_family :: c_const
  sin_addr :: "byte list"
  sin_port :: "byte list"

record ev_io =
  io_cb :: callback
  io_fd :: int
  io_events :: "revent set"

record ev_timer =
  tm_cb :: callback
  tm_after :: double
  tm_repeat :: double

text \<open>The values of structures whose bytes are all zero; \<open>Wcb_null\<close> is the null function pointer.\<close>

definition zero_io :: ev_io where
  "zero_io = \<lparr>io_cb = Wcb_null, io_fd = 0, io_events = {}\<rparr>"

definition zero_timer :: ev_timer where
  "zero_timer = \<lparr>tm_cb = Wcb_null, tm_after = 0, tm_repeat = 0\<rparr>"

text \<open>The arguments of \<open>fprintf\<close>; \<open>strerror\<close> is kept as the \<open>errno\<close> it is given.\<close>

datatype c_arg = A_int int | A_double double | A_str string | A_strerror errno

section \<open>Calls and histories\<close>

text \<open>Calls that only the C++ programs make, apart from \<open>epoll_create1\<close>.\<close>

datatype cpp_event =
    Fcntl int c_const int "errno + int"
  | Epoll_ctl int int "errno + int"
  | Epoll_wait int "errno + int list"
  | Gettimeofday "64 word" "64 word"
  | Rand int
  | Async_write ptr nat
  | Cout "c_arg list"
  | Sleep "32 word"

datatype event =
    Socket c_const c_const int "errno + int"
  | Ioctl int c_const int "errno + int"
  | Setsockopt int c_const c_const int "errno + int"
  | Bind int sockaddr_in "errno + int"
  | Listen int int "errno + int"
  | Accept int "errno + (int \<times> sockaddr_in)"
  | Connect int sockaddr_in "errno + int"
  | Recv int size_t "errno + byte list"
  | Send int "byte list" "errno + nat"
  | Close int
  | Malloc "ptr option"
  | Calloc "ptr option"
  | Free ptr
  | Fprintf string "c_arg list"
  | Ev_io_init watcher callback int "revent set"
  | Ev_timer_init watcher callback double double
  | Ev_io_start loop watcher
  | Ev_io_stop loop watcher
  | Ev_timer_again loop watcher double
  | Ev_timer_stop loop watcher
  | Ev_new_loop loop
  | Ev_now loop double
  | Ev_break loop
  | Ev_run loop
  | Mutex_lock
  | Mutex_unlock
  | Sysconf int
  | Pthread_create nat int int
  | Epoll_create "errno + int"
  | Cpp cpp_event

type_synonym history = "event list"

text \<open>
  Is a watcher active in a loop? \<open>ev_timer_again\<close> starts a repeating timer and stops one
  with repeat value 0; timers of these programs all repeat, so they never stop by themselves.
\<close>

primrec active :: "history \<Rightarrow> loop \<Rightarrow> watcher \<Rightarrow> bool" where
  "active [] l wt = False"
| "active (e # h) l wt = (case e of
     Ev_io_start l' wt' \<Rightarrow> (l' = l \<and> wt' = wt) \<or> active h l wt
   | Ev_io_stop l' wt' \<Rightarrow> \<not> (l' = l \<and> wt' = wt) \<and> active h l wt
   | Ev_timer_again l' wt' r \<Rightarrow> (if l' = l \<and> wt' = wt then 0 < r else active h l wt)
   | Ev_timer_stop l' wt' \<Rightarrow> \<not> (l' = l \<and> wt' = wt) \<and> active h l wt
   | _ \<Rightarrow> active h l wt)"

text \<open>The callback a watcher was last initialised with.\<close>

primrec registered :: "history \<Rightarrow> watcher \<Rightarrow> callback option" where
  "registered [] wt = None"
| "registered (e # h) wt = (case e of
     Ev_io_init wt' cb fd ev \<Rightarrow> (if wt' = wt then Some cb else registered h wt)
   | Ev_timer_init wt' cb a r \<Rightarrow> (if wt' = wt then Some cb else registered h wt)
   | _ \<Rightarrow> registered h wt)"

primrec allocated :: "history \<Rightarrow> ptr \<Rightarrow> bool" where
  "allocated [] p = False"
| "allocated (e # h) p = (case e of
     Malloc (Some q) \<Rightarrow> q = p \<or> allocated h p
   | Calloc (Some q) \<Rightarrow> q = p \<or> allocated h p
   | Free q \<Rightarrow> q \<noteq> p \<and> allocated h p
   | _ \<Rightarrow> allocated h p)"

primrec open_fd :: "history \<Rightarrow> int \<Rightarrow> bool" where
  "open_fd [] fd = False"
| "open_fd (e # h) fd = (case e of
     Socket _ _ _ (Inr f) \<Rightarrow> f = fd \<or> open_fd h fd
   | Epoll_create (Inr f) \<Rightarrow> f = fd \<or> open_fd h fd
   | Accept _ (Inr (f, a)) \<Rightarrow> f = fd \<or> open_fd h fd
   | Close f \<Rightarrow> f \<noteq> fd \<and> open_fd h fd
   | _ \<Rightarrow> open_fd h fd)"

text \<open>The bytes received and sent on a descriptor since it was last created.\<close>

primrec recvd :: "history \<Rightarrow> int \<Rightarrow> byte list" where
  "recvd [] fd = []"
| "recvd (e # h) fd = (case e of
     Socket _ _ _ (Inr f) \<Rightarrow> (if f = fd then [] else recvd h fd)
   | Accept _ (Inr (f, a)) \<Rightarrow> (if f = fd then [] else recvd h fd)
   | Recv f n (Inr bs) \<Rightarrow> (if f = fd then recvd h fd @ bs else recvd h fd)
   | _ \<Rightarrow> recvd h fd)"

primrec sent :: "history \<Rightarrow> int \<Rightarrow> byte list" where
  "sent [] fd = []"
| "sent (e # h) fd = (case e of
     Socket _ _ _ (Inr f) \<Rightarrow> (if f = fd then [] else sent h fd)
   | Accept _ (Inr (f, a)) \<Rightarrow> (if f = fd then [] else sent h fd)
   | Send f bs (Inr k) \<Rightarrow> (if f = fd then sent h fd @ take k bs else sent h fd)
   | _ \<Rightarrow> sent h fd)"

text \<open>How often a timer was started or put back to its full interval.\<close>

primrec rearms :: "history \<Rightarrow> watcher \<Rightarrow> nat" where
  "rearms [] wt = 0"
| "rearms (e # h) wt = (case e of
     Ev_timer_again l wt' r \<Rightarrow> (if wt' = wt then 1 else 0) + rearms h wt
   | _ \<Rightarrow> rearms h wt)"

section \<open>What a call is about\<close>

primrec ev_obj :: "event \<Rightarrow> obj option" where
  "ev_obj (Socket _ _ _ _) = None"
| "ev_obj (Ioctl _ _ _ _) = None"
| "ev_obj (Setsockopt _ _ _ _ _) = None"
| "ev_obj (Bind _ _ _) = None"
| "ev_obj (Listen _ _ _) = None"
| "ev_obj (Accept _ _) = None"
| "ev_obj (Connect _ _ _) = None"
| "ev_obj (Recv _ _ _) = None"
| "ev_obj (Send _ _ _) = None"
| "ev_obj (Close _) = None"
| "ev_obj (Malloc p) = map_option Heap p"
| "ev_obj (Calloc p) = map_option Heap p"
| "ev_obj (Free p) = Some (Heap p)"
| "ev_obj (Fprintf _ _) = None"
| "ev_obj (Ev_io_init wt _ _ _) = Some (w_obj wt)"
| "ev_obj (Ev_timer_init wt _ _ _) = Some (w_obj wt)"
| "ev_obj (Ev_io_start _ wt) = Some (w_obj wt)"
| "ev_obj (Ev_io_stop _ wt) = Some (w_obj wt)"
| "ev_obj (Ev_timer_again _ wt _) = Some (w_obj wt)"
| "ev_obj (Ev_timer_stop _ wt) = Some (w_obj wt)"
| "ev_obj (Ev_new_loop _) = None"
| "ev_obj (Ev_now _ _) = None"
| "ev_obj (Ev_break _) = None"
| "ev_obj (Ev_run _) = None"
| "ev_obj Mutex_lock = None"
| "ev_obj Mutex_unlock = None"
| "ev_obj (Sysconf _) = None"
| "ev_obj (Pthread_create _ _ _) = None"
| "ev_obj (Epoll_create _) = None"
| "ev_obj (Cpp _) = None"

definition ev_fd :: "event \<Rightarrow> int option" where
  "ev_fd e = (case e of
     Socket _ _ _ (Inr f) \<Rightarrow> Some f
   | Epoll_create (Inr f) \<Rightarrow> Some f
   | Accept _ (Inr (f, a)) \<Rightarrow> Some f
   | Recv f _ _ \<Rightarrow> Some f
   | Send f _ _ \<Rightarrow> Some f
   | Close f \<Rightarrow> Some f
   | _ \<Rightarrow> None)"

definition about :: "obj set \<Rightarrow> int set \<Rightarrow> event \<Rightarrow> bool" where
  "about Os F e \<longleftrightarrow> (\<forall>ob. ev_obj e = Some ob \<longrightarrow> ob \<in> Os) \<and> (\<forall>f. ev_fd e = Some f \<longrightarrow> f \<in> F)"

text \<open>
  \<open>ext Os F h h'\<close>: the history \<open>h'\<close> adds to \<open>h\<close> only calls about the objects \<open>Os\<close> and the
  descriptors \<open>F\<close>, registers callbacks only as \<open>cb_of\<close> says, and creates neither event loops
  nor threads.
\<close>

primrec cb_of :: "member \<Rightarrow> callback" where
  "cb_of Wev_accept = Wcb_accept"
| "cb_of Wev_recv = Wcb_recv"
| "cb_of Wev_send = Wcb_send"
| "cb_of Wev_timeout = Wcb_timeout"
| "cb_of Wev_connect = Wcb_connect"
| "cb_of Wev_exit = Wcb_exit"
| "cb_of Wev_silent = Wcb_silent"

definition init_ok :: "event \<Rightarrow> bool" where
  "init_ok e = (case e of
     Ev_io_init wt cb fd ev \<Rightarrow> cb = cb_of (w_member wt)
   | Ev_timer_init wt cb a r \<Rightarrow> cb = cb_of (w_member wt)
   | Ev_new_loop l \<Rightarrow> False
   | Pthread_create n a r \<Rightarrow> False
   | _ \<Rightarrow> True)"

inductive ext :: "obj set \<Rightarrow> int set \<Rightarrow> history \<Rightarrow> history \<Rightarrow> bool" for Os F h where
  ext_refl: "ext Os F h h"
| ext_Cons: "ext Os F h h' \<Longrightarrow> about Os F e \<Longrightarrow> init_ok e \<Longrightarrow> ext Os F h (e # h')"

lemma ext_mono: "ext Os F h h' \<Longrightarrow> Os \<subseteq> Os' \<Longrightarrow> F \<subseteq> F' \<Longrightarrow> ext Os' F' h h'"
  by (induction rule: ext.induct) (auto simp: about_def subset_iff intro!: ext.intros)

lemma ext_trans: "ext Os F h' h'' \<Longrightarrow> ext Os F h h' \<Longrightarrow> ext Os F h h''"
  by (induction rule: ext.induct) (auto intro: ext.intros)

text \<open>Calls about other objects and other descriptors leave the views of an object alone.\<close>

lemma active_ext [frame]:
  "ext Os F h h' \<Longrightarrow> w_obj wt \<notin> Os \<Longrightarrow> active h' l wt = active h l wt"
  by (induction rule: ext.induct) (auto simp: about_def split: event.split)

lemma registered_ext [frame]:
  "ext Os F h h' \<Longrightarrow> w_obj wt \<notin> Os \<Longrightarrow> registered h' wt = registered h wt"
  by (induction rule: ext.induct) (auto simp: about_def split: event.split)

lemma registered_cb_ext:
  "ext Os F h h' \<Longrightarrow> registered h' wt = Some cb \<Longrightarrow> registered h wt = Some cb \<or> cb = cb_of (w_member wt)"
  by (induction arbitrary: cb rule: ext.induct)
     (auto simp: init_ok_def split: event.splits if_splits)

lemma threads_ext:
  assumes "ext Os F h h'"
  shows "Ev_new_loop l \<in> set h' \<longleftrightarrow> Ev_new_loop l \<in> set h"
    and "Pthread_create n a r \<in> set h' \<longleftrightarrow> Pthread_create n a r \<in> set h"
  using assms by (induction rule: ext.induct) (auto simp: init_ok_def)

lemma allocated_ext [frame]:
  "ext Os F h h' \<Longrightarrow> Heap p \<notin> Os \<Longrightarrow> allocated h' p = allocated h p"
  by (induction rule: ext.induct) (auto simp: about_def split: event.split option.split)

lemma open_fd_ext [frame]:
  "ext Os F h h' \<Longrightarrow> fd \<notin> F \<Longrightarrow> open_fd h' fd = open_fd h fd"
  by (induction rule: ext.induct) (auto simp: about_def ev_fd_def split: event.split sum.split)

lemma recvd_ext [frame]:
  "ext Os F h h' \<Longrightarrow> fd \<notin> F \<Longrightarrow> recvd h' fd = recvd h fd"
  by (induction rule: ext.induct) (auto simp: about_def ev_fd_def split: event.split sum.split)

lemma sent_ext [frame]:
  "ext Os F h h' \<Longrightarrow> fd \<notin> F \<Longrightarrow> sent h' fd = sent h fd"
  by (induction rule: ext.induct) (auto simp: about_def ev_fd_def split: event.split sum.split)

lemmas ext_frame =
  active_ext registered_ext allocated_ext open_fd_ext recvd_ext sent_ext

end
