(* ===== verification/World.thy ===== *)
theory World
  imports Environment
begin

text \<open>
  The state of a process and the calls it makes. \<open>'c\<close> is the type of the structures the
  program allocates, \<open>'s\<close> the type of the structure that holds its accept watcher. Each
  operation here records one call in the history with the reply of the environment and
  does to the process state what the call does to it: \<open>errno\<close>, the heap, the result.
\<close>

section \<open>State and environment\<close>

record ('c, 's) world =
  hist :: history
  errno :: errno
  heap :: "ptr \<Rightarrow> 'c option"
  servers :: "nat \<Rightarrow> 's option"
  loop :: loop

record 'c env =
  e_socket :: "history \<Rightarrow> errno + int"
  e_ioctl :: "history \<Rightarrow> int \<Rightarrow> int \<Rightarrow> errno + int"
  e_setsockopt :: "history \<Rightarrow> int \<Rightarrow> int \<Rightarrow> errno + int"
  e_bind :: "history \<Rightarrow> int \<Rightarrow> sockaddr_in \<Rightarrow> errno + int"
  e_listen :: "history \<Rightarrow> int \<Rightarrow> int \<Rightarrow> errno + int"
  e_accept :: "history \<Rightarrow> int \<Rightarrow> errno + (int \<times> sockaddr_in)"
  e_connect :: "history \<Rightarrow> int \<Rightarrow> sockaddr_in \<Rightarrow> errno + int"
  e_recv :: "history \<Rightarrow> int \<Rightarrow> size_t \<Rightarrow> errno + byte list"
  e_send :: "history \<Rightarrow> int \<Rightarrow> byte list \<Rightarrow> errno + nat"
  e_malloc :: "history \<Rightarrow> (ptr \<times> 'c) option"
  e_calloc :: "history \<Rightarrow> ptr option"
  e_ev_loop :: "history \<Rightarrow> loop"
  e_ev_now :: "history \<Rightarrow> loop \<Rightarrow> double"
  e_sysconf :: "history \<Rightarrow> int"
  e_pthread_create :: "history \<Rightarrow> nat \<Rightarrow> int"

text \<open>
  What the manuals promise: \<open>recv\<close> stores at most as many bytes as asked for and
  \<open>send\<close> takes at most as many as given; a new descriptor is not negative, fits an
  \<open>int\<close> and is not open already; a new block is not allocated already and a new loop is not in use; a call that
  returns a status returns 0 when it does not fail.
\<close>

definition env_ok :: "'c env \<Rightarrow> bool" where
  "env_ok E \<longleftrightarrow>
     (\<forall>h fd n bs. e_recv E h fd n = Inr bs \<longrightarrow> length bs \<le> unat n) \<and>
     (\<forall>h fd bs k. e_send E h fd bs = Inr k \<longrightarrow> k \<le> length bs) \<and>
     (\<forall>h fd. e_socket E h = Inr fd \<longrightarrow> 0 \<le> fd \<and> fd < 2 ^ 31 \<and> \<not> open_fd h fd) \<and>
     (\<forall>h l fd a. e_accept E h l = Inr (fd, a) \<longrightarrow> 0 \<le> fd \<and> fd < 2 ^ 31 \<and> \<not> open_fd h fd) \<and>
     (\<forall>h p c. e_malloc E h = Some (p, c) \<longrightarrow> \<not> allocated h p) \<and>
     (\<forall>h. Ev_new_loop (e_ev_loop E h) \<notin> set h) \<and>
     (\<forall>h p. e_calloc E h = Some p \<longrightarrow> \<not> allocated h p) \<and>
     (\<forall>h fd v r. e_ioctl E h fd v = Inr r \<longrightarrow> r = 0) \<and>
     (\<forall>h fd a r. e_connect E h fd a = Inr r \<longrightarrow> r = 0) \<and>
     (\<forall>h fd v r. e_setsockopt E h fd v = Inr r \<longrightarrow> r = 0) \<and>
     (\<forall>h fd a r. e_bind E h fd a = Inr r \<longrightarrow> r = 0) \<and>
     (\<forall>h fd n r. e_listen E h fd n = Inr r \<longrightarrow> r = 0)"

text \<open>No call of \<open>recv\<close> is interrupted for ever.\<close>

definition recv_returns :: "'c env \<Rightarrow> bool" where
  "recv_returns E \<longleftrightarrow>
     (\<forall>h fd n. \<exists>k. e_recv E (replicate k (Recv fd n (Inl EINTR)) @ h) fd n \<noteq> Inl EINTR)"

lemma env_okD:
  assumes "env_ok E"
  shows "e_recv E h fd n = Inr bs \<Longrightarrow> length bs \<le> unat n"
    and "e_send E h fd ds = Inr k \<Longrightarrow> k \<le> length ds"
    and "e_socket E h = Inr fd \<Longrightarrow> 0 \<le> fd \<and> fd < 2 ^ 31 \<and> \<not> open_fd h fd"
    and "e_accept E h l = Inr (fd, a) \<Longrightarrow> 0 \<le> fd \<and> fd < 2 ^ 31 \<and> \<not> open_fd h fd"
    and "e_malloc E h = Some (p, c) \<Longrightarrow> \<not> allocated h p"
    and "e_calloc E h = Some p \<Longrightarrow> \<not> allocated h p"
    and "e_ioctl E h fd v = Inr r \<Longrightarrow> r = 0"
    and "e_connect E h fd ca = Inr r \<Longrightarrow> r = 0"
    and "e_setsockopt E h fd v = Inr r \<Longrightarrow> r = 0"
    and "e_bind E h fd ca = Inr r \<Longrightarrow> r = 0"
    and "e_listen E h fd v = Inr r \<Longrightarrow> r = 0"
    and "Ev_new_loop (e_ev_loop E h) \<notin> set h"
  using assms unfolding env_ok_def by - metis+

section \<open>Recording calls\<close>

definition emit :: "event \<Rightarrow> ('c, 's, 'z) world_scheme \<Rightarrow> ('c, 's, 'z) world_scheme" where
  "emit e w = w\<lparr>hist := e # hist w\<rparr>"

text \<open>A call that fails returns \<open>-1\<close> and sets \<open>errno\<close>; it leaves \<open>errno\<close> alone otherwise.\<close>

definition status ::
  "(errno + int \<Rightarrow> event) \<Rightarrow> errno + int \<Rightarrow> ('c, 's, 'z) world_scheme
     \<Rightarrow> int \<times> ('c, 's, 'z) world_scheme" where
  "status call r w = (case r of
     Inl e \<Rightarrow> (-1, (emit (call r) w)\<lparr>errno := e\<rparr>)
   | Inr v \<Rightarrow> (v, emit (call r) w))"

lemma status_nonneg:
  "status call r w = (v, w') \<Longrightarrow> 0 \<le> v \<Longrightarrow> r = Inr v \<and> w' = w\<lparr>hist := call (Inr v) # hist w\<rparr>"
  by (auto simp: status_def emit_def split: sum.splits)

definition c_socket ::
  "'c env \<Rightarrow> ('c, 's, 'z) world_scheme \<Rightarrow> int \<times> ('c, 's, 'z) world_scheme" where
  "c_socket E w = status (Socket AF_INET SOCK_STREAM 0) (e_socket E (hist w)) w"

definition c_ioctl ::
  "'c env \<Rightarrow> int \<Rightarrow> int \<Rightarrow> ('c, 's, 'z) world_scheme \<Rightarrow> int \<times> ('c, 's, 'z) world_scheme" where
  "c_ioctl E fd v w = status (Ioctl fd FIONBIO v) (e_ioctl E (hist w) fd v) w"

definition c_setsockopt ::
  "'c env \<Rightarrow> int \<Rightarrow> c_const \<Rightarrow> c_const \<Rightarrow> int \<Rightarrow> ('c, 's, 'z) world_scheme
     \<Rightarrow> int \<times> ('c, 's, 'z) world_scheme" where
  "c_setsockopt E fd level key v w =
     status (Setsockopt fd level key v) (e_setsockopt E (hist w) fd v) w"

definition c_bind ::
  "'c env \<Rightarrow> int \<Rightarrow> sockaddr_in \<Rightarrow> ('c, 's, 'z) world_scheme
     \<Rightarrow> int \<times> ('c, 's, 'z) world_scheme" where
  "c_bind E fd a w = status (Bind fd a) (e_bind E (hist w) fd a) w"

definition c_listen ::
  "'c env \<Rightarrow> int \<Rightarrow> int \<Rightarrow> ('c, 's, 'z) world_scheme
     \<Rightarrow> int \<times> ('c, 's, 'z) world_scheme" where
  "c_listen E fd n w = status (Listen fd n) (e_listen E (hist w) fd n) w"

definition c_connect ::
  "'c env \<Rightarrow> int \<Rightarrow> sockaddr_in \<Rightarrow> ('c, 's, 'z) world_scheme
     \<Rightarrow> int \<times> ('c, 's, 'z) world_scheme" where
  "c_connect E fd a w = status (Connect fd a) (e_connect E (hist w) fd a) w"

text \<open>\<open>accept\<close> also fills in the peer's address; \<open>any_addr\<close> is what was there before.\<close>

definition c_accept ::
  "'c env \<Rightarrow> int \<Rightarrow> sockaddr_in \<Rightarrow> ('c, 's, 'z) world_scheme
     \<Rightarrow> int \<times> sockaddr_in \<times> ('c, 's, 'z) world_scheme" where
  "c_accept E lfd any_addr w = (case e_accept E (hist w) lfd of
     Inl e \<Rightarrow> (-1, any_addr, (emit (Accept lfd (Inl e)) w)\<lparr>errno := e\<rparr>)
   | Inr (fd, a) \<Rightarrow> (fd, a, emit (Accept lfd (Inr (fd, a))) w))"

text \<open>The result of \<open>recv\<close> and the bytes it stored.\<close>

definition c_recv ::
  "'c env \<Rightarrow> int \<Rightarrow> size_t \<Rightarrow> ('c, 's, 'z) world_scheme
     \<Rightarrow> int \<times> byte list \<times> ('c, 's, 'z) world_scheme" where
  "c_recv E fd n w = (case e_recv E (hist w) fd n of
     Inl e \<Rightarrow> (-1, [], (emit (Recv fd n (Inl e)) w)\<lparr>errno := e\<rparr>)
   | Inr bs \<Rightarrow> (int (length bs), bs, emit (Recv fd n (Inr bs)) w))"

definition c_send ::
  "'c env \<Rightarrow> int \<Rightarrow> byte list \<Rightarrow> ('c, 's, 'z) world_scheme
     \<Rightarrow> int \<times> ('c, 's, 'z) world_scheme" where
  "c_send E fd bs w = (case e_send E (hist w) fd bs of
     Inl e \<Rightarrow> (-1, (emit (Send fd bs (Inl e)) w)\<lparr>errno := e\<rparr>)
   | Inr k \<Rightarrow> (int k, emit (Send fd bs (Inr k)) w))"

definition c_close :: "int \<Rightarrow> ('c, 's, 'z) world_scheme \<Rightarrow> ('c, 's, 'z) world_scheme" where
  "c_close fd w = emit (Close fd) w"

definition c_fprintf ::
  "string \<Rightarrow> c_arg list \<Rightarrow> ('c, 's, 'z) world_scheme \<Rightarrow> ('c, 's, 'z) world_scheme" where
  "c_fprintf f as w = emit (Fprintf f as) w"

text \<open>A format string that ends its line.\<close>

definition ln :: "string \<Rightarrow> string" where
  "ln s = s @ [CHR 0x0A]"

section \<open>The heap\<close>

text \<open>Reading or writing a structure that is not allocated is undefined.\<close>

definition load :: "ptr \<Rightarrow> ('c, 's, 'z) world_scheme \<Rightarrow> 'c option" where
  "load p w = heap w p"

definition store ::
  "ptr \<Rightarrow> 'c \<Rightarrow> ('c, 's, 'z) world_scheme \<Rightarrow> ('c, 's, 'z) world_scheme option" where
  "store p c w = (if heap w p = None then None else Some (w\<lparr>heap := (heap w)(p := Some c)\<rparr>))"

definition c_malloc ::
  "'c env \<Rightarrow> ('c, 's, 'z) world_scheme \<Rightarrow> ptr option \<times> ('c, 's, 'z) world_scheme" where
  "c_malloc E w = (case e_malloc E (hist w) of
     None \<Rightarrow> (None, emit (Malloc None) w)
   | Some (p, c) \<Rightarrow> (Some p, (emit (Malloc (Some p)) w)\<lparr>heap := (heap w)(p := Some c)\<rparr>))"

definition c_calloc ::
  "'c env \<Rightarrow> 'c \<Rightarrow> ('c, 's, 'z) world_scheme \<Rightarrow> ptr option \<times> ('c, 's, 'z) world_scheme" where
  "c_calloc E zero w = (case e_calloc E (hist w) of
     None \<Rightarrow> (None, emit (Calloc None) w)
   | Some p \<Rightarrow> (Some p, (emit (Calloc (Some p)) w)\<lparr>heap := (heap w)(p := Some zero)\<rparr>))"

definition c_free ::
  "ptr \<Rightarrow> ('c, 's, 'z) world_scheme \<Rightarrow> ('c, 's, 'z) world_scheme option" where
  "c_free p w = (if heap w p = None then None
     else Some ((emit (Free p) w)\<lparr>heap := (heap w)(p := None)\<rparr>))"

section \<open>libev\<close>

text \<open>
  \<open>ev_io_init\<close> and \<open>ev_timer_init\<close> are macros that fill in the watcher; the structure they
  return is stored in the object by the caller.
\<close>

definition ev_io_init ::
  "watcher \<Rightarrow> callback \<Rightarrow> int \<Rightarrow> revent set \<Rightarrow> ('c, 's, 'z) world_scheme
     \<Rightarrow> ev_io \<times> ('c, 's, 'z) world_scheme" where
  "ev_io_init wt cb fd ev w =
     (\<lparr>io_cb = cb, io_fd = fd, io_events = ev\<rparr>, emit (Ev_io_init wt cb fd ev) w)"

definition ev_timer_init ::
  "watcher \<Rightarrow> callback \<Rightarrow> double \<Rightarrow> double \<Rightarrow> ('c, 's, 'z) world_scheme
     \<Rightarrow> ev_timer \<times> ('c, 's, 'z) world_scheme" where
  "ev_timer_init wt cb a r w =
     (\<lparr>tm_cb = cb, tm_after = a, tm_repeat = r\<rparr>, emit (Ev_timer_init wt cb a r) w)"

definition ev_io_start ::
  "loop \<Rightarrow> watcher \<Rightarrow> ('c, 's, 'z) world_scheme \<Rightarrow> ('c, 's, 'z) world_scheme" where
  "ev_io_start l wt w = emit (Ev_io_start l wt) w"

definition ev_io_stop ::
  "loop \<Rightarrow> watcher \<Rightarrow> ('c, 's, 'z) world_scheme \<Rightarrow> ('c, 's, 'z) world_scheme" where
  "ev_io_stop l wt w = emit (Ev_io_stop l wt) w"

text \<open>\<open>ev_timer_again\<close> uses the repeat value stored in the watcher.\<close>

definition ev_timer_again ::
  "loop \<Rightarrow> watcher \<Rightarrow> ev_timer \<Rightarrow> ('c, 's, 'z) world_scheme \<Rightarrow> ('c, 's, 'z) world_scheme" where
  "ev_timer_again l wt tm w = emit (Ev_timer_again l wt (tm_repeat tm)) w"

definition ev_timer_stop ::
  "loop \<Rightarrow> watcher \<Rightarrow> ('c, 's, 'z) world_scheme \<Rightarrow> ('c, 's, 'z) world_scheme" where
  "ev_timer_stop l wt w = emit (Ev_timer_stop l wt) w"

definition ev_now ::
  "'c env \<Rightarrow> loop \<Rightarrow> ('c, 's, 'z) world_scheme \<Rightarrow> double \<times> ('c, 's, 'z) world_scheme" where
  "ev_now E l w = (e_ev_now E (hist w) l, emit (Ev_now l (e_ev_now E (hist w) l)) w)"

text \<open>\<open>ev_default_loop\<close> and \<open>ev_loop_new\<close> give a loop, which the programs store in \<open>loop\<close>.\<close>

definition ev_new_loop ::
  "'c env \<Rightarrow> ('c, 's, 'z) world_scheme \<Rightarrow> ('c, 's, 'z) world_scheme" where
  "ev_new_loop E w = (emit (Ev_new_loop (e_ev_loop E (hist w))) w)\<lparr>loop := e_ev_loop E (hist w)\<rparr>"

definition ev_run :: "('c, 's, 'z) world_scheme \<Rightarrow> ('c, 's, 'z) world_scheme" where
  "ev_run w = emit (Ev_run (loop w)) w"

text \<open>\<open>ev_break\<close> with \<open>EVBREAK_ALL\<close> makes \<open>ev_run\<close> return after the callbacks at hand.\<close>

definition ev_break :: "loop \<Rightarrow> ('c, 's, 'z) world_scheme \<Rightarrow> ('c, 's, 'z) world_scheme" where
  "ev_break l w = emit (Ev_break l) w"

section \<open>Threads\<close>

definition pthread_mutex_lock :: "('c, 's, 'z) world_scheme \<Rightarrow> ('c, 's, 'z) world_scheme" where
  "pthread_mutex_lock w = emit Mutex_lock w"

definition pthread_mutex_unlock :: "('c, 's, 'z) world_scheme \<Rightarrow> ('c, 's, 'z) world_scheme" where
  "pthread_mutex_unlock w = emit Mutex_unlock w"

text \<open>The number of processors online.\<close>

definition c_sysconf ::
  "'c env \<Rightarrow> ('c, 's, 'z) world_scheme \<Rightarrow> int \<times> ('c, 's, 'z) world_scheme" where
  "c_sysconf E w = (e_sysconf E (hist w), emit (Sysconf (e_sysconf E (hist w))) w)"

text \<open>\<open>n\<close> numbers the threads a program creates, \<open>arg\<close> is what the new thread is given.\<close>

definition pthread_create ::
  "'c env \<Rightarrow> nat \<Rightarrow> int \<Rightarrow> ('c, 's, 'z) world_scheme \<Rightarrow> int \<times> ('c, 's, 'z) world_scheme" where
  "pthread_create E n arg w =
     (e_pthread_create E (hist w) n, emit (Pthread_create n arg (e_pthread_create E (hist w) n)) w)"

section \<open>Processes\<close>

text \<open>A program has left \<open>main\<close> with a status or is in \<open>ev_run\<close>, where libev calls it back.\<close>

datatype 'w process = Exited int 'w | Running 'w

text \<open>The process as it is started: no call made, no memory allocated.\<close>

definition fresh_world :: "('c, 's, 'z) world_scheme \<Rightarrow> bool" where
  "fresh_world w \<longleftrightarrow> hist w = [] \<and> (\<forall>p. heap w p = None) \<and> (\<forall>n. servers w n = None)"

lemmas status_call_defs =
  c_socket_def c_ioctl_def c_setsockopt_def c_bind_def c_listen_def c_connect_def

lemmas call_defs =
  c_socket_def c_ioctl_def c_setsockopt_def c_bind_def c_listen_def c_connect_def
  c_accept_def c_recv_def c_send_def c_close_def c_fprintf_def status_def
  c_malloc_def c_calloc_def c_free_def load_def store_def emit_def
  ev_io_init_def ev_timer_init_def ev_io_start_def ev_io_stop_def
  ev_timer_again_def ev_timer_stop_def ev_now_def ev_new_loop_def ev_run_def ev_break_def
  pthread_mutex_lock_def pthread_mutex_unlock_def c_sysconf_def pthread_create_def

end
