(* ===== verification/Header.thy ===== *)
theory Header
  imports World
begin

text \<open>
  \<^verbatim>\<open>c-bachan/header.h\<close>: the helpers every program of the directory uses.
\<close>

section \<open>The helpers\<close>

text \<open>
  \<open>aux_memberof(t, n, p)\<close> goes from a pointer to the member \<open>n\<close> back to the structure.
  Applied to a pointer to any other member the result points nowhere useful.
\<close>

definition aux_memberof :: "member \<Rightarrow> watcher \<Rightarrow> obj option" where
  "aux_memberof n p = (if w_member p = n then Some (w_obj p) else None)"

definition heap_ptr :: "obj \<Rightarrow> ptr option" where
  "heap_ptr ob = (case ob of Heap p \<Rightarrow> Some p | _ \<Rightarrow> None)"

lemma aux_memberof_Some [simp]:
  "aux_memberof n p = Some ob \<longleftrightarrow> p = Member ob n"
  by (cases p) (auto simp: aux_memberof_def)

lemma aux_memberof_Member [simp]: "aux_memberof n (Member ob n) = Some ob"
  by simp

lemma heap_ptr_Heap [simp]: "heap_ptr (Heap p) = Some p"
  by (simp add: heap_ptr_def)

lemma heap_ptr_Some [simp]: "heap_ptr ob = Some p \<longleftrightarrow> ob = Heap p"
  by (auto simp: heap_ptr_def split: obj.splits)

definition aux_set_nonblk ::
  "'c env \<Rightarrow> int \<Rightarrow> int \<Rightarrow> ('c, 's, 'z) world_scheme \<Rightarrow> int \<times> ('c, 's, 'z) world_scheme" where
  "aux_set_nonblk E s value w = c_ioctl E s value w"

definition aux_set_sckopt ::
  "'c env \<Rightarrow> int \<Rightarrow> c_const \<Rightarrow> c_const \<Rightarrow> int \<Rightarrow> ('c, 's, 'z) world_scheme
     \<Rightarrow> int \<times> ('c, 's, 'z) world_scheme" where
  "aux_set_sckopt E s level key value w = c_setsockopt E s level key value w"

text \<open>The \<open>ssize_t\<close> that \<open>send\<close> returns is converted to the \<open>int\<close> result.\<close>

definition aux_unix_send ::
  "'c env \<Rightarrow> int \<Rightarrow> byte list \<Rightarrow> ('c, 's, 'z) world_scheme \<Rightarrow> int \<times> ('c, 's, 'z) world_scheme" where
  "aux_unix_send E fd data w = (let (n, w) = c_send E fd data w in (int32 n, w))"

text \<open>
  The loop over interrupted calls. It need not end, so it is a partial function; besides
  the result it gives the bytes that \<open>recv\<close> stored at the caller's address.
\<close>

partial_function (option) aux_unix_recv ::
  "'c env \<Rightarrow> int \<Rightarrow> size_t \<Rightarrow> ('c, 's, 'z) world_scheme
     \<Rightarrow> (int \<times> byte list \<times> ('c, 's, 'z) world_scheme) option" where
  "aux_unix_recv E fd sz w = (case c_recv E fd sz w of (n, data, w) \<Rightarrow>
     let rc = int32 n in
     if 0 \<le> rc then Some (rc, data, w)
     else if errno w \<noteq> EINTR then Some (-1, data, w)
     else aux_unix_recv E fd sz w)"

section \<open>aux_unix_send\<close>

lemma aux_unix_send_cases [consumes 2, case_names error sent]:
  assumes "env_ok E" and "length data < 2 ^ 31"
  obtains (error) e where "e_send E (hist w) fd data = Inl e"
      and "aux_unix_send E fd data w =
        (-1, w\<lparr>hist := Send fd data (Inl e) # hist w, errno := e\<rparr>)"
  | (sent) k where "e_send E (hist w) fd data = Inr k" and "k \<le> length data"
      and "aux_unix_send E fd data w =
        (int k, w\<lparr>hist := Send fd data (Inr k) # hist w\<rparr>)"
proof (cases "e_send E (hist w) fd data")
  case (Inl e)
  then show thesis
    by (intro error) (simp_all add: aux_unix_send_def call_defs c_int)
next
  case (Inr k)
  then have "k \<le> length data"
    by (rule env_okD(2) [OF assms(1)])
  with Inr assms(2) show thesis
    by (intro sent) (simp_all add: aux_unix_send_def call_defs c_int)
qed

section \<open>aux_unix_recv\<close>

text \<open>The history after \<open>k\<close> interrupted calls.\<close>

definition interrupted :: "nat \<Rightarrow> int \<Rightarrow> size_t \<Rightarrow> history \<Rightarrow> history" where
  "interrupted k fd n h = replicate k (Recv fd n (Inl EINTR)) @ h"

lemma interrupted_0 [simp]: "interrupted 0 fd n h = h"
  by (simp add: interrupted_def)

lemma interrupted_Suc: "interrupted k fd n (Recv fd n (Inl EINTR) # h) = interrupted (Suc k) fd n h"
  by (simp add: interrupted_def replicate_app_Cons_same)

lemma interrupted_views [hist_simps, simp]:
  "active (interrupted k fd n h) l wt = active h l wt"
  "registered (interrupted k fd n h) wt = registered h wt"
  "allocated (interrupted k fd n h) p = allocated h p"
  "open_fd (interrupted k fd n h) f = open_fd h f"
  "recvd (interrupted k fd n h) f = recvd h f"
  "sent (interrupted k fd n h) f = sent h f"
  "rearms (interrupted k fd n h) wt = rearms h wt"
  unfolding interrupted_def by (induction k) simp_all

lemma ext_interrupted:
  "ext Os F h h' \<Longrightarrow> fd \<in> F \<Longrightarrow> ext Os F h (interrupted k fd n h')"
  unfolding interrupted_def
  by (induction k) (auto intro!: ext_Cons simp: about_def ev_fd_def init_ok_def)

lemma recv_again:
  "e_recv E (hist w) fd n = Inl EINTR \<Longrightarrow>
     aux_unix_recv E fd n w =
       aux_unix_recv E fd n (w\<lparr>hist := Recv fd n (Inl EINTR) # hist w, errno := EINTR\<rparr>)"
  by (subst aux_unix_recv.simps) (simp add: call_defs c_int)

lemma recv_error:
  "e_recv E (hist w) fd n = Inl e \<Longrightarrow> e \<noteq> EINTR \<Longrightarrow>
     aux_unix_recv E fd n w =
       Some (-1, [], w\<lparr>hist := Recv fd n (Inl e) # hist w, errno := e\<rparr>)"
  by (subst aux_unix_recv.simps) (simp add: call_defs c_int)

lemma recv_data:
  "e_recv E (hist w) fd n = Inr bs \<Longrightarrow> length bs < 2 ^ 31 \<Longrightarrow>
     aux_unix_recv E fd n w =
       Some (int (length bs), bs, w\<lparr>hist := Recv fd n (Inr bs) # hist w\<rparr>)"
  by (subst aux_unix_recv.simps) (simp add: call_defs c_int)

lemma recv_interrupted:
  "\<forall>j<k. e_recv E (interrupted j fd n (hist w)) fd n = Inl EINTR \<Longrightarrow>
     aux_unix_recv E fd n w =
       aux_unix_recv E fd n (w\<lparr>hist := interrupted k fd n (hist w),
         errno := (if k = 0 then errno w else EINTR)\<rparr>)"
proof (induction k)
  case 0
  then show ?case by simp
next
  case (Suc k)
  then show ?case
    by (simp add: recv_again interrupted_def)
qed

lemma recv_not_interrupted:
  "aux_unix_recv E fd n w = Some x \<Longrightarrow> \<exists>k. e_recv E (interrupted k fd n (hist w)) fd n \<noteq> Inl EINTR"
proof (rule aux_unix_recv.raw_induct
    [where P = "\<lambda>E fd n w x. \<exists>k. e_recv E (interrupted k fd n (hist w)) fd n \<noteq> Inl EINTR"])
  fix f E fd n w x
  assume IH: "\<And>E fd n w x. f E fd n w = Some x \<Longrightarrow>
      \<exists>k. e_recv E (interrupted k fd n (hist w)) fd n \<noteq> Inl EINTR"
    and eq: "(case c_recv E fd n w of (m, data, w) \<Rightarrow>
      let rc = int32 m in
      if 0 \<le> rc then Some (rc, data, w)
      else if errno w \<noteq> EINTR then Some (-1, data, w)
      else f E fd n w) = Some x"
  show "\<exists>k. e_recv E (interrupted k fd n (hist w)) fd n \<noteq> Inl EINTR"
  proof (cases "e_recv E (hist w) fd n = Inl EINTR")
    case True
    with eq have "f E fd n (w\<lparr>hist := Recv fd n (Inl EINTR) # hist w, errno := EINTR\<rparr>) = Some x"
      by (simp add: call_defs c_int)
    from IH [OF this] show ?thesis
      by (auto simp: interrupted_Suc)
  next
    case False
    then show ?thesis by (intro exI [of _ 0]) simp
  qed
qed

text \<open>
  The loop's result is that of the first call that is not interrupted; with \<open>n\<close> below
  \<open>2 ^ 31\<close> the conversion of the result to \<open>int\<close> loses nothing.
\<close>

lemma aux_unix_recv_cases [consumes 3, case_names error data]:
  assumes ok: "env_ok E" and n: "unat n < 2 ^ 31" and r: "aux_unix_recv E fd n w = Some (rc, bs, w')"
  obtains (error) k e
    where "e_recv E (interrupted k fd n (hist w)) fd n = Inl e" and "e \<noteq> EINTR"
      and "\<forall>j<k. e_recv E (interrupted j fd n (hist w)) fd n = Inl EINTR"
      and "rc = -1" and "bs = []"
      and "w' = w\<lparr>hist := Recv fd n (Inl e) # interrupted k fd n (hist w), errno := e\<rparr>"
  | (data) k e
    where "e_recv E (interrupted k fd n (hist w)) fd n = Inr bs" and "length bs \<le> unat n"
      and "\<forall>j<k. e_recv E (interrupted j fd n (hist w)) fd n = Inl EINTR"
      and "rc = int (length bs)"
      and "w' = w\<lparr>hist := Recv fd n (Inr bs) # interrupted k fd n (hist w), errno := e\<rparr>"
proof -
  let ?r = "\<lambda>k. e_recv E (interrupted k fd n (hist w)) fd n"
  define k where "k = (LEAST k. ?r k \<noteq> Inl EINTR)"
  from recv_not_interrupted [OF r] obtain i where "?r i \<noteq> Inl EINTR" ..
  then have k: "?r k \<noteq> Inl EINTR"
    unfolding k_def by (rule LeastI)
  have less: "\<forall>j<k. ?r j = Inl EINTR"
    unfolding k_def by (auto dest: not_less_Least)
  from less have go: "aux_unix_recv E fd n w =
      aux_unix_recv E fd n (w\<lparr>hist := interrupted k fd n (hist w),
        errno := (if k = 0 then errno w else EINTR)\<rparr>)"
    by (rule recv_interrupted)
  show thesis
  proof (cases "?r k")
    case (Inl e)
    with k have "e \<noteq> EINTR" by auto
    with Inl less go r show thesis
      by (intro error [of k e]) (simp_all add: recv_error)
  next
    case (Inr ds)
    then have le: "length ds \<le> unat n"
      by (rule env_okD(1) [OF ok])
    with n have "length ds < 2 ^ 31" by simp
    with Inr go r have "rc = int (length ds) \<and> bs = ds \<and>
        w' = w\<lparr>hist := Recv fd n (Inr ds) # interrupted k fd n (hist w),
          errno := (if k = 0 then errno w else EINTR)\<rparr>"
      by (simp add: recv_data)
    with Inr le less show thesis
      by (intro data [of k "if k = 0 then errno w else EINTR"]) simp_all
  qed
qed

lemma aux_unix_recv_returns:
  assumes ok: "env_ok E" and ret: "recv_returns E" and n: "unat n < 2 ^ 31"
  shows "\<exists>rc bs w'. aux_unix_recv E fd n w = Some (rc, bs, w')"
proof -
  let ?r = "\<lambda>k. e_recv E (interrupted k fd n (hist w)) fd n"
  define k where "k = (LEAST k. ?r k \<noteq> Inl EINTR)"
  from ret obtain i where "?r i \<noteq> Inl EINTR"
    unfolding recv_returns_def interrupted_def by blast
  then have k: "?r k \<noteq> Inl EINTR"
    unfolding k_def by (rule LeastI)
  have "\<forall>j<k. ?r j = Inl EINTR"
    unfolding k_def by (auto dest: not_less_Least)
  then have go: "aux_unix_recv E fd n w =
      aux_unix_recv E fd n (w\<lparr>hist := interrupted k fd n (hist w),
        errno := (if k = 0 then errno w else EINTR)\<rparr>)"
    by (rule recv_interrupted)
  show ?thesis
  proof (cases "?r k")
    case (Inl e)
    with k have "e \<noteq> EINTR" by auto
    with Inl go show ?thesis by (simp add: recv_error)
  next
    case (Inr ds)
    then have "length ds \<le> unat n"
      by (rule env_okD(1) [OF ok])
    with n have "length ds < 2 ^ 31" by simp
    with Inr go show ?thesis by (simp add: recv_data)
  qed
qed

end
