(* ===== verification/Reactor.thy ===== *)
theory Reactor
  imports Header
begin

text \<open>
  A program driven by the libev event loop, as far as the five programs agree: libev calls
  the registered callback of an active watcher; a callback works on one connection. The
  locale \<open>reactor\<close> is the contract between a program's callbacks and its global
  invariant: if every callback changes at most one connection and keeps that
  connection's own invariant, then in every state the program reaches all connections
  satisfy theirs, no two share a descriptor, and libev holds no watcher of freed memory.
\<close>

section \<open>Running callbacks\<close>

text \<open>
  libev invokes the callback of a watcher only while the watcher is active, with the loop
  it is active in; the variable \<open>loop\<close> of the running thread is that loop. Which watcher
  comes next and which events \<open>tev\<close> it is told are open.
\<close>

inductive ev_step ::
  "(callback \<Rightarrow> loop \<Rightarrow> watcher \<Rightarrow> revent set \<Rightarrow> ('c, 's, 'z) world_scheme
      \<Rightarrow> ('c, 's, 'z) world_scheme option)
    \<Rightarrow> ('c, 's, 'z) world_scheme \<Rightarrow> ('c, 's, 'z) world_scheme \<Rightarrow> bool" for invoke where
  dispatch: "active (hist w) l wt \<Longrightarrow> registered (hist w) wt = Some cb \<Longrightarrow>
     invoke cb l wt tev (w\<lparr>loop := l\<rparr>) = Some w' \<Longrightarrow> ev_step invoke w w'"

text \<open>
  Programs with threads also start threads while callbacks run already; \<open>spawn\<close> is the
  relation that does so. It is empty for programs without threads.
\<close>

definition no_spawn :: "('c, 's, 'z) world_scheme \<Rightarrow> ('c, 's, 'z) world_scheme \<Rightarrow> bool" where
  "no_spawn w w' = False"

inductive ev_reach ::
  "(callback \<Rightarrow> loop \<Rightarrow> watcher \<Rightarrow> revent set \<Rightarrow> ('c, 's, 'z) world_scheme
      \<Rightarrow> ('c, 's, 'z) world_scheme option)
    \<Rightarrow> (('c, 's, 'z) world_scheme \<Rightarrow> ('c, 's, 'z) world_scheme \<Rightarrow> bool)
    \<Rightarrow> (('c, 's, 'z) world_scheme \<Rightarrow> bool) \<Rightarrow> ('c, 's, 'z) world_scheme \<Rightarrow> bool"
  for invoke spawn start where
  reach_start: "start w \<Longrightarrow> ev_reach invoke spawn start w"
| reach_step: "ev_reach invoke spawn start w \<Longrightarrow> ev_step invoke w w' \<Longrightarrow> ev_reach invoke spawn start w'"
| reach_spawn: "ev_reach invoke spawn start w \<Longrightarrow> spawn w w' \<Longrightarrow> ev_reach invoke spawn start w'"

inductive_cases ev_stepE: "ev_step invoke w w'"

section \<open>The global invariant\<close>

text \<open>Nothing refers to a block that is not allocated.\<close>

definition dead :: "history \<Rightarrow> ptr \<Rightarrow> bool" where
  "dead h p \<longleftrightarrow> \<not> allocated h p \<and> (\<forall>l m. \<not> active h l (Member (Heap p) m))"

text \<open>
  \<open>fd_of c\<close> is the descriptor of a connection structure (none before it is set up),
  \<open>lfd_of s\<close> the listening descriptor of a server structure, \<open>cok h p c\<close> the invariant
  of the connection \<open>c\<close> stored at \<open>p\<close>; \<open>G\<close> are the watchers that are global variables.
\<close>

definition ginv ::
  "('c \<Rightarrow> int option) \<Rightarrow> ('s \<Rightarrow> int) \<Rightarrow> member set \<Rightarrow> (history \<Rightarrow> ptr \<Rightarrow> 'c \<Rightarrow> bool)
     \<Rightarrow> ('c, 's, 'z) world_scheme \<Rightarrow> bool" where
  "ginv fd_of lfd_of G cok w \<longleftrightarrow>
     (\<forall>p c. heap w p = Some c \<longrightarrow> cok (hist w) p c \<and> allocated (hist w) p) \<and>
     (\<forall>p c fd. heap w p = Some c \<longrightarrow> fd_of c = Some fd \<longrightarrow> open_fd (hist w) fd) \<and>
     (\<forall>p. heap w p = None \<longrightarrow> dead (hist w) p) \<and>
     (\<forall>p q c d fd. heap w p = Some c \<longrightarrow> heap w q = Some d \<longrightarrow>
        fd_of c = Some fd \<longrightarrow> fd_of d = Some fd \<longrightarrow> p = q) \<and>
     (\<forall>n s. servers w n = Some s \<longrightarrow> open_fd (hist w) (lfd_of s)) \<and>
     (\<forall>n s p c. servers w n = Some s \<longrightarrow> heap w p = Some c \<longrightarrow> fd_of c \<noteq> Some (lfd_of s)) \<and>
     (\<forall>l n m. active (hist w) l (Member (Stack n) m) \<longrightarrow> m = Wev_accept \<and> servers w n \<noteq> None) \<and>
     (\<forall>l m. active (hist w) l (Member Global m) \<longrightarrow> m \<in> G) \<and>
     (\<forall>wt cb. registered (hist w) wt = Some cb \<longrightarrow> cb = cb_of (w_member wt))"

lemma ginvD:
  assumes "ginv fd_of lfd_of G cok w"
  shows ginv_cok: "heap w p = Some c \<Longrightarrow> cok (hist w) p c"
    and ginv_allocated: "heap w p = Some c \<Longrightarrow> allocated (hist w) p"
    and ginv_open: "heap w p = Some c \<Longrightarrow> fd_of c = Some fd \<Longrightarrow> open_fd (hist w) fd"
    and ginv_dead: "heap w p = None \<Longrightarrow> dead (hist w) p"
    and ginv_unique: "heap w p = Some c \<Longrightarrow> heap w q = Some d \<Longrightarrow>
        fd_of c = Some fd \<Longrightarrow> fd_of d = Some fd \<Longrightarrow> p = q"
    and ginv_listen: "servers w n = Some s \<Longrightarrow> open_fd (hist w) (lfd_of s)"
    and ginv_listen_other: "servers w n = Some s \<Longrightarrow> heap w p = Some c \<Longrightarrow>
        fd_of c \<noteq> Some (lfd_of s)"
    and ginv_stack: "active (hist w) l (Member (Stack n) m) \<Longrightarrow> m = Wev_accept \<and> servers w n \<noteq> None"
    and ginv_global: "active (hist w) l (Member Global m) \<Longrightarrow> m \<in> G"
    and ginv_registered: "registered (hist w) wt = Some cb \<Longrightarrow> cb = cb_of (w_member wt)"
  using assms unfolding ginv_def by - metis+

lemma ginv_loop [simp]: "ginv fd_of lfd_of G cok (w\<lparr>loop := l\<rparr>) = ginv fd_of lfd_of G cok w"
  by (simp add: ginv_def)

section \<open>One callback\<close>

text \<open>The bytes received and sent on a descriptor only grow between two histories.\<close>

definition continues :: "int \<Rightarrow> history \<Rightarrow> history \<Rightarrow> bool" where
  "continues fd h h' \<longleftrightarrow>
     (\<exists>inp. recvd h' fd = recvd h fd @ inp) \<and> (\<exists>out. sent h' fd = sent h fd @ out)"

text \<open>
  What a callback may do: record calls about at most one block \<open>P\<close> and about descriptors
  \<open>F\<close> that no other connection and no listener uses, and change the heap at \<open>P\<close> only.
  Afterwards the block is free and unreferenced or a connection with its invariant; a
  connection that goes away has its descriptor closed, one that stays keeps it.
\<close>

definition local_step_at ::
  "ptr set \<Rightarrow> int set \<Rightarrow> ('c \<Rightarrow> int option) \<Rightarrow> ('s \<Rightarrow> int) \<Rightarrow> (history \<Rightarrow> ptr \<Rightarrow> 'c \<Rightarrow> bool)
     \<Rightarrow> ('c, 's, 'z) world_scheme \<Rightarrow> ('c, 's, 'z) world_scheme \<Rightarrow> bool" where
  "local_step_at P F fd_of lfd_of cok w w' \<longleftrightarrow>
     ext (insert Global (Heap ` P)) F (hist w) (hist w') \<and>
     servers w' = servers w \<and>
     (\<forall>l m. active (hist w') l (Member Global m) \<longrightarrow> active (hist w) l (Member Global m)) \<and>
     (\<forall>p \<in> P. \<forall>q \<in> P. p = q) \<and>
     (\<forall>q. q \<notin> P \<longrightarrow> heap w' q = heap w q) \<and>
     (\<forall>q c fd. heap w q = Some c \<longrightarrow> q \<notin> P \<longrightarrow> fd_of c = Some fd \<longrightarrow> fd \<notin> F) \<and>
     (\<forall>n s. servers w n = Some s \<longrightarrow> lfd_of s \<notin> F) \<and>
     (\<forall>fd \<in> F. open_fd (hist w) fd \<longrightarrow> (\<exists>p c. heap w p = Some c \<and> fd_of c = Some fd)) \<and>
     (\<forall>p \<in> P. heap w' p = None \<longrightarrow> dead (hist w') p) \<and>
     (\<forall>p \<in> P. \<forall>c. heap w' p = Some c \<longrightarrow> cok (hist w') p c \<and> allocated (hist w') p) \<and>
     (\<forall>p \<in> P. \<forall>c fd. heap w' p = Some c \<longrightarrow> fd_of c = Some fd \<longrightarrow>
        fd \<in> F \<and> open_fd (hist w') fd) \<and>
     (\<forall>p \<in> P. \<forall>c fd. heap w p = Some c \<longrightarrow> fd_of c = Some fd \<longrightarrow> heap w' p = None \<longrightarrow>
        \<not> open_fd (hist w') fd) \<and>
     (\<forall>p \<in> P. \<forall>c c' fd. heap w p = Some c \<longrightarrow> fd_of c = Some fd \<longrightarrow> heap w' p = Some c' \<longrightarrow>
        fd_of c' = Some fd \<and> continues fd (hist w) (hist w')) \<and>
     (\<forall>p \<in> P. \<forall>c fd. heap w p = None \<longrightarrow> heap w' p = Some c \<longrightarrow> fd_of c = Some fd \<longrightarrow>
        recvd (hist w') fd = [] \<and> sent (hist w') fd = [])"

definition local_step ::
  "('c \<Rightarrow> int option) \<Rightarrow> ('s \<Rightarrow> int) \<Rightarrow> (history \<Rightarrow> ptr \<Rightarrow> 'c \<Rightarrow> bool)
     \<Rightarrow> ('c, 's, 'z) world_scheme \<Rightarrow> ('c, 's, 'z) world_scheme \<Rightarrow> bool" where
  "local_step fd_of lfd_of cok w w' \<longleftrightarrow> (\<exists>P F. local_step_at P F fd_of lfd_of cok w w')"

lemma local_step_atD:
  assumes "local_step_at P F fd_of lfd_of cok w w'"
  shows at_ext: "ext (insert Global (Heap ` P)) F (hist w) (hist w')"
    and at_servers: "servers w' = servers w"
    and at_global: "active (hist w') l (Member Global m) \<Longrightarrow> active (hist w) l (Member Global m)"
    and at_one: "p \<in> P \<Longrightarrow> q \<in> P \<Longrightarrow> p = q"
    and at_heap: "q \<notin> P \<Longrightarrow> heap w' q = heap w q"
    and at_other: "heap w q = Some c \<Longrightarrow> q \<notin> P \<Longrightarrow> fd_of c = Some fd \<Longrightarrow> fd \<notin> F"
    and at_listen: "servers w n = Some s \<Longrightarrow> lfd_of s \<notin> F"
    and at_owned: "fd \<in> F \<Longrightarrow> open_fd (hist w) fd \<Longrightarrow> \<exists>p c. heap w p = Some c \<and> fd_of c = Some fd"
    and at_none: "p \<in> P \<Longrightarrow> heap w' p = None \<Longrightarrow> dead (hist w') p"
    and at_some: "p \<in> P \<Longrightarrow> heap w' p = Some c \<Longrightarrow> cok (hist w') p c \<and> allocated (hist w') p"
    and at_open: "p \<in> P \<Longrightarrow> heap w' p = Some c \<Longrightarrow> fd_of c = Some fd \<Longrightarrow> fd \<in> F \<and> open_fd (hist w') fd"
    and at_gone: "p \<in> P \<Longrightarrow> heap w p = Some c \<Longrightarrow> fd_of c = Some fd \<Longrightarrow> heap w' p = None \<Longrightarrow>
        \<not> open_fd (hist w') fd"
    and at_same: "p \<in> P \<Longrightarrow> heap w p = Some c \<Longrightarrow> fd_of c = Some fd \<Longrightarrow> heap w' p = Some c' \<Longrightarrow>
        fd_of c' = Some fd \<and> continues fd (hist w) (hist w')"
    and at_new: "p \<in> P \<Longrightarrow> heap w p = None \<Longrightarrow> heap w' p = Some c \<Longrightarrow> fd_of c = Some fd \<Longrightarrow>
        recvd (hist w') fd = [] \<and> sent (hist w') fd = []"
  using assms unfolding local_step_at_def by - (elim conjE, metis)+

text \<open>A callback that keeps the connection at \<open>p\<close>, deletes it, or touches none.\<close>

lemma local_step_keep:
  assumes "ginv fd_of lfd_of G cok w" and "heap w p = Some c" and "fd_of c = Some fd"
    and "ext {Heap p} {fd} (hist w) (hist w')"
    and "heap w' = (heap w)(p := Some c')" and "servers w' = servers w"
    and "fd_of c' = Some fd" and "cok (hist w') p c'"
    and "open_fd (hist w') fd" and "allocated (hist w') p" and "continues fd (hist w) (hist w')"
  shows "local_step fd_of lfd_of cok w w'"
  unfolding local_step_def local_step_at_def
  using assms ginv_unique [OF assms(1)] ginv_listen_other [OF assms(1)]
    ext_mono [OF assms(4), of "{Global, Heap p}" "{fd}"] active_ext [OF assms(4)]
  by (intro exI [of _ "{p}"] exI [of _ "{fd}"]) auto

lemma local_step_delete:
  assumes "ginv fd_of lfd_of G cok w" and "heap w p = Some c" and "fd_of c = Some fd"
    and "ext {Heap p} {fd} (hist w) (hist w')"
    and "heap w' = (heap w)(p := None)" and "servers w' = servers w"
    and "dead (hist w') p" and "\<not> open_fd (hist w') fd"
  shows "local_step fd_of lfd_of cok w w'"
  unfolding local_step_def local_step_at_def
  using assms ginv_unique [OF assms(1)] ginv_listen_other [OF assms(1)]
    ext_mono [OF assms(4), of "{Global, Heap p}" "{fd}"] active_ext [OF assms(4)]
  by (intro exI [of _ "{p}"] exI [of _ "{fd}"]) auto

lemma local_step_none:
  assumes "ginv fd_of lfd_of G cok w" and "\<forall>fd \<in> F. \<not> open_fd (hist w) fd"
    and "ext {Global} F (hist w) (hist w')"
    and "\<forall>l m. active (hist w') l (Member Global m) \<longrightarrow> active (hist w) l (Member Global m)"
    and "heap w' = heap w" and "servers w' = servers w"
  shows "local_step fd_of lfd_of cok w w'"
  unfolding local_step_def local_step_at_def
  using assms ginv_open [OF assms(1)] ginv_listen [OF assms(1)]
  by (intro exI [of _ "{}"] exI [of _ F]) auto

lemma local_step_new:
  assumes "ginv fd_of lfd_of G cok w" and "\<not> open_fd (hist w) fd" and "heap w p = None"
    and "ext {Heap p} {fd} (hist w) (hist w')"
    and "heap w' = (heap w)(p := Some c)" and "servers w' = servers w"
    and "fd_of c = Some fd" and "cok (hist w') p c"
    and "open_fd (hist w') fd" and "allocated (hist w') p"
    and "recvd (hist w') fd = []" and "sent (hist w') fd = []"
  shows "local_step fd_of lfd_of cok w w'"
  unfolding local_step_def local_step_at_def
  using assms ginv_open [OF assms(1)] ginv_listen [OF assms(1)]
    ext_mono [OF assms(4), of "{Global, Heap p}" "{fd}"] active_ext [OF assms(4)]
  by (intro exI [of _ "{p}"] exI [of _ "{fd}"]) auto

text \<open>A new block that has no descriptor (yet).\<close>

lemma local_step_blank:
  assumes "ginv fd_of lfd_of G cok w" and "\<forall>fd \<in> F. \<not> open_fd (hist w) fd" and "heap w p = None"
    and "ext {Heap p} F (hist w) (hist w')"
    and "heap w' = (heap w)(p := Some c)" and "servers w' = servers w"
    and "fd_of c = None" and "cok (hist w') p c" and "allocated (hist w') p"
  shows "local_step fd_of lfd_of cok w w'"
  unfolding local_step_def local_step_at_def
  using assms ginv_open [OF assms(1)] ginv_listen [OF assms(1)]
    ext_mono [OF assms(4), of "{Global, Heap p}" F] active_ext [OF assms(4)]
  by (intro exI [of _ "{p}"] exI [of _ F]) auto

text \<open>
  The state inside a callback for the connection at \<open>p\<close>: \<open>w\<close> differs from the state
  \<open>w0\<close> the callback started in by calls about \<open>p\<close> and its descriptor and by the
  contents \<open>c\<close> of the block.
\<close>

definition on_conn ::
  "ptr \<Rightarrow> int \<Rightarrow> 'c \<Rightarrow> ('c, 's, 'z) world_scheme \<Rightarrow> ('c, 's, 'z) world_scheme \<Rightarrow> bool" where
  "on_conn p fd c w0 w \<longleftrightarrow>
     ext {Heap p} {fd} (hist w0) (hist w) \<and> heap w = (heap w0)(p := Some c) \<and>
     servers w = servers w0 \<and> loop w = loop w0 \<and>
     open_fd (hist w) fd \<and> allocated (hist w) p \<and> continues fd (hist w0) (hist w)"

lemma continues_refl [simp]: "continues fd h h"
  by (simp add: continues_def)

lemma on_conn_start:
  "ginv fd_of lfd_of G cok w \<Longrightarrow> heap w p = Some c \<Longrightarrow> fd_of c = Some fd \<Longrightarrow> on_conn p fd c w w"
  by (auto simp: on_conn_def ext_refl dest: ginv_open ginv_allocated)

lemma on_conn_heap: "on_conn p fd c w0 w \<Longrightarrow> heap w p = Some c"
  by (simp add: on_conn_def)

text \<open>Calls that neither open nor close nor allocate nor free.\<close>

definition quiet :: "event \<Rightarrow> bool" where
  "quiet e = (case e of Socket _ _ _ _ \<Rightarrow> False | Accept _ _ \<Rightarrow> False | Close _ \<Rightarrow> False | Epoll_create _ \<Rightarrow> False
     | Malloc _ \<Rightarrow> False | Calloc _ \<Rightarrow> False | Free _ \<Rightarrow> False | _ \<Rightarrow> True)"

lemma quiet_views:
  "quiet e \<Longrightarrow> open_fd (e # h) fd = open_fd h fd"
  "quiet e \<Longrightarrow> allocated (e # h) p = allocated h p"
  by (auto simp: quiet_def split: event.splits)

lemma quiet_continues: "quiet e \<Longrightarrow> continues fd h h' \<Longrightarrow> continues fd h (e # h')"
  by (auto simp: quiet_def continues_def split: event.splits sum.splits)

lemma on_conn_call:
  assumes "on_conn p fd c w0 w" and "quiet e" and "about {Heap p} {fd} e" and "init_ok e"
  shows "on_conn p fd c w0 (w\<lparr>hist := e # hist w\<rparr>)"
  using assms
  by (simp add: on_conn_def quiet_views [OF assms(2)] quiet_continues [OF assms(2)] ext_Cons
      del: open_fd.simps allocated.simps)

lemma on_conn_errno [simp]: "on_conn p fd c w0 (w\<lparr>errno := e\<rparr>) = on_conn p fd c w0 w"
  by (simp add: on_conn_def)

lemma on_conn_recv:
  assumes "on_conn p fd c w0 w"
  shows "on_conn p fd c w0 (w\<lparr>hist := Recv fd n r # interrupted k fd m (hist w), errno := e\<rparr>)"
proof -
  have "continues fd (hist w0) (Recv fd n r # interrupted k fd m (hist w))"
    using assms by (intro quiet_continues) (simp_all add: on_conn_def continues_def quiet_def)
  with assms show ?thesis
    by (auto simp: on_conn_def about_def ev_fd_def init_ok_def intro!: ext_Cons ext_interrupted)
qed

lemma on_conn_store:
  assumes "on_conn p fd c w0 w"
  shows "on_conn p fd c' w0 (w\<lparr>heap := (heap w)(p := Some c')\<rparr>)"
  using assms by (simp add: on_conn_def)

lemma on_conn_keep:
  assumes "ginv fd_of lfd_of G cok w" and "heap w p = Some c" and "fd_of c = Some fd"
    and "on_conn p fd c' w w'" and "fd_of c' = Some fd" and "cok (hist w') p c'"
  shows "local_step fd_of lfd_of cok w w'"
  using assms by (intro local_step_keep [OF assms(1-3)]) (simp_all add: on_conn_def)

lemma on_conn_delete:
  assumes "ginv fd_of lfd_of G cok w" and "heap w p = Some c" and "fd_of c = Some fd"
    and "on_conn p fd c' w w'" and "ext {Heap p} {fd} (hist w') h" and "dead h p" and "\<not> open_fd h fd"
  shows "local_step fd_of lfd_of cok w (w'\<lparr>hist := h, heap := (heap w')(p := None)\<rparr>)"
proof -
  have "ext {Heap p} {fd} (hist w) h"
    using assms(4,5) by (auto simp: on_conn_def intro: ext_trans)
  with assms show ?thesis
    by (intro local_step_delete [OF assms(1-3)]) (simp_all add: on_conn_def)
qed

section \<open>The contracts\<close>

text \<open>A connection's invariant depends on calls about its own block and descriptor only.\<close>

locale connections =
  fixes fd_of :: "'c \<Rightarrow> int option"
    and lfd_of :: "'s \<Rightarrow> int"
    and cok :: "history \<Rightarrow> ptr \<Rightarrow> 'c \<Rightarrow> bool"
  assumes cok_ext: "cok h p c \<Longrightarrow> ext Os F h h' \<Longrightarrow> Heap p \<notin> Os \<Longrightarrow>
      (\<And>fd. fd_of c = Some fd \<Longrightarrow> fd \<notin> F) \<Longrightarrow> cok h' p c"
    and cok_new_loop: "cok h p c \<Longrightarrow> cok (Ev_new_loop l # h) p c"
begin

lemma ginv_local_step:
  assumes inv: "ginv fd_of lfd_of G cok w" and step: "local_step fd_of lfd_of cok w w'"
  shows "ginv fd_of lfd_of G cok w'"
proof -
  from step obtain P F where ls: "local_step_at P F fd_of lfd_of cok w w'"
    unfolding local_step_def by blast
  note x = at_ext [OF ls] and sv = at_servers [OF ls] and one = at_one [OF ls] and hp = at_heap [OF ls]
    and fF = at_other [OF ls] and opn = at_open [OF ls] and lF = at_listen [OF ls]
    and none = at_none [OF ls] and some = at_some [OF ls]
  have cok': "cok (hist w') p c \<and> allocated (hist w') p" if c: "heap w' p = Some c" for p c
  proof (cases "p \<in> P")
    case True
    then show ?thesis using c by (rule some)
  next
    case False
    with c have w: "heap w p = Some c" by (simp add: hp)
    with False have "cok (hist w') p c"
      by (intro cok_ext [OF ginv_cok [OF inv w] x]) (auto dest: fF [OF w False])
    with False w show ?thesis using ginv_allocated [OF inv w] allocated_ext [OF x, of p] by auto
  qed
  have open': "open_fd (hist w') fd" if c: "heap w' p = Some c" and "fd_of c = Some fd" for p c fd
  proof (cases "p \<in> P")
    case True
    with that opn show ?thesis by blast
  next
    case False
    with c have w: "heap w p = Some c" by (simp add: hp)
    from open_fd_ext [OF x fF [OF w False that(2)]] show ?thesis
      using ginv_open [OF inv w that(2)] by simp
  qed
  have dead': "dead (hist w') p" if c: "heap w' p = None" for p
  proof (cases "p \<in> P")
    case True
    then show ?thesis using c by (rule none)
  next
    case False
    with c have "dead (hist w) p" by (simp add: hp ginv_dead [OF inv])
    moreover from False have "Heap p \<notin> insert Global (Heap ` P)" by auto
    ultimately show ?thesis
      by (simp add: dead_def active_ext [OF x] allocated_ext [OF x])
  qed
  have unique': "p = q" if "heap w' p = Some c" "heap w' q = Some d"
      "fd_of c = Some fd" "fd_of d = Some fd" for p q c d fd
    using that hp fF opn one ginv_unique [OF inv] by metis
  have listen': "open_fd (hist w') (lfd_of s)" if "servers w' n = Some s" for n s
    using that sv open_fd_ext [OF x lF] ginv_listen [OF inv] by auto
  have other': "fd_of c \<noteq> Some (lfd_of s)" if "servers w' n = Some s" "heap w' p = Some c" for n s p c
    using that sv hp lF opn ginv_listen_other [OF inv] by metis
  have stack': "m = Wev_accept \<and> servers w' n \<noteq> None"
    if "active (hist w') l (Member (Stack n) m)" for l n m
    using that sv active_ext [OF x, of "Member (Stack n) m" l] ginv_stack [OF inv, of l n m] by auto
  have glob': "m \<in> G" if "active (hist w') l (Member Global m)" for l m
    using that at_global [OF ls] ginv_global [OF inv, of l m] by blast
  have reg': "cb = cb_of (w_member wt)" if "registered (hist w') wt = Some cb" for wt cb
    using registered_cb_ext [OF x that] ginv_registered [OF inv] by blast
  show ?thesis
    unfolding ginv_def
    using cok' open' dead' unique' listen' other' stack' glob' reg' by blast
qed

end

locale reactor = connections fd_of lfd_of cok
  for fd_of :: "'c \<Rightarrow> int option"
    and lfd_of :: "'s \<Rightarrow> int"
    and cok :: "history \<Rightarrow> ptr \<Rightarrow> 'c \<Rightarrow> bool" +
  fixes G :: "member set"
    and invoke :: "'c env \<Rightarrow> callback \<Rightarrow> loop \<Rightarrow> watcher \<Rightarrow> revent set
      \<Rightarrow> ('c, 's, 'z) world_scheme \<Rightarrow> ('c, 's, 'z) world_scheme option"
    and spawn :: "'c env \<Rightarrow> ('c, 's, 'z) world_scheme \<Rightarrow> ('c, 's, 'z) world_scheme \<Rightarrow> bool"
    and start :: "'c env \<Rightarrow> ('c, 's, 'z) world_scheme \<Rightarrow> bool"
    and extra :: "('c, 's, 'z) world_scheme \<Rightarrow> bool"
  assumes start_ginv: "env_ok E \<Longrightarrow> start E w \<Longrightarrow> ginv fd_of lfd_of G cok w"
    and invoke_local: "env_ok E \<Longrightarrow> ginv fd_of lfd_of G cok w \<Longrightarrow> active (hist w) l wt \<Longrightarrow>
      registered (hist w) wt = Some cb \<Longrightarrow> loop w = l \<Longrightarrow> invoke E cb l wt tev w = Some w' \<Longrightarrow>
      local_step fd_of lfd_of cok w w'"
    and start_extra: "env_ok E \<Longrightarrow> start E w \<Longrightarrow> extra w"
    and local_extra: "ginv fd_of lfd_of G cok w \<Longrightarrow> extra w \<Longrightarrow>
      local_step fd_of lfd_of cok (w\<lparr>loop := l\<rparr>) w' \<Longrightarrow> extra w'"
    and spawn_inv: "env_ok E \<Longrightarrow> ginv fd_of lfd_of G cok w \<Longrightarrow> extra w \<Longrightarrow> spawn E w w' \<Longrightarrow>
      ginv fd_of lfd_of G cok w' \<and> extra w'"
    and spawn_keeps: "spawn E w w' \<Longrightarrow> heap w' = heap w \<and> open_fd (hist w') = open_fd (hist w) \<and>
      (\<forall>n s. servers w n = Some s \<longrightarrow> servers w' n = Some s)"
begin

lemma step_local:
  assumes "env_ok E" and "ginv fd_of lfd_of G cok w" and "ev_step (invoke E) w w'"
  obtains l where "local_step fd_of lfd_of cok (w\<lparr>loop := l\<rparr>) w'"
proof -
  from assms(3) obtain l wt cb tev where "active (hist w) l wt" "registered (hist w) wt = Some cb"
    "invoke E cb l wt tev (w\<lparr>loop := l\<rparr>) = Some w'"
    by (auto elim: ev_stepE)
  with assms(1,2) have "local_step fd_of lfd_of cok (w\<lparr>loop := l\<rparr>) w'"
    by (intro invoke_local [of E _ l wt cb tev]) simp_all
  then show thesis by (rule that)
qed

lemma reach_inv:
  assumes "ev_reach (invoke E) (spawn E) (start E) w" and ok: "env_ok E"
  shows "ginv fd_of lfd_of G cok w \<and> extra w"
  using assms(1)
proof (induction rule: ev_reach.induct)
  case (reach_start w)
  with ok show ?case by (simp add: start_ginv start_extra)
next
  case (reach_step w w')
  then obtain l where step: "local_step fd_of lfd_of cok (w\<lparr>loop := l\<rparr>) w'"
    using step_local [OF ok _ reach_step.hyps(2)] by blast
  from reach_step.IH have "ginv fd_of lfd_of G cok (w\<lparr>loop := l\<rparr>)" by simp
  from ginv_local_step [OF this step] local_extra [OF _ _ step] reach_step.IH show ?case by blast
next
  case (reach_spawn w w')
  with spawn_inv [OF ok] show ?case by blast
qed

lemma reach_ginv:
  "ev_reach (invoke E) (spawn E) (start E) w \<Longrightarrow> env_ok E \<Longrightarrow> ginv fd_of lfd_of G cok w"
  by (simp add: reach_inv)

lemma reach_cok:
  "ev_reach (invoke E) (spawn E) (start E) w \<Longrightarrow> env_ok E \<Longrightarrow> heap w p = Some c \<Longrightarrow> cok (hist w) p c"
  by (blast dest: reach_ginv ginv_cok)

text \<open>
  A callback leaves the listeners alone. Where no threads are started they are those the
  program started with, and stay active.
\<close>

lemma step_listeners:
  assumes "env_ok E" and "ginv fd_of lfd_of G cok w" and "ev_step (invoke E) w w'"
  shows "servers w' = servers w \<and>
    (\<forall>l n m. active (hist w') l (Member (Stack n) m) = active (hist w) l (Member (Stack n) m)) \<and>
    (\<forall>n m. registered (hist w') (Member (Stack n) m) = registered (hist w) (Member (Stack n) m))"
proof -
  from step_local [OF assms] obtain l where "local_step fd_of lfd_of cok (w\<lparr>loop := l\<rparr>) w'" .
  then obtain P F where "ext (insert Global (Heap ` P)) F (hist w) (hist w')" "servers w' = servers w"
    by (auto simp: local_step_def local_step_at_def)
  then show ?thesis by (auto intro!: active_ext registered_ext)
qed

lemma reach_listeners:
  assumes "ev_reach (invoke E) (spawn E) (start E) w" and ok: "env_ok E" and none: "\<And>w w'. \<not> spawn E w w'"
  shows "\<exists>w0. start E w0 \<and> servers w = servers w0 \<and>
    (\<forall>l n m. active (hist w) l (Member (Stack n) m) = active (hist w0) l (Member (Stack n) m)) \<and>
    (\<forall>n m. registered (hist w) (Member (Stack n) m) = registered (hist w0) (Member (Stack n) m))"
  using assms(1)
proof (induction rule: ev_reach.induct)
  case (reach_start w)
  then show ?case by blast
next
  case (reach_step w w')
  from reach_step.hyps(1) ok have "ginv fd_of lfd_of G cok w" by (rule reach_ginv)
  from step_listeners [OF ok this reach_step.hyps(2)] reach_step.IH show ?case by auto
next
  case (reach_spawn w w')
  with none show ?case by blast
qed

text \<open>No watcher of a freed block is active: libev never calls back into freed memory.\<close>

lemma reach_no_dangling:
  "ev_reach (invoke E) (spawn E) (start E) w \<Longrightarrow> env_ok E \<Longrightarrow> active (hist w) l (Member (Heap p) m) \<Longrightarrow>
     heap w p \<noteq> None"
  using ginv_dead [OF reach_ginv] by (fastforce simp: dead_def)

lemma reach_distinct_fds:
  "ev_reach (invoke E) (spawn E) (start E) w \<Longrightarrow> env_ok E \<Longrightarrow> heap w p = Some c \<Longrightarrow> heap w q = Some d \<Longrightarrow>
     fd_of c = Some fd \<Longrightarrow> fd_of d = Some fd \<Longrightarrow> p = q"
  by (rule ginv_unique [OF reach_ginv])

text \<open>
  A descriptor that is open and belongs to no connection and no listener is lost: no
  later callback closes it or gives it to a connection.
\<close>

lemma step_lost:
  assumes "env_ok E" and "ginv fd_of lfd_of G cok w" and "ev_step (invoke E) w w'"
    and opn: "open_fd (hist w) fd" and lost: "\<forall>p c. heap w p = Some c \<longrightarrow> fd_of c \<noteq> Some fd"
  shows "open_fd (hist w') fd \<and> (\<forall>p c. heap w' p = Some c \<longrightarrow> fd_of c \<noteq> Some fd)"
proof -
  from step_local [OF assms(1-3)] obtain l where "local_step fd_of lfd_of cok (w\<lparr>loop := l\<rparr>) w'" .
  then obtain P F where at: "local_step_at P F fd_of lfd_of cok (w\<lparr>loop := l\<rparr>) w'"
    unfolding local_step_def by blast
  from opn lost at_owned [OF at, of fd] have "fd \<notin> F" by auto
  moreover have "ext (insert Global (Heap ` P)) F (hist w) (hist w')"
    using at_ext [OF at] by simp
  ultimately have "open_fd (hist w') fd" using opn by (simp add: open_fd_ext)
  moreover have "fd_of c \<noteq> Some fd" if "heap w' p = Some c" for p c
  proof (cases "p \<in> P")
    case True
    with at_open [OF at True that] \<open>fd \<notin> F\<close> show ?thesis by blast
  next
    case False
    with at_heap [OF at False] that have "heap w p = Some c" by simp
    with lost show ?thesis by blast
  qed
  ultimately show ?thesis by blast
qed

lemma reach_lost:
  assumes "(\<lambda>w w'. ev_step (invoke E) w w' \<or> spawn E w w')\<^sup>*\<^sup>* w w'" and "env_ok E"
    and "ev_reach (invoke E) (spawn E) (start E) w"
    and "open_fd (hist w) fd" and "\<forall>p c. heap w p = Some c \<longrightarrow> fd_of c \<noteq> Some fd"
  shows "open_fd (hist w') fd \<and> (\<forall>p c. heap w' p = Some c \<longrightarrow> fd_of c \<noteq> Some fd)"
proof -
  have "ev_reach (invoke E) (spawn E) (start E) w' \<and> open_fd (hist w') fd \<and>
      (\<forall>p c. heap w' p = Some c \<longrightarrow> fd_of c \<noteq> Some fd)"
    using assms(1)
  proof (induction rule: rtranclp_induct)
    case base
    then show ?case using assms(3-5) by blast
  next
    case (step w1 w2)
    then have r1: "ev_reach (invoke E) (spawn E) (start E) w1" by blast
    from step.hyps(2) show ?case
    proof
      assume s: "ev_step (invoke E) w1 w2"
      with r1 have "ev_reach (invoke E) (spawn E) (start E) w2" by (rule ev_reach.reach_step)
      with step_lost [OF assms(2) reach_ginv [OF r1 assms(2)] s] step.IH show ?case by blast
    next
      assume s: "spawn E w1 w2"
      with r1 have "ev_reach (invoke E) (spawn E) (start E) w2" by (rule ev_reach.reach_spawn)
      with spawn_keeps [OF s] step.IH show ?case by simp
    qed
  qed
  then show ?thesis by blast
qed

lemma reach_open:
  "ev_reach (invoke E) (spawn E) (start E) w \<Longrightarrow> env_ok E \<Longrightarrow> heap w p = Some c \<Longrightarrow> fd_of c = Some fd \<Longrightarrow>
     open_fd (hist w) fd"
  by (rule ginv_open [OF reach_ginv])

end

text \<open>A reactor whose callbacks have no undefined behaviour.\<close>

locale safe_reactor = reactor +
  assumes invoke_defined: "env_ok E \<Longrightarrow> recv_returns E \<Longrightarrow> ginv fd_of lfd_of G cok w \<Longrightarrow>
      active (hist w) l wt \<Longrightarrow> registered (hist w) wt = Some cb \<Longrightarrow> loop w = l \<Longrightarrow>
      invoke E cb l wt tev w \<noteq> None"
begin

lemma reach_defined:
  assumes "env_ok E" and "recv_returns E" and "ev_reach (invoke E) (spawn E) (start E) w"
    and "active (hist w) l wt" and "registered (hist w) wt = Some cb"
  shows "\<exists>w'. invoke E cb l wt tev (w\<lparr>loop := l\<rparr>) = Some w'"
  using invoke_defined [OF assms(1,2), of "w\<lparr>loop := l\<rparr>" l wt cb tev] assms reach_ginv by auto

end

end
