(* ===== verification/EchoConn.thy ===== *)
theory EchoConn
  imports Reactor
begin

text \<open>
  What the four echo servers share: the constants, the server structure, and which
  watchers of a connection are active. A connection lives in one loop, the one of the
  thread that accepted it; its receive watcher and its timer are active there for as long
  as it exists, its send watcher at most there.
\<close>

section \<open>Constants and the server structure\<close>

definition LISTEN_BACKLOG :: int where
  "LISTEN_BACKLOG = 4096"

definition SOCKET_TIMEOUT :: double where
  "SOCKET_TIMEOUT = round_ratio False 60 1"

lemma SOCKET_TIMEOUT_pos [simp]: "0 < SOCKET_TIMEOUT"
  by (simp add: SOCKET_TIMEOUT_def double_ops round_ratio_def ilog2_def bit_len.simps
      scale_num_def scale_den_def rne_def Let_def d_zero_def d_scaled_def)

record echo_server =
  s_addr :: sockaddr_in
  s_wev_accept :: ev_io

definition lfd_s :: "echo_server \<Rightarrow> int" where
  "lfd_s s = io_fd (s_wev_accept s)"

text \<open>The object a pointer into the stack of a thread belongs to.\<close>

definition stack_ptr :: "obj \<Rightarrow> nat option" where
  "stack_ptr ob = (case ob of Stack n \<Rightarrow> Some n | _ \<Rightarrow> None)"

lemma stack_ptr_Some [simp]: "stack_ptr ob = Some n \<longleftrightarrow> ob = Stack n"
  by (auto simp: stack_ptr_def split: obj.splits)

lemma stack_ptr_Stack [simp]: "stack_ptr (Stack n) = Some n"
  by simp

text \<open>The contents of a local \<open>struct sockaddr_in\<close> before \<open>accept\<close> fills it in.\<close>

definition zero_addr :: sockaddr_in where
  "zero_addr = \<lparr>sin_family = AF_INET, sin_addr = [0, 0, 0, 0], sin_port = [0, 0]\<rparr>"

section \<open>The watchers of a connection\<close>

definition watching :: "history \<Rightarrow> ptr \<Rightarrow> loop \<Rightarrow> bool" where
  "watching h p l \<longleftrightarrow>
     (\<forall>l'. active h l' (Member (Heap p) Wev_recv) \<longleftrightarrow> l' = l) \<and>
     (\<forall>l'. active h l' (Member (Heap p) Wev_timeout) \<longleftrightarrow> l' = l) \<and>
     (\<forall>l'. active h l' (Member (Heap p) Wev_send) \<longrightarrow> l' = l) \<and>
     (\<forall>l' m. active h l' (Member (Heap p) m) \<longrightarrow> m \<in> {Wev_recv, Wev_timeout, Wev_send}) \<and>
     registered h (Member (Heap p) Wev_recv) = Some Wcb_recv \<and>
     registered h (Member (Heap p) Wev_timeout) = Some Wcb_timeout"

lemma watchingD:
  "watching h p l \<Longrightarrow> active h l' (Member (Heap p) m) \<Longrightarrow> l' = l"
  "watching h p l \<Longrightarrow> active h l (Member (Heap p) Wev_recv)"
  "watching h p l \<Longrightarrow> active h l (Member (Heap p) Wev_timeout)"
  unfolding watching_def by blast+

lemma watching_no_obj [simp]:
  "ev_obj e = None \<Longrightarrow> watching (e # h) p l = watching h p l"
  by (cases e) (auto simp: watching_def)

lemma watching_interrupted [simp]:
  "watching (interrupted k fd n h) p l = watching h p l"
  by (simp add: watching_def)

lemma watching_start_send [simp]:
  "watching h p l \<Longrightarrow> watching (Ev_io_start l (Member (Heap p) Wev_send) # h) p l"
  by (auto simp: watching_def)

lemma watching_stop_send [simp]:
  "watching h p l \<Longrightarrow> watching (Ev_io_stop l (Member (Heap p) Wev_send) # h) p l"
  by (auto simp: watching_def)

lemma watching_timer_again [simp]:
  "watching h p l \<Longrightarrow> 0 < r \<Longrightarrow>
     watching (Ev_timer_again l (Member (Heap p) Wev_timeout) r # h) p l"
  by (auto simp: watching_def)

lemma watching_ext:
  assumes "watching h p l" and "ext Os F h h'" and "Heap p \<notin> Os"
  shows "watching h' p l"
proof -
  have "active h' l' (Member (Heap p) m) = active h l' (Member (Heap p) m)"
    and "registered h' (Member (Heap p) m) = registered h (Member (Heap p) m)" for l' m
    using assms(2,3) by (auto intro!: active_ext registered_ext)
  with assms(1) show ?thesis by (simp add: watching_def)
qed

text \<open>Starting a new connection, and taking one down.\<close>

lemma watching_new:
  assumes "\<forall>l m. \<not> active h l (Member (Heap p) m)"
  shows "watching (Ev_io_start l (Member (Heap p) Wev_recv) #
      Ev_timer_again l (Member (Heap p) Wev_timeout) SOCKET_TIMEOUT #
      Ev_timer_init (Member (Heap p) Wev_timeout) Wcb_timeout 0 SOCKET_TIMEOUT #
      Ev_io_init (Member (Heap p) Wev_recv) Wcb_recv fd ev # h) p l"
  using assms by (auto simp: watching_def)

lemma watching_new_send:
  assumes "\<forall>l m. \<not> active h l (Member (Heap p) m)"
  shows "watching (Ev_io_start l (Member (Heap p) Wev_recv) #
      Ev_timer_again l (Member (Heap p) Wev_timeout) SOCKET_TIMEOUT #
      Ev_timer_init (Member (Heap p) Wev_timeout) Wcb_timeout 0 SOCKET_TIMEOUT #
      Ev_io_init (Member (Heap p) Wev_send) Wcb_send fd ev #
      Ev_io_init (Member (Heap p) Wev_recv) Wcb_recv fd ev' # h) p l"
  using assms by (auto simp: watching_def)

lemma watching_only:
  "watching h p l \<Longrightarrow> active h l' (Member (Heap p) m) \<Longrightarrow>
     l' = l \<and> (m = Wev_recv \<or> m = Wev_timeout \<or> m = Wev_send)"
  unfolding watching_def by blast

lemma dead_deleted:
  assumes "watching h p l"
  shows "dead (Free p # Close fd # Ev_timer_stop l (Member (Heap p) Wev_timeout) #
      Ev_io_stop l (Member (Heap p) Wev_send) # Ev_io_stop l (Member (Heap p) Wev_recv) # h) p"
  using watching_only [OF assms] by (auto simp: dead_def)

text \<open>Without a send watcher in the structure.\<close>

lemma dead_deleted_plain:
  assumes "watching h p l" and "\<not> active h l (Member (Heap p) Wev_send)"
  shows "dead (Free p # Close fd # Ev_timer_stop l (Member (Heap p) Wev_timeout) #
      Ev_io_stop l (Member (Heap p) Wev_recv) # h) p"
  using watching_only [OF assms(1)] assms(2) by (auto simp: dead_def)

end
