(* ===== verification/EchoSpec.thy ===== *)
theory EchoSpec
  imports EchoConn
begin

text \<open>
  What an echo server promises, without memory, watchers or buffers: a queue of bytes for
  each open connection. The locale \<open>echo_reactor\<close> shows once that a reactor whose
  connections keep their byte streams refines this, one abstract step for each callback.
\<close>

section \<open>The abstract server\<close>

type_synonym echo_spec = "int \<Rightarrow> byte list option"

datatype echo_label = Idle | Opened int | Closed int "byte list" "byte list" | Echoed int "byte list" "byte list"

text \<open>
  A step receives \<open>inp\<close> and sends \<open>out\<close> on one connection. What is sent is always a
  prefix of what is queued and received; a connection that is closed loses the rest.
\<close>

inductive echo_step :: "echo_label \<Rightarrow> echo_spec \<Rightarrow> echo_spec \<Rightarrow> bool" where
  idle: "echo_step Idle m m"
| opened: "m fd = None \<Longrightarrow> echo_step (Opened fd) m (m(fd \<mapsto> []))"
| closed: "m fd = Some q \<Longrightarrow> q @ inp = out @ lost \<Longrightarrow> echo_step (Closed fd inp out) m (m(fd := None))"
| echoed: "m fd = Some q \<Longrightarrow> q @ inp = out @ q' \<Longrightarrow> echo_step (Echoed fd inp out) m (m(fd \<mapsto> q'))"

inductive_cases closedE: "echo_step (Closed fd inp out) m m'"
inductive_cases echoedE: "echo_step (Echoed fd inp out) m m'"

fun label_fd :: "echo_label \<Rightarrow> int option" where
  "label_fd Idle = None"
| "label_fd (Opened fd) = Some fd"
| "label_fd (Closed fd inp out) = Some fd"
| "label_fd (Echoed fd inp out) = Some fd"

text \<open>
  What a step looks like in the history of calls: the label tells all that was received
  and sent. On every connection of \<open>m\<close> that the label does not name, and on all of them
  for \<open>Idle\<close>, not a byte was received or sent, and the descriptor is as it was.
\<close>

definition untouched :: "int \<Rightarrow> history \<Rightarrow> history \<Rightarrow> bool" where
  "untouched fd h h' \<longleftrightarrow> recvd h' fd = recvd h fd \<and> sent h' fd = sent h fd \<and> open_fd h' fd = open_fd h fd"

definition echo_obs :: "echo_label \<Rightarrow> echo_spec \<Rightarrow> history \<Rightarrow> history \<Rightarrow> bool" where
  "echo_obs lab m h h' \<longleftrightarrow>
     (case lab of
        Idle \<Rightarrow> True
      | Opened fd \<Rightarrow> open_fd h' fd \<and> recvd h' fd = [] \<and> sent h' fd = []
      | Closed fd inp out \<Rightarrow> \<not> open_fd h' fd \<and> recvd h' fd = recvd h fd @ inp \<and> sent h' fd = sent h fd @ out
      | Echoed fd inp out \<Rightarrow> open_fd h' fd \<and> recvd h' fd = recvd h fd @ inp \<and> sent h' fd = sent h fd @ out) \<and>
     (\<forall>fd. m fd \<noteq> None \<longrightarrow> label_fd lab \<noteq> Some fd \<longrightarrow> untouched fd h h')"

text \<open>The connections of a concrete state; \<open>pend\<close> gives the bytes a structure still holds.\<close>

definition echo_sim ::
  "('c \<Rightarrow> int option) \<Rightarrow> ('c \<Rightarrow> byte list) \<Rightarrow> ('c, 's, 'z) world_scheme \<Rightarrow> echo_spec \<Rightarrow> bool" where
  "echo_sim fd_of pend w m \<longleftrightarrow>
     (\<forall>fd q. m fd = Some q \<longleftrightarrow> (\<exists>p c. heap w p = Some c \<and> fd_of c = Some fd \<and> pend c = q))"

lemma echo_simD: "echo_sim fd_of pend w m \<Longrightarrow> heap w p = Some c \<Longrightarrow> fd_of c = Some fd \<Longrightarrow> m fd = Some (pend c)"
  unfolding echo_sim_def by blast

lemma echo_sim_None:
  "echo_sim fd_of pend w m \<Longrightarrow> (\<And>p c. heap w p = Some c \<Longrightarrow> fd_of c \<noteq> Some fd) \<Longrightarrow> m fd = None"
  unfolding echo_sim_def by (cases "m fd") blast+

text \<open>Setting up or changing the connection at \<open>p\<close>, and deleting it.\<close>

lemma echo_sim_update:
  assumes inv: "ginv fd_of lfd_of G cok w'" and sim: "echo_sim fd_of pend w m"
    and new: "heap w' p = Some c'" "fd_of c' = Some fd"
    and old: "\<And>c. heap w p = Some c \<Longrightarrow> fd_of c = Some fd" and rest: "\<And>q. q \<noteq> p \<Longrightarrow> heap w' q = heap w q"
  shows "echo_sim fd_of pend w' (m(fd \<mapsto> pend c'))"
  unfolding echo_sim_def
proof (intro allI)
  fix fd' q
  show "(m(fd \<mapsto> pend c')) fd' = Some q \<longleftrightarrow>
    (\<exists>r c. heap w' r = Some c \<and> fd_of c = Some fd' \<and> pend c = q)"
  proof (cases "fd' = fd")
    case True
    have "r = p" if "heap w' r = Some c" "fd_of c = Some fd" for r c
      using ginv_unique [OF inv that(1) new(1) that(2) new(2)] .
    with True new show ?thesis by auto
  next
    case False
    have "(\<exists>r c. heap w' r = Some c \<and> fd_of c = Some fd' \<and> pend c = q) \<longleftrightarrow>
        (\<exists>r c. heap w r = Some c \<and> fd_of c = Some fd' \<and> pend c = q)"
      using False new old rest by (metis option.inject)
    with False sim show ?thesis by (simp add: echo_sim_def)
  qed
qed

lemma echo_sim_delete:
  assumes inv: "ginv fd_of lfd_of G cok w" and sim: "echo_sim fd_of pend w m"
    and old: "heap w p = Some c" "fd_of c = Some fd" and gone: "heap w' p = None"
    and rest: "\<And>q. q \<noteq> p \<Longrightarrow> heap w' q = heap w q"
  shows "echo_sim fd_of pend w' (m(fd := None))"
  unfolding echo_sim_def
proof (intro allI)
  fix fd' q
  have uniq: "r = p" if "heap w r = Some d" "fd_of d = Some fd" for r d
    using ginv_unique [OF inv that(1) old(1) that(2) old(2)] .
  show "(m(fd := None)) fd' = Some q \<longleftrightarrow>
    (\<exists>r c. heap w' r = Some c \<and> fd_of c = Some fd' \<and> pend c = q)"
  proof (cases "fd' = fd")
    case True
    have "fd_of d \<noteq> Some fd" if "heap w' r = Some d" for r d
      using that uniq gone rest by (metis option.distinct(1))
    with True show ?thesis by auto
  next
    case False
    have "(\<exists>r c. heap w' r = Some c \<and> fd_of c = Some fd' \<and> pend c = q) \<longleftrightarrow>
        (\<exists>r c. heap w r = Some c \<and> fd_of c = Some fd' \<and> pend c = q)"
      using False old gone rest by (metis option.distinct(1) option.inject)
    with False sim show ?thesis by (simp add: echo_sim_def)
  qed
qed

section \<open>The refinement\<close>

text \<open>The C servers close a connection without sending on it in the same callback.\<close>

definition gone_as :: "int \<Rightarrow> history \<Rightarrow> history \<Rightarrow> bool" where
  "gone_as fd h h' \<longleftrightarrow> (\<exists>inp. recvd h' fd = recvd h fd @ inp) \<and> sent h' fd = sent h fd"

locale echo_reactor = reactor fd_of lfd_of cok G invoke spawn start extra
  for fd_of :: "'c \<Rightarrow> int option"
    and lfd_of :: "'s \<Rightarrow> int"
    and cok :: "history \<Rightarrow> ptr \<Rightarrow> 'c \<Rightarrow> bool"
    and G :: "member set"
    and invoke :: "'c env \<Rightarrow> callback \<Rightarrow> loop \<Rightarrow> watcher \<Rightarrow> revent set
      \<Rightarrow> ('c, 's, 'z) world_scheme \<Rightarrow> ('c, 's, 'z) world_scheme option"
    and spawn :: "'c env \<Rightarrow> ('c, 's, 'z) world_scheme \<Rightarrow> ('c, 's, 'z) world_scheme \<Rightarrow> bool"
    and start :: "'c env \<Rightarrow> ('c, 's, 'z) world_scheme \<Rightarrow> bool"
    and extra :: "('c, 's, 'z) world_scheme \<Rightarrow> bool" +
  fixes pend :: "'c \<Rightarrow> byte list"
  assumes cok_fd: "cok h p c \<Longrightarrow> \<exists>fd. fd_of c = Some fd"
    and cok_stream: "cok h p c \<Longrightarrow> fd_of c = Some fd \<Longrightarrow> recvd h fd = sent h fd @ pend c"
    and gone_stream: "env_ok E \<Longrightarrow> ginv fd_of lfd_of G cok w \<Longrightarrow> active (hist w) l wt \<Longrightarrow>
      registered (hist w) wt = Some cb \<Longrightarrow> loop w = l \<Longrightarrow> invoke E cb l wt tev w = Some w' \<Longrightarrow>
      heap w p = Some c \<Longrightarrow> fd_of c = Some fd \<Longrightarrow> heap w' p = None \<Longrightarrow>
      gone_as fd (hist w) (hist w')"
begin

lemma local_refines:
  assumes inv: "ginv fd_of lfd_of G cok w" and inv': "ginv fd_of lfd_of G cok w'"
    and step: "local_step fd_of lfd_of cok w w'" and sim: "echo_sim fd_of pend w m"
    and gone: "\<And>p c fd. heap w p = Some c \<Longrightarrow> fd_of c = Some fd \<Longrightarrow> heap w' p = None \<Longrightarrow>
      gone_as fd (hist w) (hist w')"
  shows "\<exists>lab m'. echo_step lab m m' \<and> echo_sim fd_of pend w' m' \<and> echo_obs lab m (hist w) (hist w')"
proof -
  obtain P F where at: "local_step_at P F fd_of lfd_of cok w w'"
    using step unfolding local_step_def by blast
  note hp = at_heap [OF at]
  have same: "untouched fd (hist w) (hist w')"
    if "m fd \<noteq> None" and "\<And>p c. p \<in> P \<Longrightarrow> heap w p = Some c \<Longrightarrow> fd_of c \<noteq> Some fd" for fd
  proof -
    from that(1) sim obtain q d where d: "heap w q = Some d" "fd_of d = Some fd"
      by (auto simp: echo_sim_def)
    with that(2) have "q \<notin> P" by blast
    then have "fd \<notin> F" by (rule at_other [OF at d(1) _ d(2)])
    then show ?thesis
      using recvd_ext [OF at_ext [OF at]] sent_ext [OF at_ext [OF at]] open_fd_ext [OF at_ext [OF at]]
      by (simp add: untouched_def)
  qed
  have idle: ?thesis if "heap w' = heap w" and none: "\<And>p. p \<in> P \<Longrightarrow> heap w p = None"
  proof -
    have "untouched fd (hist w) (hist w')" if "m fd \<noteq> None" for fd
      using that none by (intro same) auto
    moreover have "echo_sim fd_of pend w' m" using sim \<open>heap w' = heap w\<close> by (simp add: echo_sim_def)
    ultimately show ?thesis
      by (intro exI [of _ Idle] exI [of _ m]) (simp add: echo_step.idle echo_obs_def)
  qed
  show ?thesis
  proof (cases "P = {}")
    case True
    with hp idle show ?thesis by (simp add: fun_eq_iff)
  next
    case False
    then obtain p where p: "p \<in> P" by blast
    then have P: "q = p" if "q \<in> P" for q
      using that at_one [OF at] by blast
    then have rest: "heap w' q = heap w q" if "q \<noteq> p" for q
      using that hp by blast
    show ?thesis
    proof (cases "heap w p"; cases "heap w' p")
      assume "heap w p = None" "heap w' p = None"
      then have "heap w' q = heap w q" for q using rest [of q] by (cases "q = p") simp_all
      then have "heap w' = heap w" ..
      then show ?thesis using \<open>heap w p = None\<close> P by (intro idle) auto
    next
      fix c' assume c: "heap w p = None" and c': "heap w' p = Some c'"
      then obtain fd where fd: "fd_of c' = Some fd"
        using cok_fd [OF ginv_cok [OF inv' c']] by blast
      note new = at_open [OF at p c' fd] at_new [OF at p c c' fd]
      have "fd_of d \<noteq> Some fd" if "heap w q = Some d" for q d
      proof
        assume d: "fd_of d = Some fd"
        from that c have "q \<notin> P" using P by auto
        from at_other [OF at that this d] new(1) show False by simp
      qed
      then have "m fd = None" by (rule echo_sim_None [OF sim])
      moreover have "pend c' = []"
        using cok_stream [OF ginv_cok [OF inv' c'] fd] new(2) by simp
      moreover have "untouched fd' (hist w) (hist w')" if "m fd' \<noteq> None" for fd'
        using that c P by (intro same) auto
      ultimately show ?thesis
        using echo_sim_update [OF inv' sim c' fd _ rest] c new
        by (intro exI [of _ "Opened fd"] exI [of _ "m(fd \<mapsto> [])"]) (auto simp: opened echo_obs_def)
    next
      fix c assume c: "heap w p = Some c" and c': "heap w' p = None"
      then obtain fd where fd: "fd_of c = Some fd"
        using cok_fd [OF ginv_cok [OF inv c]] by blast
      from gone [OF c fd c'] obtain inp where g: "recvd (hist w') fd = recvd (hist w) fd @ inp"
        "sent (hist w') fd = sent (hist w) fd" by (auto simp: gone_as_def)
      have "echo_step (Closed fd inp []) m (m(fd := None))"
        using echo_simD [OF sim c fd] by (auto intro: closed)
      moreover have "untouched fd' (hist w) (hist w')" if "m fd' \<noteq> None" "fd' \<noteq> fd" for fd'
        using that c fd P by (intro same) auto
      ultimately show ?thesis
        using echo_sim_delete [OF inv sim c fd c' rest] at_gone [OF at p c fd c'] g
        by (intro exI [of _ "Closed fd inp []"] exI [of _ "m(fd := None)"]) (auto simp: echo_obs_def)
    next
      fix c c' assume c: "heap w p = Some c" and c': "heap w' p = Some c'"
      then obtain fd where fd: "fd_of c = Some fd"
        using cok_fd [OF ginv_cok [OF inv c]] by blast
      note kept = at_same [OF at p c fd c']
      then obtain inp out where obs: "recvd (hist w') fd = recvd (hist w) fd @ inp"
        "sent (hist w') fd = sent (hist w) fd @ out"
        by (auto simp: continues_def)
      have "pend c @ inp = out @ pend c'"
        using cok_stream [OF ginv_cok [OF inv c] fd] cok_stream [OF ginv_cok [OF inv' c'], of fd] kept obs
        by simp
      then have "echo_step (Echoed fd inp out) m (m(fd \<mapsto> pend c'))"
        using echo_simD [OF sim c fd] by (rule echoed [rotated])
      moreover have "echo_sim fd_of pend w' (m(fd \<mapsto> pend c'))"
        using kept c fd by (intro echo_sim_update [OF inv' sim c' _ _ rest]) auto
      moreover have "open_fd (hist w') fd" using ginv_open [OF inv' c'] kept by simp
      moreover have "untouched fd' (hist w) (hist w')" if "m fd' \<noteq> None" "fd' \<noteq> fd" for fd'
        using that c fd P by (intro same) auto
      ultimately show ?thesis
        using obs by (intro exI [of _ "Echoed fd inp out"] exI [of _ "m(fd \<mapsto> pend c')"]) (auto simp: echo_obs_def)
    qed
  qed
qed

lemma step_refines:
  assumes ok: "env_ok E" and reach: "ev_reach (invoke E) (spawn E) (start E) w" and step: "ev_step (invoke E) w w'"
    and sim: "echo_sim fd_of pend w m"
  shows "\<exists>lab m'. echo_step lab m m' \<and> echo_sim fd_of pend w' m' \<and> echo_obs lab m (hist w) (hist w')"
proof -
  have inv: "ginv fd_of lfd_of G cok w" and inv': "ginv fd_of lfd_of G cok w'"
    using assms(1-3) by (auto intro: reach_ginv ev_reach.reach_step)
  from step obtain l wt cb tev where act: "active (hist w) l wt" and reg: "registered (hist w) wt = Some cb"
    and run: "invoke E cb l wt tev (w\<lparr>loop := l\<rparr>) = Some w'"
    by (auto elim: ev_stepE)
  let ?w = "w\<lparr>loop := l\<rparr>"
  have inv0: "ginv fd_of lfd_of G cok ?w" using inv by simp
  have at: "active (hist ?w) l wt" "registered (hist ?w) wt = Some cb" "loop ?w = l" using act reg by simp_all
  have "local_step fd_of lfd_of cok ?w w'"
    by (rule invoke_local [OF ok inv0 at run])
  moreover have "echo_sim fd_of pend ?w m" using sim by (simp add: echo_sim_def)
  moreover have "gone_as fd (hist ?w) (hist w')"
    if "heap ?w p = Some c" "fd_of c = Some fd" "heap w' p = None" for p c fd
    by (rule gone_stream [OF ok inv0 at run that])
  ultimately show ?thesis
    using local_refines [of ?w w' m] inv0 inv' by simp
qed

end

end
