(* ===== verification/Accepting.thy ===== *)
theory Accepting
  imports EchoSpec
begin

text \<open>
  What the accept callbacks of the four servers do after the call of \<open>accept\<close>: they make
  the new socket non-blocking and call the file's own \<open>echo_client_add\<close>, here \<open>add\<close>. The
  locale \<open>acceptor\<close> is the contract of \<open>echo_client_add\<close>.
\<close>

definition accepted ::
  "('c env \<Rightarrow> int \<Rightarrow> sockaddr_in \<Rightarrow> ('c, 's, 'z) world_scheme \<Rightarrow> (int \<times> ('c, 's, 'z) world_scheme) option)
     \<Rightarrow> 'c env \<Rightarrow> int \<Rightarrow> sockaddr_in \<Rightarrow> ('c, 's, 'z) world_scheme \<Rightarrow> ('c, 's, 'z) world_scheme option" where
  "accepted add E sd addr w =
     (if sd < 0 then Some w
      else do {
        let (rc, w) = aux_set_nonblk E sd 1 w;
        if rc < 0 then Some w
        else do {
          (_, w) \<leftarrow> add E sd addr w;
          Some w
        }
      })"

text \<open>The state after \<open>accept\<close> gave \<open>sd\<close>, or failed, in a callback that started in \<open>w0\<close>.\<close>

definition after_accept :: "int \<Rightarrow> ('c, 's, 'z) world_scheme \<Rightarrow> ('c, 's, 'z) world_scheme \<Rightarrow> bool" where
  "after_accept sd w0 w \<longleftrightarrow> ext {} {sd} (hist w0) (hist w) \<and> heap w = heap w0 \<and> servers w = servers w0 \<and>
     loop w = loop w0 \<and> open_fd (hist w) sd \<and> recvd (hist w) sd = [] \<and> sent (hist w) sd = []"

lemma after_accept_quiet:
  assumes "after_accept sd w0 w" and "quiet e" and "ev_obj e = None" and "ev_fd e = None"
    and "init_ok e"
  shows "after_accept sd w0 (w\<lparr>hist := e # hist w\<rparr>)"
proof -
  have "recvd (e # hist w) sd = recvd (hist w) sd" "sent (e # hist w) sd = sent (hist w) sd"
    using assms(2,4) by (auto simp: quiet_def ev_fd_def split: event.splits sum.splits)
  with assms show ?thesis
    by (simp add: after_accept_def quiet_views [OF assms(2)] ext_Cons about_def
        del: open_fd.simps recvd.simps sent.simps)
qed

lemma after_accept_errno [simp]: "after_accept sd w0 (w\<lparr>errno := e\<rparr>) = after_accept sd w0 w"
  by (simp add: after_accept_def)

text \<open>Accepting frees no connection.\<close>

definition adds_only ::
  "('c env \<Rightarrow> int \<Rightarrow> sockaddr_in \<Rightarrow> ('c, 's, 'z) world_scheme \<Rightarrow> (int \<times> ('c, 's, 'z) world_scheme) option) \<Rightarrow> bool" where
  "adds_only add \<longleftrightarrow> (\<forall>E sd a w rc w' p. add E sd a w = Some (rc, w') \<longrightarrow> heap w p \<noteq> None \<longrightarrow> heap w' p \<noteq> None)"

lemma accepted_adds_only:
  assumes "adds_only add" and "accepted add E sd a w = Some w'" and "heap w p \<noteq> None"
  shows "heap w' p \<noteq> None"
proof -
  obtain rc w1 where n: "aux_set_nonblk E sd 1 w = (rc, w1)" by (cases "aux_set_nonblk E sd 1 w") auto
  then have "heap w1 = heap w"
    by (auto simp: aux_set_nonblk_def c_ioctl_def status_def emit_def split: sum.splits prod.splits if_splits)
  with assms n show ?thesis
    by (auto simp: accepted_def adds_only_def bind_some split: if_splits)
qed

locale acceptor = connections fd_of lfd_of cok
  for fd_of :: "'c \<Rightarrow> int option" and lfd_of :: "'s \<Rightarrow> int" and cok :: "history \<Rightarrow> ptr \<Rightarrow> 'c \<Rightarrow> bool" +
  fixes add :: "'c env \<Rightarrow> int \<Rightarrow> sockaddr_in \<Rightarrow> ('c, 's, 'z) world_scheme
      \<Rightarrow> (int \<times> ('c, 's, 'z) world_scheme) option"
  assumes add_fail: "e_malloc E (hist w) = None \<Longrightarrow>
      add E sd a w = Some (-1, w\<lparr>hist := Malloc None # hist w\<rparr>)"
    and add_new: "e_malloc E (hist w) = Some (p, g) \<Longrightarrow> \<forall>l m. \<not> active (hist w) l (Member (Heap p) m) \<Longrightarrow>
      recvd (hist w) sd = [] \<Longrightarrow> sent (hist w) sd = [] \<Longrightarrow>
      \<exists>c h. add E sd a w = Some (0, w\<lparr>hist := h, heap := (heap w)(p := Some c)\<rparr>) \<and>
        fd_of c = Some sd \<and> cok h p c \<and> ext {Heap p} {} (hist w) h \<and> allocated h p"
begin

lemma refused_local:
  assumes inv: "ginv fd_of lfd_of G cok w0" and "ext {} {} (hist w0) (hist w)"
    and "heap w = heap w0" and "servers w = servers w0" and "sd < 0"
  shows "accepted add E sd a w = Some w \<and> local_step fd_of lfd_of cok w0 w"
proof
  show "accepted add E sd a w = Some w" using assms(5) by (simp add: accepted_def)
  have "active (hist w) l (Member Global m) = active (hist w0) l (Member Global m)" for l m
    using assms(2) by (rule active_ext) simp
  then show "local_step fd_of lfd_of cok w0 w"
    using assms by (intro local_step_none [OF inv, of "{}"]) (auto intro: ext_mono)
qed

lemma lost_local:
  assumes inv: "ginv fd_of lfd_of G cok w0" and "\<not> open_fd (hist w0) sd" and "after_accept sd w0 w"
  shows "local_step fd_of lfd_of cok w0 w"
proof -
  have "active (hist w) l (Member Global m) = active (hist w0) l (Member Global m)" for l m
    using assms(3) by (intro active_ext [of "{}" "{sd}"]) (simp_all add: after_accept_def)
  with assms show ?thesis
    by (intro local_step_none [OF inv, of "{sd}"]) (auto simp: after_accept_def intro: ext_mono)
qed

lemma accepted_local:
  assumes ok: "env_ok E" and inv: "ginv fd_of lfd_of G cok w0" and new: "\<not> open_fd (hist w0) sd"
    and sd: "0 \<le> sd" and acc: "after_accept sd w0 w"
  shows "\<exists>w'. accepted add E sd a w = Some w' \<and> local_step fd_of lfd_of cok w0 w'"
proof -
  note run = accepted_def aux_set_nonblk_def c_ioctl_def status_def emit_def
  have io: "after_accept sd w0 (w\<lparr>hist := Ioctl sd FIONBIO 1 r # hist w\<rparr>)" for r
    using acc by (rule after_accept_quiet) (simp_all add: quiet_def ev_fd_def init_ok_def)
  show ?thesis
  proof (cases "e_ioctl E (hist w) sd 1")
    case (Inl e)
    have "local_step fd_of lfd_of cok w0 (w\<lparr>hist := Ioctl sd FIONBIO 1 (Inl e) # hist w, errno := e\<rparr>)"
      using io by (intro lost_local [OF inv new]) simp
    with Inl sd show ?thesis by (simp add: run)
  next
    case (Inr r)
    then have r: "r = 0" by (rule env_okD(7) [OF ok])
    let ?w = "w\<lparr>hist := Ioctl sd FIONBIO 1 (Inr 0) # hist w\<rparr>"
    note aft = io [of "Inr 0"]
    show ?thesis
    proof (cases "e_malloc E (hist ?w)")
      case None
      have "after_accept sd w0 (?w\<lparr>hist := Malloc None # hist ?w\<rparr>)"
        using aft by (auto simp: after_accept_def ext_Cons about_def ev_fd_def init_ok_def)
      from lost_local [OF inv new this] Inr r sd add_fail [OF None] show ?thesis
        by (simp add: run)
    next
      case (Some pg)
      then obtain p g where mal: "e_malloc E (hist ?w) = Some (p, g)" by (cases pg) auto
      have x: "ext {} {sd} (hist w0) (hist ?w)" using aft by (simp add: after_accept_def)
      have "\<not> allocated (hist w0) p"
        using env_okD(5) [OF ok mal] allocated_ext [OF x, of p] by simp
      then have free: "heap w0 p = None"
        using ginv_allocated [OF inv, of p] by (cases "heap w0 p") auto
      have idle: "\<forall>l m. \<not> active (hist ?w) l (Member (Heap p) m)"
        using ginv_dead [OF inv free] active_ext [OF x] by (simp add: dead_def)
      have "recvd (hist ?w) sd = []" "sent (hist ?w) sd = []"
        using aft by (simp_all add: after_accept_def)
      from add_new [OF mal idle this, of a] obtain c h
        where add: "add E sd a ?w = Some (0, ?w\<lparr>hist := h, heap := (heap ?w)(p := Some c)\<rparr>)"
          and c: "fd_of c = Some sd" "cok h p c" and xh: "ext {Heap p} {} (hist ?w) h" and al: "allocated h p"
        by blast
      have "ext {Heap p} {sd} (hist w0) h"
        using ext_trans [OF ext_mono [OF xh] ext_mono [OF x]] by auto
      moreover have "open_fd h sd" "recvd h sd = []" "sent h sd = []"
        using aft open_fd_ext [OF xh, of sd] recvd_ext [OF xh, of sd] sent_ext [OF xh, of sd]
        by (simp_all add: after_accept_def)
      ultimately have "local_step fd_of lfd_of cok w0 (?w\<lparr>hist := h, heap := (heap ?w)(p := Some c)\<rparr>)"
        using aft c al by (intro local_step_new [OF inv new free]) (auto simp: after_accept_def)
      with add Inr r sd show ?thesis by (simp add: run)
    qed
  qed
qed

end

end
