(* ===== verification/ServerCommon.thy ===== *)
theory ServerCommon
  imports Accepting
begin

text \<open>
  What \<^verbatim>\<open>server.c\<close> and \<^verbatim>\<open>server-honest.c\<close> share word for word: the accept callback, the
  set-up of the listening socket and \<open>main\<close>. \<open>add\<close> is the file's \<open>echo_client_add\<close>.
\<close>

section \<open>The code\<close>

definition server_accept ::
  "('c env \<Rightarrow> int \<Rightarrow> sockaddr_in \<Rightarrow> ('c, echo_server, 'z) world_scheme
      \<Rightarrow> (int \<times> ('c, echo_server, 'z) world_scheme) option)
     \<Rightarrow> 'c env \<Rightarrow> loop \<Rightarrow> watcher \<Rightarrow> revent set \<Rightarrow> ('c, echo_server, 'z) world_scheme
     \<Rightarrow> ('c, echo_server, 'z) world_scheme option" where
  "server_accept add E lp wt tev w = do {
     ob \<leftarrow> aux_memberof Wev_accept wt;
     n \<leftarrow> stack_ptr ob;
     s \<leftarrow> servers w n;
     if EV_ERROR \<in> tev then Some w
     else do {
       let (sd, addr, w) = c_accept E (io_fd (s_wev_accept s)) zero_addr w;
       if sd < 0 then Some w
       else do {
         let (rc, w) = aux_set_nonblk E sd 1 w;
         if rc < 0 then Some w
         else do {
           (_, w) \<leftarrow> add E sd addr w;
           Some w
         }
       }
     }
   }"

text \<open>\<open>s\<close> is the \<open>echo_server_t\<close> in the stack frame \<open>n\<close>; \<open>memset\<close> clears it.\<close>

definition server_listen ::
  "'c env \<Rightarrow> nat \<Rightarrow> string \<Rightarrow> string \<Rightarrow> ('c, echo_server, 'z) world_scheme
     \<Rightarrow> (int \<times> ('c, echo_server, 'z) world_scheme) option" where
  "server_listen E n host port w = do {
     let (sd, w) = c_socket E w;
     if sd < 0 then Some (-1, w)
     else do {
       let (rc, w) = aux_set_nonblk E sd 1 w;
       if rc < 0 then Some (-1, w)
       else do {
         let (rc, w) = aux_set_sckopt E sd SOL_SOCKET SO_REUSEADDR 1 w;
         if rc < 0 then Some (-1, w)
         else do {
           pn \<leftarrow> atoi port;
           let s = \<lparr>s_addr = \<lparr>sin_family = AF_INET, sin_addr = inet_addr host, sin_port = htons pn\<rparr>,
                 s_wev_accept = zero_io\<rparr>;
           let w = w\<lparr>servers := (servers w)(n := Some s)\<rparr>;
           let (rc, w) = c_bind E sd (s_addr s) w;
           if rc < 0 then Some (-1, w)
           else do {
             let (rc, w) = c_listen E sd LISTEN_BACKLOG w;
             if rc < 0 then Some (-1, w)
             else do {
               let (io, w) = ev_io_init (Member (Stack n) Wev_accept) Wcb_accept sd {EV_READ} w;
               let w = w\<lparr>servers := (servers w)(n := Some (s\<lparr>s_wev_accept := io\<rparr>))\<rparr>;
               let w = ev_io_start (loop w) (Member (Stack n) Wev_accept) w;
               Some (0, w)
             }
           }
         }
       }
     }
   }"

text \<open>\<open>main\<close> up to its end or to the call of \<open>ev_run\<close>; its stack frame is number 0.\<close>

definition server_main ::
  "'c env \<Rightarrow> string list \<Rightarrow> ('c, echo_server, 'z) world_scheme
     \<Rightarrow> ('c, echo_server, 'z) world_scheme process option" where
  "server_main E argv w =
     (if length argv < 3 then
        Some (Exited (-1) (c_fprintf (ln ''Usage: %s host port'') [A_str (argv ! 0)] w))
      else do {
        let w = ev_new_loop E w;
        (rc, w) \<leftarrow> server_listen E 0 (argv ! 1) (argv ! 2) w;
        if rc < 0 then Some (Exited (-1) w)
        else Some (Running (ev_run w))
      })"

section \<open>Correctness\<close>

lemma server_accept_eq:
  "server_accept add E lp (Member (Stack n) Wev_accept) tev w = (case servers w n of
     None \<Rightarrow> None
   | Some s \<Rightarrow> if EV_ERROR \<in> tev then Some w
       else (case c_accept E (io_fd (s_wev_accept s)) zero_addr w of
         (sd, addr, w) \<Rightarrow> accepted add E sd addr w))"
  by (simp add: server_accept_def accepted_def Let_def
      split: option.split prod.split)

lemma server_accept_keeps:
  assumes "adds_only add" and "server_accept add E lp (Member (Stack n) Wev_accept) tev w = Some w'"
    and "heap w p \<noteq> None"
  shows "heap w' p \<noteq> None"
proof -
  have "heap w1 = heap w" if "c_accept E l a w = (sd, b, w1)" for l a sd b w1
    using that by (auto simp: c_accept_def emit_def split: sum.splits prod.splits)
  with assms show ?thesis
    by (auto simp: server_accept_eq split: option.splits if_splits prod.splits
        dest!: accepted_adds_only [OF assms(1), where p = p])
qed

locale server_acceptor = acceptor fd_of lfd_s cok add
  for fd_of :: "'c \<Rightarrow> int option" and cok :: "history \<Rightarrow> ptr \<Rightarrow> 'c \<Rightarrow> bool"
    and add :: "'c env \<Rightarrow> int \<Rightarrow> sockaddr_in \<Rightarrow> ('c, echo_server, 'z) world_scheme
      \<Rightarrow> (int \<times> ('c, echo_server, 'z) world_scheme) option"
begin

lemma server_accept_local:
  assumes ok: "env_ok E" and inv: "ginv fd_of lfd_s G cok w" and s: "servers w n = Some s"
  shows "\<exists>w'. server_accept add E lp (Member (Stack n) Wev_accept) tev w = Some w' \<and>
    local_step fd_of lfd_s cok w w'"
proof (cases "EV_ERROR \<in> tev")
  case True
  with refused_local [OF inv ext_refl refl refl, where sd = "-1"] s show ?thesis
    by (simp add: server_accept_eq)
next
  case False
  note side = about_def ev_fd_def init_ok_def
  show ?thesis
  proof (cases "e_accept E (hist w) (io_fd (s_wev_accept s))")
    case (Inl e)
    let ?w = "w\<lparr>hist := Accept (io_fd (s_wev_accept s)) (Inl e) # hist w, errno := e\<rparr>"
    have "ext {} {} (hist w) (hist ?w)" by (auto intro!: ext_Cons ext_refl simp: side)
    from refused_local [OF inv this, where sd = "-1"] False Inl s show ?thesis
      by (simp add: server_accept_eq c_accept_def emit_def)
  next
    case (Inr r)
    then obtain sd a where acc: "e_accept E (hist w) (io_fd (s_wev_accept s)) = Inr (sd, a)"
      by (cases r) auto
    note sd = env_okD(4) [OF ok acc]
    let ?w = "w\<lparr>hist := Accept (io_fd (s_wev_accept s)) (Inr (sd, a)) # hist w\<rparr>"
    have "after_accept sd w ?w"
      by (auto simp: after_accept_def side intro!: ext_Cons ext_refl)
    from accepted_local [OF ok inv _ _ this] sd False acc s show ?thesis
      by (simp add: server_accept_eq c_accept_def emit_def)
  qed
qed

end

lemma server_listen_running:
  assumes ok: "env_ok E" and fresh: "hist w = [Ev_new_loop l]" "\<forall>p. heap w p = None" "\<forall>n. servers w n = None"
    and run: "server_listen E n host port w = Some (rc, w')" and rc: "0 \<le> rc"
  shows "\<exists>sd s pn. rc = 0 \<and> heap w' = heap w \<and> servers w' = (servers w)(n := Some s) \<and>
    atoi port = Some pn \<and>
    s = \<lparr>s_addr = \<lparr>sin_family = AF_INET, sin_addr = inet_addr host, sin_port = htons pn\<rparr>,
      s_wev_accept = \<lparr>io_cb = Wcb_accept, io_fd = sd, io_events = {EV_READ}\<rparr>\<rparr> \<and> loop w' = loop w \<and>
    (\<exists>a b c d. hist w' = [Ev_io_start (loop w) (Member (Stack n) Wev_accept),
      Ev_io_init (Member (Stack n) Wev_accept) Wcb_accept sd {EV_READ},
      Listen sd LISTEN_BACKLOG (Inr a), Bind sd (s_addr s) (Inr b),
      Setsockopt sd SOL_SOCKET SO_REUSEADDR 1 (Inr c), Ioctl sd FIONBIO 1 (Inr d),
      Socket AF_INET SOCK_STREAM 0 (Inr sd), Ev_new_loop l])"
proof (cases "atoi port")
  case None
  with run rc show ?thesis
    by (auto simp: server_listen_def Let_def split: prod.splits if_splits)
next
  case (Some pn)
  with run rc show ?thesis
    by (auto simp: server_listen_def aux_set_nonblk_def aux_set_sckopt_def status_call_defs
        ev_io_init_def ev_io_start_def emit_def Let_def fresh
        split: prod.splits if_splits dest!: status_nonneg)
qed

lemma server_main_world:
  assumes ok: "env_ok E" and fresh: "fresh_world w0" and m: "server_main E argv w0 = Some (Running w)"
  shows "\<exists>sd s l a b c d. hist w = [Ev_run l, Ev_io_start l (Member (Stack 0) Wev_accept),
      Ev_io_init (Member (Stack 0) Wev_accept) Wcb_accept sd {EV_READ},
      Listen sd LISTEN_BACKLOG (Inr a), Bind sd (s_addr s) (Inr b),
      Setsockopt sd SOL_SOCKET SO_REUSEADDR 1 (Inr c), Ioctl sd FIONBIO 1 (Inr d),
      Socket AF_INET SOCK_STREAM 0 (Inr sd), Ev_new_loop l] \<and>
    (\<forall>p. heap w p = None) \<and> servers w = (\<lambda>n. if n = 0 then Some s else None) \<and> lfd_s s = sd \<and> loop w = l"
proof -
  define w1 where "w1 = ev_new_loop E w0"
  from m obtain rc w2 where l: "server_listen E 0 (argv ! 1) (argv ! 2) w1 = Some (rc, w2)"
    and rc: "0 \<le> rc" and w: "w = ev_run w2"
    by (auto simp: server_main_def w1_def Let_def bind_some split: if_splits)
  have "hist w1 = [Ev_new_loop (loop w1)]" "\<forall>p. heap w1 p = None" "\<forall>n. servers w1 n = None"
    using fresh by (simp_all add: w1_def fresh_world_def ev_new_loop_def emit_def)
  from server_listen_running [OF ok this l rc] show ?thesis
    using \<open>\<forall>n. servers w1 n = None\<close> \<open>\<forall>p. heap w1 p = None\<close>
    by (auto simp: w ev_run_def emit_def lfd_s_def fun_eq_iff)
qed

text \<open>The listener, in a later state whose listeners are those \<open>main\<close> started.\<close>

lemma server_listener:
  assumes ok: "env_ok E" and start: "fresh_world v" "server_main E argv v = Some (Running w0)"
    and inv: "ginv fd_of lfd_s {} cok w" and sv: "servers w = servers w0"
    and act: "\<And>l n m. active (hist w) l (Member (Stack n) m) = active (hist w0) l (Member (Stack n) m)"
    and reg: "\<And>n m. registered (hist w) (Member (Stack n) m) = registered (hist w0) (Member (Stack n) m)"
  shows "\<exists>s l. servers w 0 = Some s \<and> open_fd (hist w) (io_fd (s_wev_accept s)) \<and>
    registered (hist w) (Member (Stack 0) Wev_accept) = Some Wcb_accept \<and>
    (\<forall>l' n m. active (hist w) l' (Member (Stack n) m) \<longleftrightarrow> l' = l \<and> n = 0 \<and> m = Wev_accept) \<and>
    (\<forall>l' m. \<not> active (hist w) l' (Member Global m))"
proof -
  from server_main_world [OF ok start] obtain sd s l a b c d where
    h: "hist w0 = [Ev_run l, Ev_io_start l (Member (Stack 0) Wev_accept),
      Ev_io_init (Member (Stack 0) Wev_accept) Wcb_accept sd {EV_READ},
      Listen sd LISTEN_BACKLOG (Inr a), Bind sd (s_addr s) (Inr b),
      Setsockopt sd SOL_SOCKET SO_REUSEADDR 1 (Inr c), Ioctl sd FIONBIO 1 (Inr d),
      Socket AF_INET SOCK_STREAM 0 (Inr sd), Ev_new_loop l]"
    and s: "servers w0 = (\<lambda>n. if n = 0 then Some s else None)"
    by (elim exE conjE) (rule that; assumption)
  have s0: "servers w 0 = Some s" using sv s by simp
  then have "open_fd (hist w) (io_fd (s_wev_accept s))"
    using ginv_listen [OF inv s0] by (simp add: lfd_s_def)
  moreover have "\<forall>l' n m. active (hist w) l' (Member (Stack n) m) \<longleftrightarrow> l' = l \<and> n = 0 \<and> m = Wev_accept"
    unfolding act h by auto
  moreover have "registered (hist w) (Member (Stack 0) Wev_accept) = Some Wcb_accept"
    unfolding reg h by simp
  moreover have "\<forall>l' m. \<not> active (hist w) l' (Member Global m)"
    using ginv_global [OF inv] by auto
  ultimately show ?thesis using s0 by blast
qed

lemma server_started_ginv:
  assumes "env_ok E" and "fresh_world w0" and "server_main E argv w0 = Some (Running w)"
  shows "ginv fd_of lfd_s {} cok w"
  using server_main_world [OF assms]
  by (auto simp: ginv_def dead_def split: if_splits)

end
