(* ===== verification/ThreadCommon.thy ===== *)
theory ThreadCommon
  imports Accepting
begin

text \<open>
  What \<^verbatim>\<open>thread.c\<close> and \<^verbatim>\<open>thread-honest.c\<close> share word for word: creating the listening
  socket, the threads, one event loop and one accept watcher for each, all on the same
  socket. The definitions do not depend on the connection structure of the program.
\<close>

section \<open>The code\<close>

record echo_server_t =
  t_wev_accept :: ev_io

definition lfd_t :: "echo_server_t \<Rightarrow> int" where
  "lfd_t s = io_fd (t_wev_accept s)"

definition echo_socket_listen ::
  "'c env \<Rightarrow> string \<Rightarrow> string \<Rightarrow> ('c, 's, 'z) world_scheme \<Rightarrow> (int \<times> ('c, 's, 'z) world_scheme) option" where
  "echo_socket_listen E host port w = do {
     let (sd, w) = c_socket E w;
     if sd < 0 then Some (-1, w)
     else do {
       let (rc, w) = aux_set_nonblk E sd 1 w;
       if rc < 0 then Some (-1, w)
       else do {
         let (rc, w) = aux_set_sckopt E sd SOL_SOCKET SO_REUSEADDR 1 w;
         if rc < 0 then Some (-1, w)
         else do {
           pn \<leftarrow> atoi port;
           let addr = \<lparr>sin_family = AF_INET, sin_addr = inet_addr host, sin_port = htons pn\<rparr>;
           let (rc, w) = c_bind E sd addr w;
           if rc < 0 then Some (-1, w)
           else do {
             let (rc, w) = c_listen E sd LISTEN_BACKLOG w;
             if rc < 0 then Some (-1, w) else Some (sd, w)
           }
         }
       }
     }
   }"

text \<open>The mutex is held during \<open>accept\<close> only.\<close>

definition thread_accept ::
  "('c env \<Rightarrow> int \<Rightarrow> sockaddr_in \<Rightarrow> ('c, echo_server_t, 'z) world_scheme
      \<Rightarrow> (int \<times> ('c, echo_server_t, 'z) world_scheme) option)
     \<Rightarrow> 'c env \<Rightarrow> loop \<Rightarrow> watcher \<Rightarrow> revent set \<Rightarrow> ('c, echo_server_t, 'z) world_scheme
     \<Rightarrow> ('c, echo_server_t, 'z) world_scheme option" where
  "thread_accept add E lp wt tev w = do {
     ob \<leftarrow> aux_memberof Wev_accept wt;
     n \<leftarrow> stack_ptr ob;
     s \<leftarrow> servers w n;
     if EV_ERROR \<in> tev then Some w
     else do {
       let w = pthread_mutex_lock w;
       let (sd, addr, w) = c_accept E (io_fd (t_wev_accept s)) zero_addr w;
       let w = pthread_mutex_unlock w;
       if sd < 0 then Some w
       else do {
         let (rc, w) = aux_set_nonblk E sd 1 w;
         if rc < 0 then Some w
         else do {
           (_, w) \<leftarrow> add E sd addr w;
           Some w
         }
       }
     }
   }"

text \<open>
  \<open>thread_func\<close> up to its call of \<open>ev_run\<close>; \<open>n\<close> is the number of the thread, whose
  \<open>echo_server_t\<close> lives in the stack frame \<open>Stack n\<close>, and \<open>loop\<close> its thread-local variable.
\<close>

definition thread_func ::
  "'c env \<Rightarrow> nat \<Rightarrow> int \<Rightarrow> ('c, echo_server_t, 'z) world_scheme \<Rightarrow> ('c, echo_server_t, 'z) world_scheme" where
  "thread_func E n sd w = (
     let w = ev_new_loop E w;
         (io, w) = ev_io_init (Member (Stack n) Wev_accept) Wcb_accept (int32 sd) {EV_READ} w;
         w = w\<lparr>servers := (servers w)(n := Some \<lparr>t_wev_accept = io\<rparr>)\<rparr>;
         w = ev_io_start (loop w) (Member (Stack n) Wev_accept) w
     in ev_run w)"

text \<open>The loop of \<open>main\<close>: threads \<open>i + 1\<close> to \<open>i + k\<close>; it ends at the first that cannot be created.\<close>

primrec create_threads ::
  "'c env \<Rightarrow> int \<Rightarrow> nat \<Rightarrow> nat \<Rightarrow> ('c, 's, 'z) world_scheme \<Rightarrow> int \<times> ('c, 's, 'z) world_scheme" where
  "create_threads E sd i 0 w = (0, w)"
| "create_threads E sd i (Suc k) w = (
     let (rc, w) = pthread_create E (i + 1) sd w in
     if rc \<noteq> 0 then (-1, c_fprintf (ln ''thread create error %d'') [A_int rc] w)
     else create_threads E sd (i + 1) k w)"

text \<open>
  \<open>main\<close> after the number of threads is known. \<open>num_cores - 1\<close> overflows for the smallest
  \<open>int\<close>; for a number below 1 the loop creates no thread. The main thread is number 0.
\<close>

definition run_threads ::
  "'c env \<Rightarrow> int \<Rightarrow> int \<Rightarrow> ('c, echo_server_t, 'z) world_scheme
     \<Rightarrow> ('c, echo_server_t, 'z) world_scheme process option" where
  "run_threads E sd num_cores w = (
     let w = c_fprintf (ln ''found %d cores'') [A_int num_cores] w in
     if num_cores - 1 < - (2 ^ 31) then None
     else let (rc, w) = create_threads E sd 0 (nat (num_cores - 1)) w in
       if rc \<noteq> 0 then Some (Exited (-1) w)
       else Some (Running (thread_func E 0 sd w)))"

text \<open>A created thread starts at some later moment, by running \<open>thread_func\<close>.\<close>

definition spawn_thread ::
  "'c env \<Rightarrow> ('c, echo_server_t, 'z) world_scheme \<Rightarrow> ('c, echo_server_t, 'z) world_scheme \<Rightarrow> bool" where
  "spawn_thread E w w' \<longleftrightarrow>
     (\<exists>n sd. Pthread_create n sd 0 \<in> set (hist w) \<and> servers w n = None \<and> w' = thread_func E n sd w)"

section \<open>Starting\<close>

lemma thread_func_eq:
  "- (2 ^ 31) \<le> sd \<Longrightarrow> sd < 2 ^ 31 \<Longrightarrow> thread_func E n sd w =
    w\<lparr>hist := Ev_run (e_ev_loop E (hist w)) # Ev_io_start (e_ev_loop E (hist w)) (Member (Stack n) Wev_accept) #
        Ev_io_init (Member (Stack n) Wev_accept) Wcb_accept sd {EV_READ} #
        Ev_new_loop (e_ev_loop E (hist w)) # hist w,
      servers := (servers w)(n := Some \<lparr>t_wev_accept = \<lparr>io_cb = Wcb_accept, io_fd = sd, io_events = {EV_READ}\<rparr>\<rparr>),
      loop := e_ev_loop E (hist w)\<rparr>"
  by (simp add: thread_func_def call_defs int32_id)

lemma spawn_thread_keeps:
  "spawn_thread E w w' \<Longrightarrow> heap w' = heap w \<and> open_fd (hist w') = open_fd (hist w) \<and>
     (\<forall>n s. servers w n = Some s \<longrightarrow> servers w' n = Some s)"
  by (auto simp: spawn_thread_def thread_func_def call_defs Let_def fun_eq_iff)

lemma spawn_thread_untouched: "spawn_thread E w w' \<Longrightarrow> untouched fd (hist w) (hist w')"
  by (auto simp: spawn_thread_def thread_func_def call_defs Let_def untouched_def)

text \<open>The calls between \<open>echo_socket_listen\<close> and the first event loop.\<close>

definition startup_event :: "int \<Rightarrow> event \<Rightarrow> bool" where
  "startup_event sd e = (case e of
     Fprintf _ _ \<Rightarrow> True | Sysconf _ \<Rightarrow> True | Pthread_create n a _ \<Rightarrow> 0 < n \<and> a = sd | _ \<Rightarrow> False)"

lemma startup_views:
  assumes "\<forall>e \<in> set h'. startup_event sd e"
  shows "active (h' @ h) l wt = active h l wt" and "registered (h' @ h) wt = registered h wt"
    and "allocated (h' @ h) p = allocated h p" and "open_fd (h' @ h) fd = open_fd h fd"
    and "Ev_new_loop l \<in> set (h' @ h) \<longleftrightarrow> Ev_new_loop l \<in> set h"
  using assms by (induction h') (auto simp: startup_event_def split: event.splits)

lemma create_threads_hist:
  "create_threads E sd i k w = (rc, w') \<Longrightarrow>
     \<exists>h. w' = w\<lparr>hist := h @ hist w\<rparr> \<and> (\<forall>e \<in> set h. startup_event sd e) \<and>
       (rc = 0 \<longrightarrow> (\<forall>n. Pthread_create n sd 0 \<in> set h \<longleftrightarrow> i < n \<and> n \<le> i + k))"
proof (induction k arbitrary: i w)
  case 0
  then show ?case by (intro exI [of _ "[]"]) auto
next
  case (Suc k)
  let ?r = "e_pthread_create E (hist w) (i + 1)"
  let ?w1 = "w\<lparr>hist := Pthread_create (i + 1) sd ?r # hist w\<rparr>"
  show ?case
  proof (cases "?r = 0")
    case True
    with Suc.prems have "create_threads E sd (i + 1) k ?w1 = (rc, w')"
      by (simp add: call_defs)
    from Suc.IH [OF this] obtain h where h: "w' = w\<lparr>hist := (h @ [Pthread_create (i + 1) sd 0]) @ hist w\<rparr>"
      "\<forall>e \<in> set h. startup_event sd e"
      "rc = 0 \<longrightarrow> (\<forall>n. Pthread_create n sd 0 \<in> set h \<longleftrightarrow> i + 1 < n \<and> n \<le> i + 1 + k)"
      using True by auto
    show ?thesis
      by (rule exI [of _ "h @ [Pthread_create (i + 1) sd 0]"]) (use h in \<open>auto simp: startup_event_def\<close>)
  next
    case False
    with Suc.prems show ?thesis
      by (intro exI [of _ "[Fprintf (ln ''thread create error %d'') [A_int ?r], Pthread_create (i + 1) sd ?r]"])
         (auto simp: call_defs startup_event_def)
  qed
qed

lemma listen_socket_running:
  assumes ok: "env_ok E" and run: "echo_socket_listen E host port w = Some (sd, w')" and sd: "0 \<le> sd"
  shows "\<exists>pn. atoi port = Some pn \<and> w' = w\<lparr>hist := Listen sd LISTEN_BACKLOG (Inr 0) #
      Bind sd \<lparr>sin_family = AF_INET, sin_addr = inet_addr host, sin_port = htons pn\<rparr> (Inr 0) #
      Setsockopt sd SOL_SOCKET SO_REUSEADDR 1 (Inr 0) # Ioctl sd FIONBIO 1 (Inr 0) #
      Socket AF_INET SOCK_STREAM 0 (Inr sd) # hist w\<rparr> \<and> sd < 2 ^ 31"
proof (cases "atoi port")
  case None
  with run sd show ?thesis
    by (auto simp: echo_socket_listen_def Let_def split: prod.splits if_splits)
next
  case (Some pn)
  note dests = env_okD(3) [OF ok] env_okD(7) [OF ok] env_okD(9) [OF ok] env_okD(10) [OF ok] env_okD(11) [OF ok]
  from Some run sd show ?thesis
    by (auto simp: echo_socket_listen_def aux_set_nonblk_def aux_set_sckopt_def status_call_defs Let_def
        split: prod.splits if_splits dest!: status_nonneg dest: dests)
       (frule dests(2), frule dests(3), frule dests(4), frule dests(5), simp)
qed

text \<open>The state in which the main thread enters its event loop.\<close>

definition started :: "int \<Rightarrow> int \<Rightarrow> string \<Rightarrow> string \<Rightarrow> ('c, echo_server_t, 'z) world_scheme \<Rightarrow> bool" where
  "started sd cores host port w \<longleftrightarrow> sd < 2 ^ 31 \<and> 0 \<le> sd \<and> (\<forall>p. heap w p = None) \<and>
     servers w = (\<lambda>_. None)(0 := Some \<lparr>t_wev_accept = \<lparr>io_cb = Wcb_accept, io_fd = sd, io_events = {EV_READ}\<rparr>\<rparr>) \<and>
     (\<exists>pn h. atoi port = Some pn \<and> (\<forall>e \<in> set h. startup_event sd e) \<and>
       (\<forall>n. Pthread_create n sd 0 \<in> set h \<longleftrightarrow> 0 < n \<and> int n \<le> cores - 1) \<and>
       hist w = Ev_run (loop w) # Ev_io_start (loop w) (Member (Stack 0) Wev_accept) #
         Ev_io_init (Member (Stack 0) Wev_accept) Wcb_accept sd {EV_READ} # Ev_new_loop (loop w) #
         h @ [Listen sd LISTEN_BACKLOG (Inr 0),
           Bind sd \<lparr>sin_family = AF_INET, sin_addr = inet_addr host, sin_port = htons pn\<rparr> (Inr 0),
           Setsockopt sd SOL_SOCKET SO_REUSEADDR 1 (Inr 0), Ioctl sd FIONBIO 1 (Inr 0),
           Socket AF_INET SOCK_STREAM 0 (Inr sd)])"

lemma run_threads_started:
  assumes ok: "env_ok E" and fresh: "fresh_world w0"
    and lis: "echo_socket_listen E host port w0 = Some (sd, w1)" and sd: "0 \<le> sd"
    and h: "\<forall>e \<in> set h. startup_event sd e" "\<forall>n a r. Pthread_create n a r \<notin> set h"
    and run: "run_threads E sd cores (w1\<lparr>hist := h @ hist w1\<rparr>) = Some (Running w)"
  shows "started sd cores host port w"
proof -
  from listen_socket_running [OF ok lis sd] obtain pn where pn: "atoi port = Some pn"
    and w1: "w1 = w0\<lparr>hist := [Listen sd LISTEN_BACKLOG (Inr 0),
      Bind sd \<lparr>sin_family = AF_INET, sin_addr = inet_addr host, sin_port = htons pn\<rparr> (Inr 0),
      Setsockopt sd SOL_SOCKET SO_REUSEADDR 1 (Inr 0), Ioctl sd FIONBIO 1 (Inr 0),
      Socket AF_INET SOCK_STREAM 0 (Inr sd)]\<rparr>" and lt: "sd < 2 ^ 31"
    using fresh by (auto simp: fresh_world_def)
  define w2 where "w2 = c_fprintf (ln ''found %d cores'') [A_int cores] (w1\<lparr>hist := h @ hist w1\<rparr>)"
  from run obtain w3 where cr: "create_threads E sd 0 (nat (cores - 1)) w2 = (0, w3)"
    and w: "w = thread_func E 0 sd w3"
    by (auto simp: run_threads_def w2_def Let_def split: prod.splits if_splits)
  from create_threads_hist [OF cr] obtain h' where w3: "w3 = w2\<lparr>hist := h' @ hist w2\<rparr>"
    and h': "\<forall>e \<in> set h'. startup_event sd e"
    "\<forall>n. Pthread_create n sd 0 \<in> set h' \<longleftrightarrow> 0 < n \<and> n \<le> nat (cores - 1)" by auto
  let ?h = "h' @ Fprintf (ln ''found %d cores'') [A_int cores] # h"
  have "\<forall>e \<in> set ?h. startup_event sd e"
    using h h' by (auto simp: startup_event_def)
  moreover have "\<forall>n. Pthread_create n sd 0 \<in> set ?h \<longleftrightarrow> 0 < n \<and> int n \<le> cores - 1"
    using h(2) h'(2) by auto
  moreover have "- (2 ^ 31) \<le> sd" using sd by simp
  ultimately show ?thesis
    unfolding started_def using fresh pn lt sd
    by (intro conjI exI [of _ pn] exI [of _ ?h])
       (simp_all add: w thread_func_eq w3 w2_def w1 c_fprintf_def emit_def fresh_world_def fun_eq_iff)
qed

lemma started_events:
  assumes "started sd cores host port w"
  shows "\<exists>pn. atoi port = Some pn \<and> Listen sd 4096 (Inr 0) \<in> set (hist w) \<and>
    Bind sd \<lparr>sin_family = AF_INET, sin_addr = inet_addr host, sin_port = htons pn\<rparr> (Inr 0) \<in> set (hist w) \<and>
    (\<forall>n. Pthread_create n sd 0 \<in> set (hist w) \<longleftrightarrow> 0 < n \<and> int n \<le> cores - 1) \<and>
    (\<forall>p. heap w p = None) \<and> {n. servers w n \<noteq> None} = {0}"
  using assms unfolding started_def LISTEN_BACKLOG_def by (elim exE conjE) (auto split: if_splits)

section \<open>What holds of the threads\<close>

text \<open>
  All threads listen on one socket \<open>sd\<close>, each in a loop of its own. Thread 0 is the main
  thread; the others have been created and were given \<open>sd\<close>.
\<close>

definition thread_ok :: "history \<Rightarrow> int \<Rightarrow> nat \<Rightarrow> echo_server_t \<Rightarrow> bool" where
  "thread_ok h sd n s \<longleftrightarrow>
     s = \<lparr>t_wev_accept = \<lparr>io_cb = Wcb_accept, io_fd = sd, io_events = {EV_READ}\<rparr>\<rparr> \<and>
     (n = 0 \<or> Pthread_create n sd 0 \<in> set h) \<and>
     registered h (Member (Stack n) Wev_accept) = Some Wcb_accept \<and>
     (\<exists>l. \<forall>l'. active h l' (Member (Stack n) Wev_accept) \<longleftrightarrow> l' = l)"

definition threads_inv :: "('c, echo_server_t, 'z) world_scheme \<Rightarrow> bool" where
  "threads_inv w \<longleftrightarrow>
     (\<exists>sd. - (2 ^ 31) \<le> sd \<and> sd < 2 ^ 31 \<and> servers w 0 \<noteq> None \<and>
        (\<forall>n s. servers w n = Some s \<longrightarrow> thread_ok (hist w) sd n s) \<and>
        (\<forall>n a. Pthread_create n a 0 \<in> set (hist w) \<longrightarrow> a = sd \<and> 0 < n)) \<and>
     (\<forall>l m n. active (hist w) l (Member (Stack m) Wev_accept) \<longrightarrow>
        active (hist w) l (Member (Stack n) Wev_accept) \<longrightarrow> m = n) \<and>
     (\<forall>l n. active (hist w) l (Member (Stack n) Wev_accept) \<longrightarrow> Ev_new_loop l \<in> set (hist w))"

lemma threads_inv_cong:
  assumes "servers w' = servers w"
    and "\<And>l n. active (hist w') l (Member (Stack n) Wev_accept) = active (hist w) l (Member (Stack n) Wev_accept)"
    and "\<And>n. registered (hist w') (Member (Stack n) Wev_accept) = registered (hist w) (Member (Stack n) Wev_accept)"
    and "\<And>l. Ev_new_loop l \<in> set (hist w') \<longleftrightarrow> Ev_new_loop l \<in> set (hist w)"
    and "\<And>n a r. Pthread_create n a r \<in> set (hist w') \<longleftrightarrow> Pthread_create n a r \<in> set (hist w)"
  shows "threads_inv w' = threads_inv w"
  using assms by (simp add: threads_inv_def thread_ok_def)

lemma local_threads_inv:
  assumes inv: "threads_inv w" and step: "local_step fd_of lfd_t cok (w\<lparr>loop := l\<rparr>) w'"
  shows "threads_inv w'"
proof -
  from step obtain P F where at: "local_step_at P F fd_of lfd_t cok (w\<lparr>loop := l\<rparr>) w'"
    unfolding local_step_def by blast
  have x: "ext (insert Global (Heap ` P)) F (hist w) (hist w')" and sv: "servers w' = servers w"
    using at_ext [OF at] at_servers [OF at] by simp_all
  have "threads_inv w' = threads_inv w"
    using sv by (intro threads_inv_cong) (auto simp: threads_ext [OF x] intro!: active_ext [OF x] registered_ext [OF x])
  with inv show ?thesis by simp
qed

text \<open>Running \<open>thread_func\<close> in a thread that has not started.\<close>

lemma spawn_threads_inv:
  assumes ok: "env_ok E" and inv: "threads_inv w" and new: "servers w n = None"
    and cr: "Pthread_create n sd 0 \<in> set (hist w)"
    and idle: "\<And>l m. active (hist w) l (Member (Stack n) m) \<Longrightarrow> servers w n \<noteq> None"
  shows "threads_inv (thread_func E n sd w)"
proof -
  let ?l = "e_ev_loop E (hist w)"
  from inv obtain sd' where rng: "- (2 ^ 31) \<le> sd'" "sd' < 2 ^ 31" "servers w 0 \<noteq> None"
    and srv: "\<And>n s. servers w n = Some s \<Longrightarrow> thread_ok (hist w) sd' n s"
    and crt: "\<And>n a. Pthread_create n a 0 \<in> set (hist w) \<Longrightarrow> a = sd' \<and> 0 < n"
    by (auto simp: threads_inv_def)
  from inv have one: "\<And>l m n. active (hist w) l (Member (Stack m) Wev_accept) \<Longrightarrow>
        active (hist w) l (Member (Stack n) Wev_accept) \<Longrightarrow> m = n"
    and lps: "\<And>l n. active (hist w) l (Member (Stack n) Wev_accept) \<Longrightarrow> Ev_new_loop l \<in> set (hist w)"
    by (simp_all add: threads_inv_def) blast+
  have sd: "sd = sd'" using crt [OF cr] by simp
  have none: "\<not> active (hist w) l (Member (Stack n) Wev_accept)" for l using idle new by blast
  have fresh: "\<not> active (hist w) ?l (Member (Stack m) Wev_accept)" for m
    using lps env_okD(12) [OF ok] by blast
  define w' where "w' = thread_func E n sd w"
  note eq = thread_func_eq [of sd E n w, folded w'_def, unfolded sd, OF rng(1,2)]
  have act: "active (hist w') l (Member (Stack m) Wev_accept) \<longleftrightarrow>
      (if m = n then l = ?l else active (hist w) l (Member (Stack m) Wev_accept))" for l m
    using none by (auto simp: eq)
  have reg: "registered (hist w') (Member (Stack m) Wev_accept) =
      (if m = n then Some Wcb_accept else registered (hist w) (Member (Stack m) Wev_accept))" for m
    by (simp add: eq)
  have pc: "Pthread_create m a r \<in> set (hist w') \<longleftrightarrow> Pthread_create m a r \<in> set (hist w)" for m a r
    by (simp add: eq)
  have "thread_ok (hist w') sd' m s" if s: "servers w' m = Some s" for m s
  proof (cases "m = n")
    case True
    with s cr sd show ?thesis by (simp add: thread_ok_def act reg pc) (auto simp: eq)
  next
    case False
    with s srv [of m s] show ?thesis by (simp add: thread_ok_def act reg pc) (simp add: eq)
  qed
  moreover have "servers w' 0 \<noteq> None" using rng(3) by (simp add: eq)
  moreover have "m = k" if "active (hist w') l (Member (Stack m) Wev_accept)"
    "active (hist w') l (Member (Stack k) Wev_accept)" for l m k
    using that fresh one by (auto simp: act split: if_splits)
  moreover have "Ev_new_loop l \<in> set (hist w')" if "active (hist w') l (Member (Stack m) Wev_accept)" for l m
    using that lps by (auto simp: act eq split: if_splits)
  ultimately show ?thesis
    unfolding w'_def [symmetric] threads_inv_def using rng(1,2) crt pc by blast
qed

lemma spawn_thread_inv:
  assumes ok: "env_ok E" and inv: "ginv fd_of lfd_t G cok w" "threads_inv w" and sp: "spawn_thread E w w'"
  shows "threads_inv w'"
proof -
  from sp obtain n sd where cr: "Pthread_create n sd 0 \<in> set (hist w)" and new: "servers w n = None"
    and w': "w' = thread_func E n sd w"
    unfolding spawn_thread_def by blast
  show ?thesis
    unfolding w' using ginv_stack [OF inv(1)] by (intro spawn_threads_inv [OF ok inv(2) new cr]) blast
qed

text \<open>The main thread alone.\<close>

lemma started_inv:
  assumes "started sd cores host port w"
  shows "threads_inv w" and "ginv fd_of lfd_t {} cok w"
proof -
  from assms obtain h hl where h: "\<forall>e \<in> set h. startup_event sd e"
    and w: "hist w = Ev_run (loop w) # Ev_io_start (loop w) (Member (Stack 0) Wev_accept) #
         Ev_io_init (Member (Stack 0) Wev_accept) Wcb_accept sd {EV_READ} # Ev_new_loop (loop w) # h @ hl"
    and hl: "\<And>l wt. \<not> active hl l wt" "\<And>wt. registered hl wt = None" "\<And>p. \<not> allocated hl p"
      "\<And>fd. open_fd hl fd \<longleftrightarrow> fd = sd" "\<And>n a r. Pthread_create n a r \<notin> set hl"
    and sd: "0 \<le> sd" "sd < 2 ^ 31" and hp: "\<And>p. heap w p = None"
    and sv: "servers w = (\<lambda>_. None)(0 := Some \<lparr>t_wev_accept = \<lparr>io_cb = Wcb_accept, io_fd = sd, io_events = {EV_READ}\<rparr>\<rparr>)"
    unfolding started_def by (elim conjE exE) (rule that, assumption, assumption, auto)
  note v = startup_views [OF h, where h = hl] hl
  have pc: "a = sd \<and> 0 < n" if "Pthread_create n a r \<in> set (hist w)" for n a r
  proof -
    from that hl(5) have "Pthread_create n a r \<in> set h" by (simp add: w)
    with h show ?thesis by (force simp: startup_event_def)
  qed
  have act: "active (hist w) l wt \<longleftrightarrow> l = loop w \<and> wt = Member (Stack 0) Wev_accept" for l wt
    by (subst w) (auto simp: v)
  have reg: "registered (hist w) wt = (if wt = Member (Stack 0) Wev_accept then Some Wcb_accept else None)" for wt
    by (subst w) (auto simp: v)
  have lp: "Ev_new_loop (loop w) \<in> set (hist w)" by (subst w) simp
  show "threads_inv w"
    unfolding threads_inv_def thread_ok_def act reg
    using sd pc lp by (auto simp: sv intro!: exI [of _ sd] split: if_splits)
  have opn: "open_fd (hist w) fd \<longleftrightarrow> fd = sd" for fd by (subst w) (auto simp: v)
  have alc: "\<not> allocated (hist w) p" for p by (subst w) (auto simp: v)
  show "ginv fd_of lfd_t {} cok w"
    unfolding ginv_def dead_def act reg opn using hp alc by (auto simp: sv lfd_t_def split: if_splits)
qed

text \<open>Both invariants together, as a listener's view.\<close>

lemma threads_inv_listen:
  assumes "ginv fd_of lfd_t {} cok w \<and> threads_inv w"
  shows "\<exists>sd. open_fd (hist w) sd \<and> servers w 0 \<noteq> None \<and>
    (\<forall>n s. servers w n = Some s \<longrightarrow> io_fd (t_wev_accept s) = sd \<and>
       (n = 0 \<or> Pthread_create n sd 0 \<in> set (hist w)) \<and>
       (\<exists>l. \<forall>l'. active (hist w) l' (Member (Stack n) Wev_accept) \<longleftrightarrow> l' = l)) \<and>
    (\<forall>l m n. active (hist w) l (Member (Stack m) Wev_accept) \<longrightarrow>
       active (hist w) l (Member (Stack n) Wev_accept) \<longrightarrow> m = n) \<and>
    (\<forall>l n m. active (hist w) l (Member (Stack n) m) \<longrightarrow> m = Wev_accept \<and> servers w n \<noteq> None) \<and>
    (\<forall>l m. \<not> active (hist w) l (Member Global m))"
proof -
  have inv: "ginv fd_of lfd_t {} cok w" and thr: "threads_inv w" using assms by simp_all
  from thr obtain sd where s0: "servers w 0 \<noteq> None" and th: "\<And>n s. servers w n = Some s \<Longrightarrow> thread_ok (hist w) sd n s"
    by (auto simp: threads_inv_def)
  from s0 obtain s where s: "servers w 0 = Some s" by blast
  have "open_fd (hist w) sd"
    using ginv_listen [OF inv s] th [OF s] by (simp add: thread_ok_def lfd_t_def)
  moreover have "\<And>n s. servers w n = Some s \<Longrightarrow> io_fd (t_wev_accept s) = sd \<and>
       (n = 0 \<or> Pthread_create n sd 0 \<in> set (hist w)) \<and>
       (\<exists>l. \<forall>l'. active (hist w) l' (Member (Stack n) Wev_accept) \<longleftrightarrow> l' = l)"
    using th unfolding thread_ok_def by fastforce
  moreover have "\<forall>l m n. active (hist w) l (Member (Stack m) Wev_accept) \<longrightarrow>
       active (hist w) l (Member (Stack n) Wev_accept) \<longrightarrow> m = n"
    using thr by (simp add: threads_inv_def)
  ultimately show ?thesis
    using s0 ginv_stack [OF inv] ginv_global [OF inv] by blast
qed

locale thread_connections = connections fd_of lfd_t cok
  for fd_of :: "'c \<Rightarrow> int option" and cok :: "history \<Rightarrow> ptr \<Rightarrow> 'c \<Rightarrow> bool"
begin

lemma spawn_ginv:
  assumes inv: "ginv fd_of lfd_t G cok w" and thr: "threads_inv w" and sp: "spawn_thread E w w'"
  shows "ginv fd_of lfd_t G cok w'"
proof -
  from sp obtain n sd where cr: "Pthread_create n sd 0 \<in> set (hist w)" and new: "servers w n = None"
    and w': "w' = thread_func E n sd w"
    unfolding spawn_thread_def by blast
  from thr obtain sd' where "- (2 ^ 31) \<le> sd'" "sd' < 2 ^ 31" and "servers w 0 \<noteq> None"
    and ok: "\<And>n s. servers w n = Some s \<Longrightarrow> thread_ok (hist w) sd' n s"
    and "\<And>n a. Pthread_create n a 0 \<in> set (hist w) \<Longrightarrow> a = sd'"
    unfolding threads_inv_def by blast
  with cr obtain s where rng: "- (2 ^ 31) \<le> sd" "sd < 2 ^ 31" and s: "servers w 0 = Some s"
    and "thread_ok (hist w) sd 0 s" by blast
  then have lfd: "lfd_t s = sd" by (simp add: thread_ok_def lfd_t_def)
  note s = s lfd
  let ?h = "Ev_new_loop (e_ev_loop E (hist w)) # hist w"
  note eq = thread_func_eq [OF rng, of E n w, folded w']
  have x: "ext {Stack n} {} ?h (hist w')"
    by (simp add: eq) (intro ext_Cons ext_refl, simp_all add: about_def ev_fd_def init_ok_def)
  have cok': "cok (hist w') p c" if "heap w p = Some c" for p c
    using cok_ext [OF cok_new_loop [OF ginv_cok [OF inv that]] x] by simp
  have "dead (hist w') p" if "heap w p = None" for p
    using ginv_dead [OF inv that] by (simp add: dead_def eq)
  moreover have "open_fd (hist w) sd" and "\<And>p c. heap w p = Some c \<Longrightarrow> fd_of c \<noteq> Some sd"
    using ginv_listen [OF inv s(1)] ginv_listen_other [OF inv s(1)] s(2) by auto
  ultimately show ?thesis
    using ginvD [OF inv] cok' unfolding ginv_def
    by (simp add: eq lfd_t_def) (intro conjI allI impI; auto split: if_splits)
qed

end

section \<open>Accepting\<close>

lemma thread_accept_eq:
  "thread_accept add E lp (Member (Stack n) Wev_accept) tev w = (case servers w n of
     None \<Rightarrow> None
   | Some s \<Rightarrow> if EV_ERROR \<in> tev then Some w
       else (case c_accept E (io_fd (t_wev_accept s)) zero_addr (pthread_mutex_lock w) of
         (sd, addr, w) \<Rightarrow> accepted add E sd addr (pthread_mutex_unlock w)))"
  by (simp add: thread_accept_def accepted_def Let_def split: option.split prod.split)

lemma thread_accept_keeps:
  assumes "adds_only add" and "thread_accept add E lp (Member (Stack n) Wev_accept) tev w = Some w'"
    and "heap w p \<noteq> None"
  shows "heap w' p \<noteq> None"
proof -
  have "heap (pthread_mutex_unlock w1) = heap w" if "c_accept E l a (pthread_mutex_lock w) = (sd, b, w1)" for l a sd b w1
    using that by (auto simp: c_accept_def emit_def pthread_mutex_lock_def pthread_mutex_unlock_def
        split: sum.splits prod.splits)
  with assms show ?thesis
    by (auto simp: thread_accept_eq split: option.splits if_splits prod.splits
        dest!: accepted_adds_only [OF assms(1), where p = p])
qed

locale thread_acceptor = acceptor fd_of lfd_t cok add
  for fd_of :: "'c \<Rightarrow> int option" and cok :: "history \<Rightarrow> ptr \<Rightarrow> 'c \<Rightarrow> bool"
    and add :: "'c env \<Rightarrow> int \<Rightarrow> sockaddr_in \<Rightarrow> ('c, echo_server_t, 'z) world_scheme
      \<Rightarrow> (int \<times> ('c, echo_server_t, 'z) world_scheme) option"
begin

lemma thread_accept_local:
  assumes ok: "env_ok E" and inv: "ginv fd_of lfd_t G cok w" and s: "servers w n = Some s"
  shows "\<exists>w'. thread_accept add E lp (Member (Stack n) Wev_accept) tev w = Some w' \<and>
    local_step fd_of lfd_t cok w w'"
proof (cases "EV_ERROR \<in> tev")
  case True
  with refused_local [OF inv ext_refl refl refl, where sd = "-1"] s show ?thesis
    by (simp add: thread_accept_eq)
next
  case False
  note side = about_def ev_fd_def init_ok_def
  note run = thread_accept_eq c_accept_def emit_def pthread_mutex_lock_def pthread_mutex_unlock_def
  let ?h = "Mutex_lock # hist w"
  show ?thesis
  proof (cases "e_accept E ?h (io_fd (t_wev_accept s))")
    case (Inl e)
    let ?w = "w\<lparr>errno := e, hist := Mutex_unlock # Accept (io_fd (t_wev_accept s)) (Inl e) # ?h\<rparr>"
    have "ext {} {} (hist w) (hist ?w)" by (auto intro!: ext_Cons ext_refl simp: side)
    from refused_local [OF inv this, where sd = "-1"] False Inl s show ?thesis
      by (simp add: run)
  next
    case (Inr r)
    then obtain sd a where acc: "e_accept E ?h (io_fd (t_wev_accept s)) = Inr (sd, a)"
      by (cases r) auto
    note sd = env_okD(4) [OF ok acc]
    let ?w = "w\<lparr>hist := Mutex_unlock # Accept (io_fd (t_wev_accept s)) (Inr (sd, a)) # ?h\<rparr>"
    have "after_accept sd w ?w"
      by (auto simp: after_accept_def side intro!: ext_Cons ext_refl)
    from accepted_local [OF ok inv _ _ this] sd False acc s show ?thesis
      by (simp add: run)
  qed
qed

end

end
