(* ===== verification/PlainClient.thy ===== *)
theory PlainClient
  imports Accepting "HOL-Library.Sublist"
begin

text \<open>
  The connections of the two plain servers, \<^verbatim>\<open>server.c\<close> and \<^verbatim>\<open>thread.c\<close>, whose functions
  on connections are the same word for word. They have no buffer: what \<open>recv\<close> delivers is
  handed to \<open>send\<close> at once, and what \<open>send\<close> does not take is lost.
\<close>

section \<open>The code\<close>

record echo_client_p =
  p_addr :: sockaddr_in
  p_wev_recv :: ev_io
  p_wev_timeout :: ev_timer

definition BUF_SIZE :: size_t where
  "BUF_SIZE = 4096"

definition plain_del ::
  "ptr \<Rightarrow> (echo_client_p, 's, 'z) world_scheme \<Rightarrow> (int \<times> (echo_client_p, 's, 'z) world_scheme) option" where
  "plain_del p w = do {
     let w = ev_io_stop (loop w) (Member (Heap p) Wev_recv) w;
     let w = ev_timer_stop (loop w) (Member (Heap p) Wev_timeout) w;
     c \<leftarrow> load p w;
     let w = c_close (io_fd (p_wev_recv c)) w;
     w \<leftarrow> c_free p w;
     Some (0, w)
   }"

definition plain_timeout ::
  "loop \<Rightarrow> watcher \<Rightarrow> revent set \<Rightarrow> (echo_client_p, 's, 'z) world_scheme
     \<Rightarrow> (echo_client_p, 's, 'z) world_scheme option" where
  "plain_timeout lp wt tev w = do {
     ob \<leftarrow> aux_memberof Wev_timeout wt;
     p \<leftarrow> heap_ptr ob;
     (_, w) \<leftarrow> plain_del p w;
     Some w
   }"

text \<open>The bytes \<open>recv\<close> stored in the local array are what \<open>send\<close> is given.\<close>

definition plain_recv ::
  "echo_client_p env \<Rightarrow> loop \<Rightarrow> watcher \<Rightarrow> revent set \<Rightarrow> (echo_client_p, 's, 'z) world_scheme
     \<Rightarrow> (echo_client_p, 's, 'z) world_scheme option" where
  "plain_recv E lp wt tev w = do {
     ob \<leftarrow> aux_memberof Wev_recv wt;
     p \<leftarrow> heap_ptr ob;
     c \<leftarrow> load p w;
     let fd = io_fd (p_wev_recv c);
     (nb, buf, w) \<leftarrow> aux_unix_recv E fd BUF_SIZE w;
     if nb < 0 then
       if errno w = EAGAIN then
         Some (ev_timer_again lp (Member (Heap p) Wev_timeout) (p_wev_timeout c) w)
       else do {
         let w = c_fprintf (ln ''recv error fd=%d (%d: %s)'')
               [A_int fd, A_strerror (errno w), A_strerror (errno w)] w;
         (_, w) \<leftarrow> plain_del p w;
         Some w
       }
     else if nb = 0 then do {
       let w = c_fprintf (ln ''recv done fd=%d'') [A_int fd] w;
       (_, w) \<leftarrow> plain_del p w;
       Some w
     } else do {
       let (nb, w) = aux_unix_send E fd buf w;
       if nb < 0 then do {
         let w = c_fprintf (ln ''send error fd=%d (%d: %s)'')
               [A_int fd, A_strerror (errno w), A_strerror (errno w)] w;
         (_, w) \<leftarrow> plain_del p w;
         Some w
       } else Some (ev_timer_again lp (Member (Heap p) Wev_timeout) (p_wev_timeout c) w)
     }
   }"

definition plain_add ::
  "echo_client_p env \<Rightarrow> int \<Rightarrow> sockaddr_in \<Rightarrow> (echo_client_p, 's, 'z) world_scheme
     \<Rightarrow> (int \<times> (echo_client_p, 's, 'z) world_scheme) option" where
  "plain_add E sd addr w = (case c_malloc E w of
     (None, w) \<Rightarrow> Some (-1, w)
   | (Some p, w) \<Rightarrow> do {
       c \<leftarrow> load p w;
       let c = c\<lparr>p_addr := \<lparr>sin_family = sin_family addr, sin_addr = sin_addr addr,
             sin_port = sin_port addr\<rparr>\<rparr>;
       let (io, w) = ev_io_init (Member (Heap p) Wev_recv) Wcb_recv sd {EV_READ} w;
       let c = c\<lparr>p_wev_recv := io\<rparr>;
       let (tm, w) = ev_timer_init (Member (Heap p) Wev_timeout) Wcb_timeout 0 SOCKET_TIMEOUT w;
       let c = c\<lparr>p_wev_timeout := tm\<rparr>;
       w \<leftarrow> store p c w;
       let w = ev_timer_again (loop w) (Member (Heap p) Wev_timeout) tm w;
       let w = ev_io_start (loop w) (Member (Heap p) Wev_recv) w;
       Some (0, w)
     })"

section \<open>The invariant of a connection\<close>

definition p_fd :: "echo_client_p \<Rightarrow> int option" where
  "p_fd c = Some (io_fd (p_wev_recv c))"

text \<open>
  The connection is watched in one loop, never for writing, and a relation \<open>R\<close> holds
  between what was sent on it and what was received. \<open>R\<close> is \<open>subseq\<close> in general: bytes may
  be lost, but none is added or reordered. It is equality while the kernel takes all bytes.
\<close>

definition stream_rel :: "(byte list \<Rightarrow> byte list \<Rightarrow> bool) \<Rightarrow> 'c env \<Rightarrow> bool" where
  "stream_rel R E \<longleftrightarrow> R [] [] \<and>
     (\<forall>h fd bs k s r. e_send E h fd bs = Inr k \<longrightarrow> R s r \<longrightarrow> R (s @ take k bs) (r @ bs))"

definition takes_all :: "'c env \<Rightarrow> bool" where
  "takes_all E \<longleftrightarrow> (\<forall>h fd bs k. e_send E h fd bs = Inr k \<longrightarrow> k = length bs)"

lemma stream_rel_subseq [simp]: "stream_rel subseq E"
  by (simp add: stream_rel_def list_emb_append_mono prefix_imp_subseq take_is_prefix)

lemma stream_rel_eq: "takes_all E \<Longrightarrow> stream_rel (=) E"
  unfolding stream_rel_def takes_all_def by auto

definition plain_watched :: "history \<Rightarrow> ptr \<Rightarrow> loop \<Rightarrow> echo_client_p \<Rightarrow> bool" where
  "plain_watched h p l c \<longleftrightarrow>
     watching h p l \<and> (\<forall>l'. \<not> active h l' (Member (Heap p) Wev_send)) \<and>
     tm_repeat (p_wev_timeout c) = SOCKET_TIMEOUT"

definition plain_ok ::
  "(byte list \<Rightarrow> byte list \<Rightarrow> bool) \<Rightarrow> history \<Rightarrow> ptr \<Rightarrow> echo_client_p \<Rightarrow> bool" where
  "plain_ok R h p c \<longleftrightarrow> (\<exists>l. plain_watched h p l c) \<and>
     R (sent h (io_fd (p_wev_recv c))) (recvd h (io_fd (p_wev_recv c)))"

lemma plain_watched_ext:
  assumes "plain_watched h p l c" and "ext Os F h h'" and "Heap p \<notin> Os"
  shows "plain_watched h' p l c"
  using assms watching_ext [of h p l Os F h'] active_ext [OF assms(2), of "Member (Heap p) Wev_send"]
  by (simp add: plain_watched_def)

lemma plain_ok_ext:
  assumes "plain_ok R h p c" and "ext Os F h h'" and "Heap p \<notin> Os"
    and "\<And>fd. p_fd c = Some fd \<Longrightarrow> fd \<notin> F"
  shows "plain_ok R h' p c"
  using assms sent_ext [OF assms(2)] recvd_ext [OF assms(2)]
  unfolding plain_ok_def by (auto simp: p_fd_def intro: plain_watched_ext)

lemma plain_ok_new_loop: "plain_ok R h p c \<Longrightarrow> plain_ok R (Ev_new_loop l # h) p c"
  by (simp add: plain_ok_def plain_watched_def)

lemma plain_okI:
  "plain_watched h p l c \<Longrightarrow> R (sent h (io_fd (p_wev_recv c))) (recvd h (io_fd (p_wev_recv c))) \<Longrightarrow>
     plain_ok R h p c"
  unfolding plain_ok_def by blast

lemma plain_okD:
  assumes "plain_ok R h p c" and "active h l (Member (Heap p) m)"
  shows "plain_watched h p l c"
proof -
  from assms(1) obtain l' where l': "plain_watched h p l' c"
    unfolding plain_ok_def by blast
  with assms(2) have "l = l'"
    unfolding plain_watched_def by (auto dest: watchingD)
  with l' show ?thesis by simp
qed

lemma plain_ok_stream:
  "plain_ok R h p c \<Longrightarrow> io_fd (p_wev_recv c) = fd \<Longrightarrow> R (sent h fd) (recvd h fd)"
  by (auto simp: plain_ok_def)

lemma plain_watched_quiet [simp]:
  "ev_obj e = None \<Longrightarrow> plain_watched (e # h) p l c = plain_watched h p l c"
  by (cases e) (auto simp: plain_watched_def)

lemma plain_watched_again:
  "plain_watched h p l c \<Longrightarrow>
     plain_watched (Ev_timer_again l (Member (Heap p) Wev_timeout) SOCKET_TIMEOUT # h) p l c"
  by (simp add: plain_watched_def)

section \<open>Deleting, and the timeout\<close>

lemma plain_del_eq:
  "heap w p = Some c \<Longrightarrow> plain_del p w = Some (0, w\<lparr>hist :=
     Free p # Close (io_fd (p_wev_recv c)) # Ev_timer_stop (loop w) (Member (Heap p) Wev_timeout) #
     Ev_io_stop (loop w) (Member (Heap p) Wev_recv) # hist w, heap := (heap w)(p := None)\<rparr>)"
  by (simp add: plain_del_def call_defs)

lemma plain_del_local:
  assumes inv: "ginv p_fd lfd_of {} (plain_ok R) w0" and c0: "heap w0 p = Some c0" "p_fd c0 = Some fd"
    and on: "on_conn p fd c w0 w" and fd: "io_fd (p_wev_recv c) = fd"
    and wat: "plain_watched (hist w) p (loop w) c"
  shows "\<exists>w'. plain_del p w = Some (0, w') \<and> local_step p_fd lfd_of (plain_ok R) w0 w' \<and>
    heap w' = (heap w)(p := None) \<and> \<not> open_fd (hist w') fd \<and>
    recvd (hist w') = recvd (hist w) \<and> sent (hist w') = sent (hist w) \<and>
    (\<forall>l m. \<not> active (hist w') l (Member (Heap p) m))"
proof -
  define h where "h = Free p # Close fd # Ev_timer_stop (loop w) (Member (Heap p) Wev_timeout) #
     Ev_io_stop (loop w) (Member (Heap p) Wev_recv) # hist w"
  have "ext {Heap p} {fd} (hist w) h"
    unfolding h_def by (auto intro!: ext_Cons ext_refl simp: about_def ev_fd_def init_ok_def)
  moreover have d: "dead h p"
    unfolding h_def using wat by (intro dead_deleted_plain) (simp_all add: plain_watched_def)
  moreover have "\<not> open_fd h fd"
    by (simp add: h_def)
  ultimately have "local_step p_fd lfd_of (plain_ok R) w0 (w\<lparr>hist := h, heap := (heap w)(p := None)\<rparr>)"
    by (rule on_conn_delete [OF inv c0 on])
  with d show ?thesis
    using plain_del_eq [OF on_conn_heap [OF on]] by (simp add: h_def fd dead_def fun_eq_iff)
qed

lemma plain_print:
  assumes "on_conn p fd c w0 w" and "plain_watched (hist w) p (loop w) c"
  shows "on_conn p fd c w0 (c_fprintf f as w)"
    and "plain_watched (hist (c_fprintf f as w)) p (loop (c_fprintf f as w)) c"
  using assms on_conn_call [OF assms(1), of "Fprintf f as"]
  by (simp_all add: c_fprintf_def emit_def quiet_def about_def ev_fd_def init_ok_def)

text \<open>Deleting at the end of a callback, after a line of output.\<close>

lemma plain_del_tail:
  assumes "ginv p_fd lfd_of {} (plain_ok R) w0" and "heap w0 p = Some c0" and "p_fd c0 = Some fd"
    and "on_conn p fd c w0 w" and "io_fd (p_wev_recv c) = fd" and "plain_watched (hist w) p (loop w) c"
  shows "\<exists>w'. (plain_del p (c_fprintf f as w) \<bind> (\<lambda>(_, w). Some w)) = Some w' \<and>
    local_step p_fd lfd_of (plain_ok R) w0 w' \<and> heap w' = (heap w0)(p := None) \<and> \<not> open_fd (hist w') fd \<and>
    recvd (hist w') = recvd (hist w) \<and> sent (hist w') = sent (hist w)"
proof -
  note pr = plain_print [OF assms(4,6), of f as]
  from plain_del_local [OF assms(1-3) pr(1) assms(5) pr(2)] obtain w' where
    "plain_del p (c_fprintf f as w) = Some (0, w')" "local_step p_fd lfd_of (plain_ok R) w0 w'"
    "heap w' = (heap (c_fprintf f as w))(p := None)" "\<not> open_fd (hist w') fd"
    "recvd (hist w') = recvd (hist (c_fprintf f as w))" "sent (hist w') = sent (hist (c_fprintf f as w))"
    by blast
  moreover have "heap w = (heap w0)(p := Some c)"
    using assms(4) by (simp add: on_conn_def)
  ultimately show ?thesis
    by (simp add: c_fprintf_def emit_def fun_eq_iff)
qed

section \<open>The receive callback\<close>

text \<open>
  What the callback does: wait, close, or pass a chunk on of which the kernel took the
  first \<open>k\<close> bytes. The timer starts its interval anew unless the connection is closed.
\<close>

definition plain_outcome ::
  "echo_client_p env \<Rightarrow> ptr \<Rightarrow> int \<Rightarrow> (echo_client_p, 's, 'z) world_scheme \<Rightarrow> (echo_client_p, 's, 'z) world_scheme \<Rightarrow> bool" where
  "plain_outcome E p fd w w' \<longleftrightarrow>
     (heap w' = (heap w)(p := None) \<and> \<not> open_fd (hist w') fd \<and> gone_as fd (hist w) (hist w')) \<or>
     (heap w' = heap w \<and>
      rearms (hist w') (Member (Heap p) Wev_timeout) = Suc (rearms (hist w) (Member (Heap p) Wev_timeout)) \<and>
      (\<exists>inp k. k \<le> length inp \<and> (inp = [] \<longrightarrow> errno w' = EAGAIN) \<and>
         (inp \<noteq> [] \<longrightarrow> (\<exists>h. e_send E h fd inp = Inr k)) \<and>
         recvd (hist w') fd = recvd (hist w) fd @ inp \<and> sent (hist w') fd = sent (hist w) fd @ take k inp))"

lemma plain_again:
  assumes inv: "ginv p_fd lfd_of {} (plain_ok R) w0" and c0: "heap w0 p = Some c" "p_fd c = Some fd"
    and on: "on_conn p fd c w0 w" and wat: "plain_watched (hist w) p (loop w) c"
    and str: "R (sent (hist w) fd) (recvd (hist w) fd)"
  shows "local_step p_fd lfd_of (plain_ok R) w0
      (ev_timer_again (loop w) (Member (Heap p) Wev_timeout) (p_wev_timeout c) w)"
proof -
  have tm: "tm_repeat (p_wev_timeout c) = SOCKET_TIMEOUT" using wat by (simp add: plain_watched_def)
  have "on_conn p fd c w0 (ev_timer_again (loop w) (Member (Heap p) Wev_timeout) (p_wev_timeout c) w)"
    unfolding ev_timer_again_def emit_def
    by (rule on_conn_call [OF on]) (simp_all add: quiet_def about_def ev_fd_def init_ok_def)
  moreover have "plain_ok R (Ev_timer_again (loop w) (Member (Heap p) Wev_timeout) SOCKET_TIMEOUT # hist w) p c"
    using plain_watched_again [OF wat] str c0 by (intro plain_okI) (simp_all add: p_fd_def)
  ultimately show ?thesis
    using tm by (intro on_conn_keep [OF inv c0, of c]) (simp_all add: c0 ev_timer_again_def emit_def)
qed

lemma plain_recv_run:
  assumes ok: "env_ok E" and R: "stream_rel R E" and inv: "ginv p_fd lfd_of {} (plain_ok R) w"
    and act: "active (hist w) (loop w) (Member (Heap p) Wev_recv)"
    and c: "heap w p = Some c" and fd: "io_fd (p_wev_recv c) = fd"
    and rcv: "aux_unix_recv E fd BUF_SIZE w = Some (nb, data, w1)"
  shows "\<exists>w'. plain_recv E (loop w) (Member (Heap p) Wev_recv) tev w = Some w' \<and>
    local_step p_fd lfd_of (plain_ok R) w w' \<and> plain_outcome E p fd w w'"
proof -
  have c0: "heap w p = Some c" "p_fd c = Some fd" by (simp_all add: c fd p_fd_def)
  have wat: "plain_watched (hist w) p (loop w) c"
    using ginv_cok [OF inv c] act by (rule plain_okD)
  have str: "R (sent (hist w) fd) (recvd (hist w) fd)"
    using ginv_cok [OF inv c] fd by (rule plain_ok_stream)
  from wat have tm: "tm_repeat (p_wev_timeout c) = SOCKET_TIMEOUT" by (simp add: plain_watched_def)
  note on = on_conn_start [OF inv c0]
  note run = plain_recv_def load_def c fd rcv Let_def
  have lt: "unat BUF_SIZE < 2 ^ 31" by (simp add: BUF_SIZE_def)
  show ?thesis
    using ok lt rcv
  proof (cases rule: aux_unix_recv_cases)
    case (error k e)
    have on1: "on_conn p fd c w w1" unfolding error(6) using on by (rule on_conn_recv)
    have wat1: "plain_watched (hist w1) p (loop w1) c"
      using wat by (simp add: error(6) plain_watched_def)
    have same: "heap w1 = heap w" "errno w1 = e" "loop w1 = loop w"
      "recvd (hist w1) fd = recvd (hist w) fd" "sent (hist w1) fd = sent (hist w) fd"
      "rearms (hist w1) = rearms (hist w)"
      by (simp_all add: error(6) fun_eq_iff)
    show ?thesis
    proof (cases "e = EAGAIN")
      case True
      have "R (sent (hist w1) fd) (recvd (hist w1) fd)" using str same by simp
      from plain_again [OF inv c0 on1 wat1 this] True same error(4) show ?thesis
        by (auto simp: run plain_outcome_def ev_timer_again_def emit_def)
    next
      case False
      from plain_del_tail [OF inv c0 on1 fd wat1] False same error(4) show ?thesis
        by (fastforce simp: run plain_outcome_def gone_as_def)
    qed
  next
    case (data k e)
    have on1: "on_conn p fd c w w1" unfolding data(5) using on by (rule on_conn_recv)
    have wat1: "plain_watched (hist w1) p (loop w1) c"
      using wat by (simp add: data(5) plain_watched_def)
    have same: "heap w1 = heap w" "loop w1 = loop w" "recvd (hist w1) fd = recvd (hist w) fd @ data"
      "sent (hist w1) fd = sent (hist w) fd" "rearms (hist w1) = rearms (hist w)"
      by (simp_all add: data(5) fun_eq_iff)
    show ?thesis
    proof (cases "data = []")
      case True
      from plain_del_tail [OF inv c0 on1 fd wat1] True same data(4) show ?thesis
        by (fastforce simp: run plain_outcome_def gone_as_def)
    next
      case False
      have len: "length data < 2 ^ 31"
        using data(2) by (simp add: BUF_SIZE_def)
      show ?thesis
        using ok len
      proof (cases rule: aux_unix_send_cases [where w = w1 and fd = fd])
        case (error e)
        let ?w2 = "w1\<lparr>hist := Send fd data (Inl e) # hist w1, errno := e\<rparr>"
        have on2: "on_conn p fd c w ?w2"
          using on_conn_call [OF on1, of "Send fd data (Inl e)"]
          by (simp add: quiet_def about_def ev_fd_def init_ok_def)
        have wat2: "plain_watched (hist ?w2) p (loop ?w2) c"
          using wat1 by (simp add: plain_watched_def)
        from plain_del_tail [OF inv c0 on2 fd wat2] False same data(4) error(2) show ?thesis
          by (fastforce simp: run plain_outcome_def gone_as_def)
      next
        case (sent m)
        let ?w2 = "w1\<lparr>hist := Send fd data (Inr m) # hist w1\<rparr>"
        have on2: "on_conn p fd c w ?w2"
          using on1 by (rule on_conn_call) (simp_all add: quiet_def about_def ev_fd_def init_ok_def)
        have wat2: "plain_watched (hist ?w2) p (loop ?w2) c"
          using wat1 by (simp add: plain_watched_def)
        have "R (sent (hist w) fd @ take m data) (recvd (hist w) fd @ data)"
          using R str sent(1) unfolding stream_rel_def by blast
        then have "R (sent (hist ?w2) fd) (recvd (hist ?w2) fd)" using same by simp
        from plain_again [OF inv c0 on2 wat2 this] False same data(4) sent tm show ?thesis
          by (auto simp: run plain_outcome_def ev_timer_again_def emit_def intro!: exI [of _ data] exI [of _ m])
      qed
    qed
  qed
qed

lemma plain_recv_result:
  assumes "plain_recv E lp (Member (Heap p) Wev_recv) tev w = Some w'" and "heap w p = Some c"
  obtains nb data w1 where "aux_unix_recv E (io_fd (p_wev_recv c)) BUF_SIZE w = Some (nb, data, w1)"
  using assms by (auto simp: plain_recv_def load_def bind_some Let_def)

lemma plain_recv_defined:
  assumes "env_ok E" and "recv_returns E" and R: "stream_rel R E"
    and inv: "ginv p_fd lfd_of {} (plain_ok R) w"
    and act: "active (hist w) (loop w) (Member (Heap p) Wev_recv)"
  shows "plain_recv E (loop w) (Member (Heap p) Wev_recv) tev w \<noteq> None"
proof -
  obtain c where c: "heap w p = Some c"
    using ginv_dead [OF inv, of p] act by (auto simp: dead_def)
  have "unat BUF_SIZE < 2 ^ 31" by (simp add: BUF_SIZE_def)
  from aux_unix_recv_returns [OF assms(1,2) this, of "io_fd (p_wev_recv c)" w]
  show ?thesis using plain_recv_run [OF assms(1) R inv act c refl] by fastforce
qed

text \<open>A connection that the callback takes down is its own, and sends nothing more.\<close>

lemma plain_recv_gone:
  assumes "plain_outcome E p (io_fd (p_wev_recv c)) w w'" and "heap w p = Some c"
    and "heap w q = Some d" and "p_fd d = Some fd" and "heap w' q = None"
  shows "gone_as fd (hist w) (hist w')"
  using assms by (auto simp: plain_outcome_def p_fd_def split: if_splits)

text \<open>The timeout.\<close>

lemma plain_timeout_run:
  assumes inv: "ginv p_fd lfd_of {} (plain_ok R) w"
    and act: "active (hist w) (loop w) (Member (Heap p) Wev_timeout)"
  shows "\<exists>w' c. plain_timeout lp (Member (Heap p) Wev_timeout) tev w = Some w' \<and>
    local_step p_fd lfd_of (plain_ok R) w w' \<and> heap w p = Some c \<and> heap w' = (heap w)(p := None) \<and>
    \<not> open_fd (hist w') (io_fd (p_wev_recv c)) \<and> (\<forall>l m. \<not> active (hist w') l (Member (Heap p) m)) \<and>
    recvd (hist w') = recvd (hist w) \<and> sent (hist w') = sent (hist w)"
proof -
  obtain c where c: "heap w p = Some c"
    using ginv_dead [OF inv, of p] act by (auto simp: dead_def)
  then have c0: "heap w p = Some c" "p_fd c = Some (io_fd (p_wev_recv c))" by (simp_all add: p_fd_def)
  have "plain_watched (hist w) p (loop w) c"
    using ginv_cok [OF inv c] act by (rule plain_okD)
  from plain_del_local [OF inv c0 on_conn_start [OF inv c0] refl this] c show ?thesis
    by (auto simp: plain_timeout_def)
qed

section \<open>New connections\<close>

lemma plain_add_eq:
  "plain_add E sd addr w = (case e_malloc E (hist w) of
     None \<Rightarrow> Some (-1, w\<lparr>hist := Malloc None # hist w\<rparr>)
   | Some (p, c) \<Rightarrow> Some (0, w\<lparr>hist :=
       Ev_io_start (loop w) (Member (Heap p) Wev_recv) #
       Ev_timer_again (loop w) (Member (Heap p) Wev_timeout) SOCKET_TIMEOUT #
       Ev_timer_init (Member (Heap p) Wev_timeout) Wcb_timeout 0 SOCKET_TIMEOUT #
       Ev_io_init (Member (Heap p) Wev_recv) Wcb_recv sd {EV_READ} #
       Malloc (Some p) # hist w,
     heap := (heap w)(p := Some \<lparr>p_addr = \<lparr>sin_family = sin_family addr, sin_addr = sin_addr addr,
         sin_port = sin_port addr\<rparr>,
       p_wev_recv = \<lparr>io_cb = Wcb_recv, io_fd = sd, io_events = {EV_READ}\<rparr>,
       p_wev_timeout = \<lparr>tm_cb = Wcb_timeout, tm_after = 0, tm_repeat = SOCKET_TIMEOUT\<rparr>\<rparr>)\<rparr>))"
proof (cases "e_malloc E (hist w)")
  case None
  then show ?thesis by (simp add: plain_add_def call_defs)
next
  case (Some pc)
  then obtain p c where "e_malloc E (hist w) = Some (p, c)" by (cases pc) auto
  then show ?thesis
    by (cases c) (simp add: plain_add_def call_defs Let_def)
qed

lemma plain_adds_only: "adds_only plain_add"
  by (auto simp: adds_only_def plain_add_eq split: option.splits)

lemma plain_acceptor:
  assumes R: "R [] []"
  shows "acceptor p_fd (plain_ok R) plain_add"
proof unfold_locales
  fix h h' :: history and p c Os F
  assume "plain_ok R h p c" and "ext Os F h h'" and "Heap p \<notin> Os"
    and "\<And>fd. p_fd c = Some fd \<Longrightarrow> fd \<notin> F"
  then show "plain_ok R h' p c" by (rule plain_ok_ext)
next
  fix h p c l
  assume "plain_ok R h p c"
  then show "plain_ok R (Ev_new_loop l # h) p c" by (rule plain_ok_new_loop)
next
  fix E :: "echo_client_p env" and w :: "(echo_client_p, 's, 'z) world_scheme" and sd and a :: sockaddr_in
  assume "e_malloc E (hist w) = None"
  then show "plain_add E sd a w = Some (-1, w\<lparr>hist := Malloc None # hist w\<rparr>)"
    by (simp add: plain_add_eq)
next
  fix E :: "echo_client_p env" and w :: "(echo_client_p, 's, 'z) world_scheme" and p g sd and a :: sockaddr_in
  assume mal: "e_malloc E (hist w) = Some (p, g)" and idle: "\<forall>l m. \<not> active (hist w) l (Member (Heap p) m)"
    and fresh: "recvd (hist w) sd = []" "sent (hist w) sd = []"
  let ?h = "Ev_io_start (loop w) (Member (Heap p) Wev_recv) #
       Ev_timer_again (loop w) (Member (Heap p) Wev_timeout) SOCKET_TIMEOUT #
       Ev_timer_init (Member (Heap p) Wev_timeout) Wcb_timeout 0 SOCKET_TIMEOUT #
       Ev_io_init (Member (Heap p) Wev_recv) Wcb_recv sd {EV_READ} # Malloc (Some p) # hist w"
  let ?c = "\<lparr>p_addr = \<lparr>sin_family = sin_family a, sin_addr = sin_addr a, sin_port = sin_port a\<rparr>,
       p_wev_recv = \<lparr>io_cb = Wcb_recv, io_fd = sd, io_events = {EV_READ}\<rparr>,
       p_wev_timeout = \<lparr>tm_cb = Wcb_timeout, tm_after = 0, tm_repeat = SOCKET_TIMEOUT\<rparr>\<rparr>"
  have "watching ?h p (loop w)"
    using idle by (intro watching_new) simp
  then have "plain_ok R ?h p ?c"
    using fresh idle R by (intro plain_okI [of _ _ "loop w"]) (simp_all add: plain_watched_def)
  moreover have "ext {Heap p} {} (hist w) ?h"
    by (auto intro!: ext_Cons ext_refl simp: about_def ev_fd_def init_ok_def)
  ultimately show "\<exists>c h. plain_add E sd a w = Some (0, w\<lparr>hist := h, heap := (heap w)(p := Some c)\<rparr>) \<and>
      p_fd c = Some sd \<and> plain_ok R h p c \<and> ext {Heap p} {} (hist w) h \<and> allocated h p"
    using mal by (intro exI [of _ ?c] exI [of _ ?h]) (simp add: plain_add_eq p_fd_def)
qed

lemma plain_members:
  assumes "plain_watched h p l c" and "active h l' (Member (Heap p) m)"
  shows "l' = l \<and> m \<in> {Wev_recv, Wev_timeout} \<and> registered h (Member (Heap p) m) = Some (cb_of m)"
proof -
  have wat: "watching h p l" and "m \<noteq> Wev_send"
    using assms by (auto simp: plain_watched_def)
  moreover have "l' = l" using watchingD(1) [OF wat assms(2)] .
  moreover have "m \<in> {Wev_recv, Wev_timeout, Wev_send}" using wat assms(2) unfolding watching_def by blast
  ultimately show ?thesis by (auto simp: watching_def)
qed

text \<open>The watchers libev can call back.\<close>

lemma plain_watcher_cases [consumes 3, case_names accept recv timeout]:
  assumes inv: "ginv p_fd lfd_of {} (plain_ok R) w" and act: "active (hist w) l wt"
    and reg: "registered (hist w) wt = Some cb"
  obtains (accept) n s where "wt = Member (Stack n) Wev_accept" and "cb = Wcb_accept" and "servers w n = Some s"
  | (recv) p c where "wt = Member (Heap p) Wev_recv" and "cb = Wcb_recv" and "heap w p = Some c"
  | (timeout) p c where "wt = Member (Heap p) Wev_timeout" and "cb = Wcb_timeout" and "heap w p = Some c"
proof (cases wt)
  case (Member ob m)
  have cb: "cb = cb_of m"
    using ginv_registered [OF inv reg] Member by simp
  show thesis
  proof (cases ob)
    case (Heap p)
    obtain c where c: "heap w p = Some c"
      using ginv_dead [OF inv, of p] act Member Heap by (auto simp: dead_def)
    have a: "active (hist w) l (Member (Heap p) m)" using act Member Heap by simp
    have pw: "plain_watched (hist w) p l c" using ginv_cok [OF inv c] a by (rule plain_okD)
    then have "watching (hist w) p l" "m \<noteq> Wev_send" using a by (auto simp: plain_watched_def)
    with watching_only [OF this(1) a] show thesis
      using Member Heap c cb that(2,3) by auto
  next
    case (Stack n)
    with act Member ginv_stack [OF inv, of l n m] cb show thesis
      by (auto intro: that(1))
  next
    case Global
    with act Member ginv_global [OF inv, of l m] show thesis by simp
  qed
qed

end
