(* ===== verification/HonestClient.thy ===== *)
theory HonestClient
  imports EchoConn
begin

text \<open>
  The connection structure of the two ``honest'' servers, \<^verbatim>\<open>server-honest.c\<close> and
  \<^verbatim>\<open>thread-honest.c\<close>, which declare it alike, and the buffer in it: bytes received
  and not yet sent, from \<open>to_send_beg\<close> on, \<open>to_send_size\<close> of them. The operations are
  the pieces of the two callbacks that work on the buffer. The locale \<open>byte_queue\<close> says
  what they are to do: a queue of bytes.
\<close>

section \<open>The structure\<close>

definition TO_SEND_SIZE :: nat where
  "TO_SEND_SIZE = 4096 * 4"

lemma TO_SEND_SIZE_eq: "TO_SEND_SIZE = 16384"
  by (simp add: TO_SEND_SIZE_def)

record echo_client_h =
  h_addr :: sockaddr_in
  h_wev_recv :: ev_io
  h_wev_send :: ev_io
  h_wev_timeout :: ev_timer
  to_send :: "nat \<Rightarrow> byte"
  to_send_beg :: nat
  to_send_size :: size_t

section \<open>The buffer operations\<close>

text \<open>\<open>c->to_send + TO_SEND_SIZE - (c->to_send_beg + c->to_send_size)\<close>, converted to \<open>int\<close>.\<close>

definition buf_rem_size :: "echo_client_h \<Rightarrow> int option" where
  "buf_rem_size c = do {
     p \<leftarrow> ptr_add TO_SEND_SIZE (to_send_beg c) (uint (to_send_size c));
     Some (int32 (int TO_SEND_SIZE - int p))
   }"

text \<open>The pending bytes are moved to the front of the array.\<close>

definition buf_compact :: "echo_client_h \<Rightarrow> echo_client_h option" where
  "buf_compact c = do {
     a \<leftarrow> c_memcpy TO_SEND_SIZE (to_send c) 0 (to_send_beg c) (unat (to_send_size c));
     Some (c\<lparr>to_send := a, to_send_beg := 0\<rparr>)
   }"

text \<open>\<open>TO_SEND_SIZE - c->to_send_size\<close>, a \<open>size_t\<close>, converted to \<open>int\<close>.\<close>

definition buf_rem_size_front :: "echo_client_h \<Rightarrow> int" where
  "buf_rem_size_front c = int32 (uint (word_of_int (int TO_SEND_SIZE) - to_send_size c))"

text \<open>\<open>recv\<close> stores its bytes at \<open>c->to_send_beg + c->to_send_size\<close>.\<close>

definition buf_fill :: "echo_client_h \<Rightarrow> byte list \<Rightarrow> echo_client_h option" where
  "buf_fill c data = do {
     p \<leftarrow> ptr_add TO_SEND_SIZE (to_send_beg c) (uint (to_send_size c));
     a \<leftarrow> arr_write TO_SEND_SIZE (to_send c) p data;
     Some (c\<lparr>to_send := a\<rparr>)
   }"

definition buf_grow :: "echo_client_h \<Rightarrow> int \<Rightarrow> echo_client_h" where
  "buf_grow c nb = c\<lparr>to_send_size := to_send_size c + word_of_int nb\<rparr>"

text \<open>What \<open>send\<close> reads, and the update after it took \<open>sent_nb\<close> bytes.\<close>

definition buf_data :: "echo_client_h \<Rightarrow> byte list option" where
  "buf_data c = arr_read TO_SEND_SIZE (to_send c) (to_send_beg c) (unat (to_send_size c))"

definition buf_consume :: "echo_client_h \<Rightarrow> int \<Rightarrow> echo_client_h option" where
  "buf_consume c sent_nb = do {
     p \<leftarrow> ptr_add TO_SEND_SIZE (to_send_beg c) sent_nb;
     Some (c\<lparr>to_send_beg := p, to_send_size := to_send_size c - word_of_int sent_nb\<rparr>)
   }"

text \<open>How the receive callback makes room: it compacts when fewer than 32 bytes are left at the end.\<close>

definition buf_room :: "echo_client_h \<Rightarrow> (int \<times> echo_client_h) option" where
  "buf_room c = do {
     rem \<leftarrow> buf_rem_size c;
     if rem < 32 then do {
       c \<leftarrow> buf_compact c;
       Some (buf_rem_size_front c, c)
     } else Some (rem, c)
   }"

definition buf_put :: "echo_client_h \<Rightarrow> byte list \<Rightarrow> echo_client_h option" where
  "buf_put c data = do {
     c \<leftarrow> buf_fill c data;
     Some (buf_grow c (int (length data)))
   }"

section \<open>The buffer as a queue of bytes\<close>

definition buf_ok :: "echo_client_h \<Rightarrow> bool" where
  "buf_ok c \<longleftrightarrow> to_send_beg c + unat (to_send_size c) \<le> TO_SEND_SIZE"

definition pending :: "echo_client_h \<Rightarrow> byte list" where
  "pending c = arr_slice (to_send c) (to_send_beg c) (unat (to_send_size c))"

lemma length_pending [simp]: "length (pending c) = unat (to_send_size c)"
  by (simp add: pending_def)

lemma pending_eq_Nil: "pending c = [] \<longleftrightarrow> to_send_size c = 0"
  by (simp add: pending_def size_t_eq_0_iff)

lemma buf_rem_size_ok:
  "buf_ok c \<Longrightarrow> buf_rem_size c = Some (16384 - int (to_send_beg c) - int (unat (to_send_size c)))"
  by (simp add: buf_rem_size_def buf_ok_def TO_SEND_SIZE_eq bind_some int32_id)

lemma buf_rem_size_front_ok:
  assumes "buf_ok c"
  shows "buf_rem_size_front c = 16384 - int (unat (to_send_size c))"
proof -
  have le: "unat (to_send_size c) \<le> 16384"
    using assms by (simp add: buf_ok_def TO_SEND_SIZE_eq)
  then have "to_send_size c \<le> 16384"
    by (simp add: word_le_nat_alt)
  then have "unat ((16384 :: size_t) - to_send_size c) = 16384 - unat (to_send_size c)"
    by (simp add: unat_sub)
  then show ?thesis
    using le by (simp add: buf_rem_size_front_def TO_SEND_SIZE_eq int32_id)
qed

lemma buf_compact_ok:
  assumes "buf_ok c" and "buf_compact c = Some c'"
  shows "buf_ok c'" and "pending c' = pending c" and "to_send_size c' = to_send_size c"
    and "to_send_beg c' = 0"
    and "c' = c\<lparr>to_send := to_send c', to_send_beg := 0\<rparr>"
proof -
  from assms(2) obtain a where
    a: "c_memcpy TO_SEND_SIZE (to_send c) 0 (to_send_beg c) (unat (to_send_size c)) = Some a" and
    c': "c' = c\<lparr>to_send := a, to_send_beg := 0\<rparr>"
    by (auto simp: buf_compact_def bind_some)
  then show "buf_ok c'" "pending c' = pending c" "to_send_size c' = to_send_size c"
    "to_send_beg c' = 0" "c' = c\<lparr>to_send := to_send c', to_send_beg := 0\<rparr>"
    using assms(1) c_memcpy_slice [OF a] by (simp_all add: buf_ok_def pending_def)
qed

text \<open>Compaction is undefined exactly when the pending bytes overlap their target in part.\<close>

lemma buf_compact_None:
  "buf_ok c \<Longrightarrow>
     buf_compact c = None \<longleftrightarrow> 0 < to_send_beg c \<and> to_send_beg c < unat (to_send_size c)"
  by (simp add: buf_compact_def buf_ok_def bind_none c_memcpy_front_None)

lemma buf_put_ok:
  assumes "buf_ok c" and "to_send_beg c + unat (to_send_size c) + length data \<le> TO_SEND_SIZE"
  shows "\<exists>c'. buf_put c data = Some c' \<and> buf_ok c' \<and> pending c' = pending c @ data \<and>
    c' = c\<lparr>to_send := to_send c', to_send_size := to_send_size c + word_of_int (int (length data))\<rparr>"
  using assms
  by (simp add: buf_put_def buf_fill_def buf_grow_def buf_ok_def pending_def bind_some
      TO_SEND_SIZE_eq unat_size_add arr_slice_store_append nat_int_add)

lemma buf_consume_ok:
  assumes "buf_ok c" and "k \<le> unat (to_send_size c)"
  shows "\<exists>c'. buf_consume c (int k) = Some c' \<and> buf_ok c' \<and> pending c' = drop k (pending c) \<and>
    c' = c\<lparr>to_send_beg := to_send_beg c + k, to_send_size := to_send_size c - word_of_nat k\<rparr>"
  using assms
  by (simp add: buf_consume_def buf_ok_def pending_def bind_some TO_SEND_SIZE_eq
      unat_size_sub arr_slice_drop nat_int_add)

lemma buf_data_ok: "buf_ok c \<Longrightarrow> buf_data c = Some (pending c)"
  by (simp add: buf_data_def buf_ok_def pending_def)

text \<open>The contract of a bounded queue of bytes that may have to reorganise itself to make room.\<close>

locale byte_queue =
  fixes contents :: "'q \<Rightarrow> byte list"
    and invar :: "'q \<Rightarrow> bool"
    and room :: "'q \<Rightarrow> (int \<times> 'q) option"
    and put :: "'q \<Rightarrow> byte list \<Rightarrow> 'q option"
    and peek :: "'q \<Rightarrow> byte list option"
    and consume :: "'q \<Rightarrow> int \<Rightarrow> 'q option"
  assumes room_contents: "invar q \<Longrightarrow> room q = Some (n, q') \<Longrightarrow> invar q' \<and> contents q' = contents q"
    and room_bound: "invar q \<Longrightarrow> room q = Some (n, q') \<Longrightarrow> 0 \<le> n"
    and room_put: "invar q \<Longrightarrow> room q = Some (n, q') \<Longrightarrow> length bs \<le> nat n \<Longrightarrow>
      \<exists>q''. put q' bs = Some q'' \<and> invar q'' \<and> contents q'' = contents q' @ bs"
    and peek_contents: "invar q \<Longrightarrow> peek q = Some (contents q)"
    and consume_contents: "invar q \<Longrightarrow> k \<le> length (contents q) \<Longrightarrow>
      \<exists>q'. consume q (int k) = Some q' \<and> invar q' \<and> contents q' = drop k (contents q)"
begin

text \<open>Receiving a chunk that fits and handing on a prefix of the contents keeps the stream.\<close>

lemma pass_on:
  assumes "invar q" and "room q = Some (n, q1)" and "length bs \<le> nat n"
    and "k \<le> length (contents q) + length bs"
  shows "\<exists>q2 q3 out. put q1 bs = Some q2 \<and> peek q2 = Some out \<and> consume q2 (int k) = Some q3 \<and>
    invar q3 \<and> take k out @ contents q3 = contents q @ bs"
proof -
  have q1: "invar q1" "contents q1 = contents q"
    using room_contents [OF assms(1,2)] by simp_all
  obtain q2 where q2: "put q1 bs = Some q2" "invar q2" "contents q2 = contents q @ bs"
    using room_put [OF assms(1-3)] q1(2) by auto
  obtain q3 where q3: "consume q2 (int k) = Some q3" "invar q3" "contents q3 = drop k (contents q2)"
    using consume_contents [OF q2(2), of k] assms(4) q2(3) by auto
  have "peek q2 = Some (contents q2)"
    using q2(2) by (rule peek_contents)
  with q2 q3 show ?thesis by (intro exI [of _ q2] exI [of _ q3]) (simp add: append_take_drop_id flip: q2(3))
qed

end

lemma buf_room_ok:
  assumes "buf_ok c" and "buf_room c = Some (n, c')"
  shows "buf_ok c'" and "pending c' = pending c" and "to_send_size c' = to_send_size c"
    and "n = int TO_SEND_SIZE - int (to_send_beg c') - int (unat (to_send_size c'))"
    and "c' = c\<lparr>to_send := to_send c', to_send_beg := to_send_beg c'\<rparr>"
proof -
  have "buf_ok c' \<and> pending c' = pending c \<and> to_send_size c' = to_send_size c \<and>
      n = int TO_SEND_SIZE - int (to_send_beg c') - int (unat (to_send_size c')) \<and>
      c' = c\<lparr>to_send := to_send c', to_send_beg := to_send_beg c'\<rparr>"
  proof (cases "16384 - int (to_send_beg c) - int (unat (to_send_size c)) < 32")
    case True
    then have "buf_compact c = Some c'" "n = buf_rem_size_front c'"
      using assms by (auto simp: buf_room_def buf_rem_size_ok bind_some)
    with assms(1) show ?thesis
      using buf_compact_ok [OF assms(1), of c'] by (auto simp: buf_rem_size_front_ok TO_SEND_SIZE_eq)
  next
    case False
    with assms show ?thesis
      by (auto simp: buf_room_def buf_rem_size_ok bind_some TO_SEND_SIZE_eq)
  qed
  then show "buf_ok c'" "pending c' = pending c" "to_send_size c' = to_send_size c"
    "n = int TO_SEND_SIZE - int (to_send_beg c') - int (unat (to_send_size c'))"
    "c' = c\<lparr>to_send := to_send c', to_send_beg := to_send_beg c'\<rparr>"
    by blast+
qed

interpretation hq: byte_queue pending buf_ok buf_room buf_put buf_data buf_consume
proof unfold_locales
  fix c c' :: echo_client_h and n :: int
  assume c: "buf_ok c" and r: "buf_room c = Some (n, c')"
  show "buf_ok c' \<and> pending c' = pending c"
    using buf_room_ok [OF c r] by blast
  show "0 \<le> n"
    using buf_room_ok(1,4) [OF c r] by (simp add: buf_ok_def)
  show "\<exists>c''. buf_put c' bs = Some c'' \<and> buf_ok c'' \<and> pending c'' = pending c' @ bs"
    if "length bs \<le> nat n" for bs
  proof -
    have "to_send_beg c' + unat (to_send_size c') + length bs \<le> TO_SEND_SIZE"
      using buf_room_ok(1,4) [OF c r] that unfolding buf_ok_def by linarith
    with buf_room_ok(1) [OF c r] show ?thesis
      using buf_put_ok [of c' bs] by blast
  qed
next
  fix c :: echo_client_h
  assume "buf_ok c"
  then show "buf_data c = Some (pending c)"
    by (rule buf_data_ok)
next
  fix c :: echo_client_h and k
  assume "buf_ok c" and "k \<le> length (pending c)"
  then show "\<exists>c'. buf_consume c (int k) = Some c' \<and> buf_ok c' \<and> pending c' = drop k (pending c)"
    using buf_consume_ok [of c k] by auto
qed

section \<open>Sending, as both files write it\<close>

text \<open>
  The end of the receive callback: try to send what is pending; if it does not all go,
  start the send watcher. \<open>del\<close> is the file's own \<open>echo_client_del\<close>.
\<close>

definition honest_flush ::
  "(ptr \<Rightarrow> (echo_client_h, 's, 'z) world_scheme \<Rightarrow> (int \<times> (echo_client_h, 's, 'z) world_scheme) option)
     \<Rightarrow> echo_client_h env \<Rightarrow> loop \<Rightarrow> int \<Rightarrow> ptr \<Rightarrow> (echo_client_h, 's, 'z) world_scheme
     \<Rightarrow> (echo_client_h, 's, 'z) world_scheme option" where
  "honest_flush del E lp fd p w = do {
     c \<leftarrow> load p w;
     data \<leftarrow> buf_data c;
     let (sent_nb, w) = aux_unix_send E fd data w;
     if sent_nb < 0 then
       if errno w = EAGAIN then Some (ev_io_start lp (Member (Heap p) Wev_send) w)
       else do {
         let w = c_fprintf (ln ''send error fd=%d (%d: %s)'')
               [A_int fd, A_strerror (errno w), A_strerror (errno w)] w;
         (_, w) \<leftarrow> del p w;
         Some w
       }
     else do {
       c \<leftarrow> buf_consume c sent_nb;
       w \<leftarrow> store p c w;
       if 0 < to_send_size c then Some (ev_io_start lp (Member (Heap p) Wev_send) w)
       else Some w
     }
   }"

text \<open>The callback of the send watcher: it is stopped once nothing is pending.\<close>

definition honest_send ::
  "(ptr \<Rightarrow> (echo_client_h, 's, 'z) world_scheme \<Rightarrow> (int \<times> (echo_client_h, 's, 'z) world_scheme) option)
     \<Rightarrow> echo_client_h env \<Rightarrow> loop \<Rightarrow> watcher \<Rightarrow> revent set \<Rightarrow> (echo_client_h, 's, 'z) world_scheme
     \<Rightarrow> (echo_client_h, 's, 'z) world_scheme option" where
  "honest_send del E lp wt tev w = do {
     ob \<leftarrow> aux_memberof Wev_send wt;
     p \<leftarrow> heap_ptr ob;
     c \<leftarrow> load p w;
     let fd = io_fd (h_wev_send c);
     data \<leftarrow> buf_data c;
     let (sent_nb, w) = aux_unix_send E fd data w;
     if sent_nb < 0 then
       if errno w = EAGAIN then Some w
       else do {
         let w = c_fprintf (ln ''send error fd=%d (%d: %s)'')
               [A_int fd, A_strerror (errno w), A_strerror (errno w)] w;
         (_, w) \<leftarrow> del p w;
         Some w
       }
     else do {
       c \<leftarrow> buf_consume c sent_nb;
       w \<leftarrow> store p c w;
       if 0 < to_send_size c then Some w
       else Some (ev_io_stop lp (Member (Heap p) Wev_send) w)
     }
   }"

section \<open>The invariant of a connection\<close>

definition h_fd :: "echo_client_h \<Rightarrow> int option" where
  "h_fd c = Some (io_fd (h_wev_recv c))"

text \<open>
  What was received on the descriptor is what was sent on it followed by what is
  pending: nothing is lost, added or reordered.
\<close>

definition h_stream :: "history \<Rightarrow> ptr \<Rightarrow> loop \<Rightarrow> echo_client_h \<Rightarrow> bool" where
  "h_stream h p l c \<longleftrightarrow>
     watching h p l \<and> registered h (Member (Heap p) Wev_send) = Some Wcb_send \<and> buf_ok c \<and>
     io_fd (h_wev_send c) = io_fd (h_wev_recv c) \<and>
     tm_repeat (h_wev_timeout c) = SOCKET_TIMEOUT \<and>
     recvd h (io_fd (h_wev_recv c)) = sent h (io_fd (h_wev_recv c)) @ pending c"

text \<open>While bytes are pending the send watcher is active, so they are not forgotten.\<close>

definition honest_ok :: "history \<Rightarrow> ptr \<Rightarrow> echo_client_h \<Rightarrow> bool" where
  "honest_ok h p c \<longleftrightarrow> (\<exists>l. h_stream h p l c \<and>
     (to_send_size c \<noteq> 0 \<longrightarrow> active h l (Member (Heap p) Wev_send)))"

lemma h_stream_ext:
  assumes "h_stream h p l c" and "ext Os F h h'" and "Heap p \<notin> Os"
    and "io_fd (h_wev_recv c) \<notin> F"
  shows "h_stream h' p l c"
  using assms watching_ext [of h p l Os F h'] registered_ext [of Os F h h' "Member (Heap p) Wev_send"]
  by (simp add: h_stream_def recvd_ext sent_ext)

lemma honest_ok_ext:
  assumes "honest_ok h p c" and "ext Os F h h'" and "Heap p \<notin> Os"
    and "\<And>fd. h_fd c = Some fd \<Longrightarrow> fd \<notin> F"
  shows "honest_ok h' p c"
proof -
  have "active h' l (Member (Heap p) Wev_send) = active h l (Member (Heap p) Wev_send)" for l
    using assms(2,3) by (auto intro!: active_ext)
  with assms show ?thesis
    unfolding honest_ok_def by (auto simp: h_fd_def intro: h_stream_ext)
qed

lemma honest_ok_new_loop: "honest_ok h p c \<Longrightarrow> honest_ok (Ev_new_loop l # h) p c"
  by (simp add: honest_ok_def h_stream_def)

lemma h_stream_unique: "h_stream h p l c \<Longrightarrow> h_stream h p l' c \<Longrightarrow> l' = l"
  unfolding h_stream_def watching_def by blast

lemma honest_okD:
  assumes "honest_ok h p c" and "active h l (Member (Heap p) m)"
  shows "h_stream h p l c" and "to_send_size c \<noteq> 0 \<Longrightarrow> active h l (Member (Heap p) Wev_send)"
proof -
  from assms(1) obtain l' where l': "h_stream h p l' c"
    "to_send_size c \<noteq> 0 \<longrightarrow> active h l' (Member (Heap p) Wev_send)"
    unfolding honest_ok_def by blast
  moreover from l'(1) assms(2) have "l = l'"
    unfolding h_stream_def by (auto dest: watchingD)
  ultimately show "h_stream h p l c" "to_send_size c \<noteq> 0 \<Longrightarrow> active h l (Member (Heap p) Wev_send)"
    by simp_all
qed

text \<open>The invariant in terms of the watchers.\<close>

lemma honest_ok_watchers:
  assumes "honest_ok h p c"
  shows "\<exists>l. active h l (Member (Heap p) Wev_recv) \<and> active h l (Member (Heap p) Wev_timeout) \<and>
    (pending c \<noteq> [] \<longrightarrow> active h l (Member (Heap p) Wev_send)) \<and>
    (\<forall>l' m. active h l' (Member (Heap p) m) \<longrightarrow>
       l' = l \<and> m \<in> {Wev_recv, Wev_send, Wev_timeout} \<and> registered h (Member (Heap p) m) = Some (cb_of m))"
proof -
  obtain l where str: "h_stream h p l c" and send: "to_send_size c \<noteq> 0 \<longrightarrow> active h l (Member (Heap p) Wev_send)"
    using assms unfolding honest_ok_def by blast
  from str have wat: "watching h p l" and "registered h (Member (Heap p) Wev_send) = Some Wcb_send"
    by (simp_all add: h_stream_def)
  moreover from wat have "registered h (Member (Heap p) Wev_recv) = Some Wcb_recv"
    "registered h (Member (Heap p) Wev_timeout) = Some Wcb_timeout"
    by (simp_all add: watching_def)
  ultimately have "l' = l \<and> m \<in> {Wev_recv, Wev_send, Wev_timeout} \<and>
      registered h (Member (Heap p) m) = Some (cb_of m)" if "active h l' (Member (Heap p) m)" for l' m
    using watching_only [OF wat that] by (elim conjE disjE) simp_all
  then show ?thesis
    using send watchingD(2,3) [OF wat] unfolding pending_eq_Nil by blast
qed

section \<open>Proofs shared by the two servers\<close>

lemma honest_members:
  assumes inv: "ginv h_fd lfd_of {} honest_ok w" and act: "active (hist w) l (Member (Heap p) m)"
  shows "\<exists>c. heap w p = Some c \<and> (m = Wev_recv \<or> m = Wev_timeout \<or> m = Wev_send)"
proof (cases "heap w p")
  case None
  with act ginv_dead [OF inv None] show ?thesis by (simp add: dead_def)
next
  case (Some c)
  with honest_okD(1) [OF ginv_cok [OF inv Some] act] act show ?thesis
    by (auto simp: h_stream_def dest: watching_only)
qed

text \<open>
  The watchers libev can call back: the listener, and of each connection the receive, send
  and timeout watcher.
\<close>

lemma honest_watcher_cases [consumes 3, case_names accept recv send timeout]:
  assumes inv: "ginv h_fd lfd_of {} honest_ok w" and act: "active (hist w) l wt"
    and reg: "registered (hist w) wt = Some cb"
  obtains (accept) n s where "wt = Member (Stack n) Wev_accept" and "cb = Wcb_accept" and "servers w n = Some s"
  | (recv) p c where "wt = Member (Heap p) Wev_recv" and "cb = Wcb_recv" and "heap w p = Some c"
  | (send) p c where "wt = Member (Heap p) Wev_send" and "cb = Wcb_send" and "heap w p = Some c"
  | (timeout) p c where "wt = Member (Heap p) Wev_timeout" and "cb = Wcb_timeout" and "heap w p = Some c"
proof (cases wt)
  case (Member ob m)
  have cb: "cb = cb_of m"
    using ginv_registered [OF inv reg] Member by simp
  show thesis
  proof (cases ob)
    case (Heap p)
    with act Member honest_members [OF inv, of l p m] cb show thesis
      by (auto intro: that)
  next
    case (Stack n)
    with act Member ginv_stack [OF inv, of l n m] cb show thesis
      by (auto intro: that(1))
  next
    case Global
    with act Member ginv_global [OF inv, of l m] show thesis by simp
  qed
qed

text \<open>The state after \<open>send\<close> failed, and after it took \<open>k\<close> bytes that are then consumed.\<close>

lemma stream_send_error:
  assumes "on_conn p fd c w0 w" and "io_fd (h_wev_recv c) = fd" and "h_stream (hist w) p l c"
  shows "on_conn p fd c w0 (w\<lparr>hist := Send fd bs (Inl e) # hist w, errno := e\<rparr>)"
    and "h_stream (Send fd bs (Inl e) # hist w) p l c"
  using assms on_conn_call [OF assms(1), of "Send fd bs (Inl e)"]
  by (simp_all add: on_conn_def h_stream_def quiet_def about_def ev_fd_def init_ok_def)

lemma stream_sent:
  assumes on: "on_conn p fd c w0 w" and fd: "io_fd (h_wev_recv c) = fd"
    and str: "h_stream (hist w) p l c" and k: "k \<le> length (pending c)"
  obtains c' where "buf_consume c (int k) = Some c'" and "io_fd (h_wev_recv c') = fd"
    and "on_conn p fd c' w0 (w\<lparr>hist := Send fd (pending c) (Inr k) # hist w,
        heap := (heap w)(p := Some c')\<rparr>)"
    and "h_stream (Send fd (pending c) (Inr k) # hist w) p l c'"
proof -
  have b: "buf_ok c" using str by (simp add: h_stream_def)
  then obtain c' where c': "buf_consume c (int k) = Some c'" "buf_ok c'"
      "pending c' = drop k (pending c)"
    and upd: "c' = c\<lparr>to_send_beg := to_send_beg c + k,
        to_send_size := to_send_size c - word_of_nat k\<rparr>"
    using buf_consume_ok [OF b, of k] k by auto
  have io: "h_wev_recv c' = h_wev_recv c" "h_wev_send c' = h_wev_send c"
    "h_wev_timeout c' = h_wev_timeout c"
    by (subst upd, simp)+
  have "on_conn p fd c' w0 (w\<lparr>hist := Send fd (pending c) (Inr k) # hist w,
      heap := (heap w)(p := Some c')\<rparr>)"
    using on_conn_store [OF on_conn_call [OF on, of "Send fd (pending c) (Inr k)"], of c']
    by (simp add: quiet_def about_def ev_fd_def init_ok_def)
  moreover have "h_stream (Send fd (pending c) (Inr k) # hist w) p l c'"
    using str c' k by (simp add: h_stream_def fd io flip: append.assoc)
  ultimately show thesis
    using c'(1) fd io by (intro that) simp_all
qed

text \<open>Making room and receiving.\<close>

lemma buf_fill_Nil: "buf_ok c \<Longrightarrow> buf_fill c [] = Some c"
  by (simp add: buf_fill_def buf_ok_def bind_some nat_int_add)

lemma stream_print:
  assumes "on_conn p fd c w0 w" and "h_stream (hist w) p l c"
  shows "on_conn p fd c w0 (c_fprintf f as w)" and "h_stream (hist (c_fprintf f as w)) p l c"
    and "loop (c_fprintf f as w) = loop w"
  using assms on_conn_call [OF assms(1), of "Fprintf f as"]
  by (simp_all add: c_fprintf_def emit_def h_stream_def quiet_def about_def ev_fd_def init_ok_def)

lemma stream_compact:
  assumes on: "on_conn p fd c w0 w" and str: "h_stream (hist w) p l c" and fd: "io_fd (h_wev_recv c) = fd"
    and c': "buf_compact c = Some c'"
  shows "on_conn p fd c' w0 (w\<lparr>heap := (heap w)(p := Some c')\<rparr>)" and "h_stream (hist w) p l c'"
    and "io_fd (h_wev_recv c') = fd"
proof -
  have b: "buf_ok c" using str by (simp add: h_stream_def)
  note k = buf_compact_ok [OF b c']
  have io: "h_wev_recv c' = h_wev_recv c" "h_wev_send c' = h_wev_send c"
    "h_wev_timeout c' = h_wev_timeout c"
    by (subst k(5), simp)+
  show "on_conn p fd c' w0 (w\<lparr>heap := (heap w)(p := Some c')\<rparr>)"
    using on by (rule on_conn_store)
  show "h_stream (hist w) p l c'" and "io_fd (h_wev_recv c') = fd"
    using str fd k(1,2) by (simp_all add: h_stream_def io)
qed

lemma stream_recv [consumes 6, case_names error data]:
  assumes ok: "env_ok E" and rcv: "aux_unix_recv E fd (word_of_int rem) w = Some (nb, bs, w1)"
    and on: "on_conn p fd c w0 w" and fd: "io_fd (h_wev_recv c) = fd"
    and str: "h_stream (hist w) p l c"
    and rem: "rem = int TO_SEND_SIZE - int (to_send_beg c) - int (unat (to_send_size c))"
  obtains (error) e where "nb = -1" and "bs = []" and "e \<noteq> EINTR" and "errno w1 = e"
      and "on_conn p fd c w0 w1" and "h_stream (hist w1) p l c" and "loop w1 = loop w"
      and "heap w1 p = Some c" and "buf_fill c bs = Some c"
      and "\<forall>l' wt. active (hist w1) l' wt = active (hist w) l' wt"
  | (data) c1 where "nb = int (length bs)" and "buf_fill c bs = Some c1"
      and "io_fd (h_wev_recv c1) = fd"
      and "on_conn p fd c1 w0 (w1\<lparr>heap := (heap w1)(p := Some c1)\<rparr>)"
      and "h_stream (hist w1) p l (buf_grow c1 nb)" and "loop w1 = loop w"
      and "heap w1 p = Some c" and "to_send_size c1 = to_send_size c"
      and "\<forall>l' wt. active (hist w1) l' wt = active (hist w) l' wt"
proof -
  have b: "buf_ok c" using str by (simp add: h_stream_def)
  have rem': "0 \<le> rem" "rem \<le> 16384"
    using b by (simp_all add: rem buf_ok_def TO_SEND_SIZE_eq)
  then have n: "unat (word_of_int rem :: size_t) = nat rem"
    by (simp add: unat_size_of_int)
  with rem' have lt: "unat (word_of_int rem :: size_t) < 2 ^ 31" by simp
  show thesis
    using ok lt rcv
  proof (cases rule: aux_unix_recv_cases)
    case (error k e)
    with str have "h_stream (hist w1) p l c"
      by (simp add: h_stream_def)
    moreover have "on_conn p fd c w0 w1"
      unfolding error(6) using on by (rule on_conn_recv)
    ultimately show thesis
      using error b by (intro that(1) [of e]) (simp_all add: buf_fill_Nil on_conn_heap [OF on])
  next
    case (data k e)
    then have "to_send_beg c + unat (to_send_size c) + length bs \<le> TO_SEND_SIZE"
      using rem' n rem by linarith
    with b obtain c2 where "buf_put c bs = Some c2" and c2: "buf_ok c2" "pending c2 = pending c @ bs"
      and upd: "c2 = c\<lparr>to_send := to_send c2,
          to_send_size := to_send_size c + word_of_int (int (length bs))\<rparr>"
      using buf_put_ok by blast
    then obtain c1 where c1: "buf_fill c bs = Some c1" "c2 = buf_grow c1 nb"
      using data(4) by (auto simp: buf_put_def bind_some)
    have io: "h_wev_recv c2 = h_wev_recv c" "h_wev_send c2 = h_wev_send c"
      "h_wev_timeout c2 = h_wev_timeout c"
      by (subst upd, simp)+
    have "io_fd (h_wev_recv c1) = fd"
      using io(1) fd by (simp add: c1(2) buf_grow_def)
    moreover have "to_send_size c1 = to_send_size c"
      using c1(1) by (auto simp: buf_fill_def bind_some)
    moreover have "h_stream (hist w1) p l c2"
      using str c2 data(5) by (simp add: h_stream_def io fd)
    moreover have "on_conn p fd c1 w0 (w1\<lparr>heap := (heap w1)(p := Some c1)\<rparr>)"
      unfolding data(5) using on by (intro on_conn_store on_conn_recv)
    ultimately show thesis
      using data c1 by (intro that(2) [of c1]) (simp_all add: on_conn_heap [OF on])
  qed
qed

lemma honest_ok_start_send:
  "h_stream h p l c \<Longrightarrow> honest_ok (Ev_io_start l (Member (Heap p) Wev_send) # h) p c"
  unfolding honest_ok_def by (rule exI [of _ l]) (simp add: h_stream_def)

lemma honest_ok_stop_send:
  "h_stream h p l c \<Longrightarrow> to_send_size c = 0 \<Longrightarrow>
     honest_ok (Ev_io_stop l (Member (Heap p) Wev_send) # h) p c"
  unfolding honest_ok_def by (rule exI [of _ l]) (simp add: h_stream_def)

lemma honest_okI:
  "h_stream h p l c \<Longrightarrow> (to_send_size c \<noteq> 0 \<Longrightarrow> active h l (Member (Heap p) Wev_send)) \<Longrightarrow>
     honest_ok h p c"
  unfolding honest_ok_def by blast

text \<open>What a deleted connection leaves behind.\<close>

definition deleted ::
  "ptr \<Rightarrow> int \<Rightarrow> (echo_client_h, 's, 'z) world_scheme \<Rightarrow> (echo_client_h, 's, 'z) world_scheme \<Rightarrow> bool" where
  "deleted p fd w w' \<longleftrightarrow> heap w' = (heap w)(p := None) \<and> \<not> open_fd (hist w') fd \<and>
     recvd (hist w') = recvd (hist w) \<and> sent (hist w') = sent (hist w) \<and>
     rearms (hist w') = rearms (hist w) \<and> servers w' = servers w"

text \<open>The contract of \<open>echo_client_del\<close> towards the callbacks that call it in the middle of their work.\<close>

locale honest_deleter =
  fixes del :: "ptr \<Rightarrow> (echo_client_h, 's) world \<Rightarrow> (int \<times> (echo_client_h, 's) world) option"
    and lfd_of :: "'s \<Rightarrow> int"
  assumes del_local: "ginv h_fd lfd_of {} honest_ok w0 \<Longrightarrow> heap w0 p = Some c0 \<Longrightarrow>
      h_fd c0 = Some fd \<Longrightarrow> on_conn p fd c w0 w \<Longrightarrow> io_fd (h_wev_recv c) = fd \<Longrightarrow>
      watching (hist w) p (loop w) \<Longrightarrow>
      \<exists>w'. del p w = Some (0, w') \<and> local_step h_fd lfd_of honest_ok w0 w'"
    and del_effect: "heap w p = Some c \<Longrightarrow>
      \<exists>w'. del p w = Some (0, w') \<and> deleted p (io_fd (h_wev_recv c)) w w'"
begin

lemma del_print_effect:
  assumes "heap w p = Some c" and "io_fd (h_wev_recv c) = fd"
  shows "\<exists>w'. (del p (c_fprintf f as w) \<bind> (\<lambda>(_, w). Some w)) = Some w' \<and> deleted p fd w w'"
proof -
  have "heap (c_fprintf f as w) p = Some c"
    using assms(1) by (simp add: c_fprintf_def emit_def)
  from del_effect [OF this] assms(2) obtain w' where
    "del p (c_fprintf f as w) = Some (0, w')" "deleted p fd (c_fprintf f as w) w'" by auto
  then show ?thesis
    by (auto simp: deleted_def c_fprintf_def emit_def fun_eq_iff)
qed

text \<open>
  What sending does, by the reply of the kernel: some prefix of the pending bytes goes
  out and the watcher runs while bytes are left; or nothing changes; or the connection
  is closed.
\<close>

lemma flush_outcome:
  assumes ok: "env_ok E" and c: "heap w p = Some c" and b: "buf_ok c"
    and fd: "io_fd (h_wev_recv c) = fd"
  shows "\<exists>w'. honest_flush del E lp fd p w = Some w' \<and> recvd (hist w') = recvd (hist w) \<and>
    rearms (hist w') = rearms (hist w) \<and>
    (case e_send E (hist w) fd (pending c) of
       Inr k \<Rightarrow> \<exists>c'. heap w' = (heap w)(p := Some c') \<and> pending c' = drop k (pending c) \<and>
         sent (hist w') fd = sent (hist w) fd @ take k (pending c) \<and>
         (k < length (pending c) \<longrightarrow> active (hist w') lp (Member (Heap p) Wev_send))
     | Inl e \<Rightarrow> sent (hist w') fd = sent (hist w) fd \<and>
         (if e = EAGAIN then heap w' = heap w \<and> active (hist w') lp (Member (Heap p) Wev_send)
          else heap w' = (heap w)(p := None) \<and> \<not> open_fd (hist w') fd))"
proof -
  have len: "length (pending c) < 2 ^ 31"
    using b by (simp add: buf_ok_def TO_SEND_SIZE_eq)
  note run = honest_flush_def load_def store_def c buf_data_ok [OF b] call_defs fun_eq_iff
  show ?thesis
    using ok len
  proof (cases rule: aux_unix_send_cases [where w = w and fd = fd])
    case (error e)
    let ?w1 = "w\<lparr>hist := Send fd (pending c) (Inl e) # hist w, errno := e\<rparr>"
    show ?thesis
    proof (cases "e = EAGAIN")
      case False
      have "heap ?w1 p = Some c" using c by simp
      from del_print_effect [OF this fd] False error show ?thesis
        by (fastforce simp: honest_flush_def load_def c buf_data_ok [OF b] deleted_def)
    qed (use error in \<open>simp add: run\<close>)
  next
    case (sent k)
    from buf_consume_ok [OF b, of k] sent(2) obtain c' where c': "buf_consume c (int k) = Some c'"
      "pending c' = drop k (pending c)" by auto
    then have "0 < to_send_size c' \<longleftrightarrow> k < length (pending c)"
      using pending_eq_Nil [of c'] by (auto simp: word_gt_0)
    with sent c' show ?thesis by (simp add: run)
  qed
qed

lemma send_outcome:
  assumes ok: "env_ok E" and c: "heap w p = Some c" and b: "buf_ok c"
    and fd: "io_fd (h_wev_recv c) = fd" "io_fd (h_wev_send c) = fd"
  shows "\<exists>w'. honest_send del E lp (Member (Heap p) Wev_send) tev w = Some w' \<and>
    recvd (hist w') = recvd (hist w) \<and> rearms (hist w') = rearms (hist w) \<and>
    (case e_send E (hist w) fd (pending c) of
       Inr k \<Rightarrow> \<exists>c'. heap w' = (heap w)(p := Some c') \<and> pending c' = drop k (pending c) \<and>
         io_fd (h_wev_recv c') = fd \<and>
         sent (hist w') fd = sent (hist w) fd @ take k (pending c) \<and>
         (active (hist w') lp (Member (Heap p) Wev_send) \<longleftrightarrow>
            active (hist w) lp (Member (Heap p) Wev_send) \<and> k < length (pending c))
     | Inl e \<Rightarrow> sent (hist w') fd = sent (hist w) fd \<and>
         (if e = EAGAIN then heap w' = heap w \<and> active (hist w') lp = active (hist w) lp
          else heap w' = (heap w)(p := None) \<and> \<not> open_fd (hist w') fd))"
proof -
  have len: "length (pending c) < 2 ^ 31"
    using b by (simp add: buf_ok_def TO_SEND_SIZE_eq)
  note run = honest_send_def load_def store_def c buf_data_ok [OF b] fd call_defs fun_eq_iff
  show ?thesis
    using ok len
  proof (cases rule: aux_unix_send_cases [where w = w and fd = fd])
    case (error e)
    let ?w1 = "w\<lparr>hist := Send fd (pending c) (Inl e) # hist w, errno := e\<rparr>"
    show ?thesis
    proof (cases "e = EAGAIN")
      case False
      have "heap ?w1 p = Some c" using c by simp
      from del_print_effect [OF this fd(1)] False error show ?thesis
        by (fastforce simp: honest_send_def load_def c fd buf_data_ok [OF b] deleted_def)
    qed (use error in \<open>simp add: run\<close>)
  next
    case (sent k)
    from buf_consume_ok [OF b, of k] sent(2) obtain c' where c': "buf_consume c (int k) = Some c'"
      "pending c' = drop k (pending c)" "io_fd (h_wev_recv c') = fd" using fd(1) by auto
    then have "0 < to_send_size c' \<longleftrightarrow> k < length (pending c)"
      using pending_eq_Nil [of c'] by (auto simp: word_gt_0)
    with sent c' show ?thesis by (simp add: run)
  qed
qed

lemma del_after_print:
  assumes "ginv h_fd lfd_of {} honest_ok w0" and "heap w0 p = Some c0" and "h_fd c0 = Some fd"
    and "on_conn p fd c w0 w" and "io_fd (h_wev_recv c) = fd" and "watching (hist w) p (loop w)"
  shows "\<exists>w'. del p (c_fprintf f as w) = Some (0, w') \<and> local_step h_fd lfd_of honest_ok w0 w'"
proof -
  have "on_conn p fd c w0 (c_fprintf f as w)"
    unfolding c_fprintf_def emit_def using assms(4)
    by (rule on_conn_call) (simp_all add: quiet_def about_def ev_fd_def init_ok_def)
  moreover have "watching (hist (c_fprintf f as w)) p (loop (c_fprintf f as w))"
    using assms(6) by (simp add: c_fprintf_def emit_def)
  ultimately show ?thesis
    using assms(1-3,5) by (intro del_local [of w0 p c0 fd c])
qed

lemma del_tail:
  assumes "ginv h_fd lfd_of {} honest_ok w0" and "heap w0 p = Some c0" and "h_fd c0 = Some fd"
    and "on_conn p fd c w0 w" and "io_fd (h_wev_recv c) = fd" and "watching (hist w) p (loop w)"
  shows "\<exists>w'. (del p (c_fprintf f as w) \<bind> (\<lambda>(_, w). Some w)) = Some w' \<and>
    local_step h_fd lfd_of honest_ok w0 w'"
  using del_after_print [OF assms, of f as] by auto

text \<open>A callback that ends with one libev call about the send watcher, or with none.\<close>

lemma keep_after:
  assumes inv: "ginv h_fd lfd_of {} honest_ok w0" and c0: "heap w0 p = Some c0" "h_fd c0 = Some fd"
    and on: "on_conn p fd c w0 w" and fd: "io_fd (h_wev_recv c) = fd"
  shows "honest_ok (hist w) p c \<Longrightarrow> local_step h_fd lfd_of honest_ok w0 w"
    and "honest_ok (Ev_io_start l (Member (Heap p) m) # hist w) p c \<Longrightarrow>
      local_step h_fd lfd_of honest_ok w0 (ev_io_start l (Member (Heap p) m) w)"
    and "honest_ok (Ev_io_stop l (Member (Heap p) m) # hist w) p c \<Longrightarrow>
      local_step h_fd lfd_of honest_ok w0 (ev_io_stop l (Member (Heap p) m) w)"
    and "honest_ok (Ev_timer_again l (Member (Heap p) m) (tm_repeat tm) # hist w) p c \<Longrightarrow>
      local_step h_fd lfd_of honest_ok w0 (ev_timer_again l (Member (Heap p) m) tm w)"
  using inv c0 fd on on_conn_call [OF on, of "Ev_io_start l (Member (Heap p) m)"]
    on_conn_call [OF on, of "Ev_io_stop l (Member (Heap p) m)"]
    on_conn_call [OF on, of "Ev_timer_again l (Member (Heap p) m) (tm_repeat tm)"]
  by (auto intro!: on_conn_keep [of h_fd lfd_of "{}" honest_ok w0 p c0 fd c] simp: h_fd_def
      call_defs quiet_def about_def ev_fd_def init_ok_def)

lemma flush_local:
  assumes ok: "env_ok E" and inv: "ginv h_fd lfd_of {} honest_ok w0"
    and c0: "heap w0 p = Some c0" "h_fd c0 = Some fd"
    and on: "on_conn p fd c w0 w" and fd: "io_fd (h_wev_recv c) = fd"
    and str: "h_stream (hist w) p (loop w) c"
  shows "\<exists>w'. honest_flush del E (loop w) fd p w = Some w' \<and> local_step h_fd lfd_of honest_ok w0 w'"
proof -
  have b: "buf_ok c" using str by (simp add: h_stream_def)
  then have len: "length (pending c) < 2 ^ 31"
    by (simp add: buf_ok_def TO_SEND_SIZE_eq)
  note run = honest_flush_def load_def store_def on_conn_heap [OF on] buf_data_ok [OF b]
  show ?thesis
    using ok len
  proof (cases rule: aux_unix_send_cases [where w = w and fd = fd])
    case (error e)
    note err = stream_send_error [OF on fd str, where e = e and bs = "pending c"]
    show ?thesis
    proof (cases "e = EAGAIN")
      case True
      with keep_after(2) [OF inv c0 err(1) fd, of "loop w" Wev_send] err(2) error show ?thesis
        by (simp add: run honest_ok_start_send)
    next
      case False
      have "watching (Send fd (pending c) (Inl e) # hist w) p (loop w)"
        using err(2) by (simp add: h_stream_def)
      with del_tail [OF inv c0 err(1) fd] False error show ?thesis
        by (simp add: run)
    qed
  next
    case (sent k)
    obtain c' where c': "buf_consume c (int k) = Some c'" "io_fd (h_wev_recv c') = fd"
      and on': "on_conn p fd c' w0 (w\<lparr>hist := Send fd (pending c) (Inr k) # hist w,
        heap := (heap w)(p := Some c')\<rparr>)"
      and str': "h_stream (Send fd (pending c) (Inr k) # hist w) p (loop w) c'"
      using stream_sent [OF on fd str sent(2)] .
    show ?thesis
    proof (cases "to_send_size c' = 0")
      case True
      with keep_after(1) [OF inv c0 on' c'(2)] str' sent c'(1) show ?thesis
        by (simp add: run honest_okI)
    next
      case False
      with keep_after(2) [OF inv c0 on' c'(2), of "loop w" Wev_send] str' sent c'(1) show ?thesis
        by (simp add: run honest_ok_start_send word_gt_0)
    qed
  qed
qed

lemma send_local:
  assumes ok: "env_ok E" and inv: "ginv h_fd lfd_of {} honest_ok w"
    and act: "active (hist w) (loop w) (Member (Heap p) Wev_send)"
  shows "\<exists>w'. honest_send del E (loop w) (Member (Heap p) Wev_send) tev w = Some w' \<and>
    local_step h_fd lfd_of honest_ok w w'"
proof -
  obtain c where c: "heap w p = Some c"
    using ginv_dead [OF inv, of p] act by (auto simp: dead_def)
  define fd where "fd = io_fd (h_wev_recv c)"
  have c0: "heap w p = Some c" "h_fd c = Some fd"
    by (simp_all add: c fd_def h_fd_def)
  have str: "h_stream (hist w) p (loop w) c"
    using ginv_cok [OF inv c] act by (rule honest_okD)
  then have b: "buf_ok c" and fds: "io_fd (h_wev_send c) = fd"
    by (simp_all add: h_stream_def fd_def)
  then have len: "length (pending c) < 2 ^ 31"
    by (simp add: buf_ok_def TO_SEND_SIZE_eq)
  have on: "on_conn p fd c w w" by (rule on_conn_start [OF inv c0])
  have fd: "io_fd (h_wev_recv c) = fd" by (simp add: fd_def)
  note run = honest_send_def load_def store_def c buf_data_ok [OF b] fds Let_def
  show ?thesis
    using ok len
  proof (cases rule: aux_unix_send_cases [where w = w and fd = fd])
    case (error e)
    note err = stream_send_error [OF on fd str, where e = e and bs = "pending c"]
    show ?thesis
    proof (cases "e = EAGAIN")
      case True
      have "honest_ok (Send fd (pending c) (Inl e) # hist w) p c"
        using err(2) act by (intro honest_okI) simp_all
      with True keep_after(1) [OF inv c0 err(1) fd] error show ?thesis
        by (simp add: run)
    next
      case False
      have "watching (Send fd (pending c) (Inl e) # hist w) p (loop w)"
        using err(2) by (simp add: h_stream_def)
      with del_tail [OF inv c0 err(1) fd] False error show ?thesis
        by (simp add: run)
    qed
  next
    case (sent k)
    obtain c' where c': "buf_consume c (int k) = Some c'" "io_fd (h_wev_recv c') = fd"
      and on': "on_conn p fd c' w (w\<lparr>hist := Send fd (pending c) (Inr k) # hist w,
        heap := (heap w)(p := Some c')\<rparr>)"
      and str': "h_stream (Send fd (pending c) (Inr k) # hist w) p (loop w) c'"
      using stream_sent [OF on fd str sent(2)] .
    show ?thesis
    proof (cases "to_send_size c' = 0")
      case True
      with keep_after(3) [OF inv c0 on' c'(2), of "loop w" Wev_send] str' sent c'(1) show ?thesis
        by (simp add: run honest_ok_stop_send)
    next
      case False
      have "honest_ok (Send fd (pending c) (Inr k) # hist w) p c'"
        using str' act by (intro honest_okI) simp_all
      with False keep_after(1) [OF inv c0 on' c'(2)] sent c'(1) show ?thesis
        by (simp add: run word_gt_0)
    qed
  qed
qed

end

end
