(* ===== verification/HonestRecv.thy ===== *)
theory HonestRecv
  imports HonestClient EchoSpec
begin

text \<open>
  The receive callback of the two ``honest'' servers. The two differ in two places: what
  is printed while room is made (\<open>room\<close>) and what is done at the end of the stream (\<open>eof\<close>).
  The locale \<open>honest_receiver\<close> says what these two must keep and proves the callback
  correct once; each server's own definition is shown equal to \<open>honest_recv\<close>.
\<close>

definition honest_recv ::
  "(int \<Rightarrow> ptr \<Rightarrow> (echo_client_h, 's) world \<Rightarrow> (int \<times> (echo_client_h, 's) world) option)
     \<Rightarrow> (int \<Rightarrow> ptr \<Rightarrow> (echo_client_h, 's) world \<Rightarrow> (echo_client_h, 's) world option)
     \<Rightarrow> (ptr \<Rightarrow> (echo_client_h, 's) world \<Rightarrow> (int \<times> (echo_client_h, 's) world) option)
     \<Rightarrow> echo_client_h env \<Rightarrow> loop \<Rightarrow> watcher \<Rightarrow> (echo_client_h, 's) world
     \<Rightarrow> (echo_client_h, 's) world option" where
  "honest_recv room eof del E lp wt w = do {
     ob \<leftarrow> aux_memberof Wev_recv wt;
     p \<leftarrow> heap_ptr ob;
     c \<leftarrow> load p w;
     let fd = io_fd (h_wev_recv c);
     (rem_size, w) \<leftarrow> room fd p w;
     c \<leftarrow> load p w;
     (nb, data, w) \<leftarrow> aux_unix_recv E fd (word_of_int rem_size) w;
     c \<leftarrow> buf_fill c data;
     w \<leftarrow> store p c w;
     if nb < 0 then
       if errno w = EAGAIN then
         Some (ev_timer_again lp (Member (Heap p) Wev_timeout) (h_wev_timeout c) w)
       else do {
         let w = c_fprintf (ln ''recv error fd=%d (%d: %s)'')
               [A_int fd, A_strerror (errno w), A_strerror (errno w)] w;
         (_, w) \<leftarrow> del p w;
         Some w
       }
     else if nb = 0 then eof fd p w
     else do {
       w \<leftarrow> store p (buf_grow c nb) w;
       honest_flush del E lp fd p w
     }
   }"

text \<open>Two states between which a buffer was reorganised and lines were printed.\<close>

definition same_io :: "history \<Rightarrow> history \<Rightarrow> bool" where
  "same_io h h' \<longleftrightarrow> recvd h' = recvd h \<and> sent h' = sent h \<and> rearms h' = rearms h \<and> active h' = active h"

text \<open>What one call of \<open>send\<close> with all the pending bytes \<open>q\<close> does, by the reply of the kernel.\<close>

definition flushed ::
  "loop \<Rightarrow> ptr \<Rightarrow> int \<Rightarrow> byte list \<Rightarrow> errno + nat \<Rightarrow> (echo_client_h, 's) world \<Rightarrow> (echo_client_h, 's) world \<Rightarrow> bool" where
  "flushed l p fd q r w w' \<longleftrightarrow> (case r of
     Inr m \<Rightarrow> sent (hist w') fd = sent (hist w) fd @ take m q \<and>
       (\<exists>c'. heap w' = (heap w)(p := Some c') \<and> pending c' = drop m q \<and>
         (drop m q \<noteq> [] \<longrightarrow> active (hist w') l (Member (Heap p) Wev_send)))
   | Inl e \<Rightarrow> sent (hist w') fd = sent (hist w) fd \<and>
       (if e = EAGAIN then (\<exists>c'. heap w' = (heap w)(p := Some c') \<and> pending c' = q) \<and>
          active (hist w') l (Member (Heap p) Wev_send)
        else heap w' = (heap w)(p := None) \<and> \<not> open_fd (hist w') fd))"

locale honest_receiver = honest_deleter del lfd_of
  for del :: "ptr \<Rightarrow> (echo_client_h, 's) world \<Rightarrow> (int \<times> (echo_client_h, 's) world) option"
    and lfd_of :: "'s \<Rightarrow> int" +
  fixes room :: "int \<Rightarrow> ptr \<Rightarrow> (echo_client_h, 's) world \<Rightarrow> (int \<times> (echo_client_h, 's) world) option"
    and eof :: "int \<Rightarrow> ptr \<Rightarrow> (echo_client_h, 's) world \<Rightarrow> (echo_client_h, 's) world option"
  assumes room_stream: "on_conn p fd c w0 w \<Longrightarrow> h_stream (hist w) p l c \<Longrightarrow> io_fd (h_wev_recv c) = fd \<Longrightarrow>
      room fd p w = Some (rem, w1) \<Longrightarrow>
      \<exists>c1. on_conn p fd c1 w0 w1 \<and> h_stream (hist w1) p l c1 \<and> loop w1 = loop w \<and>
        io_fd (h_wev_recv c1) = fd \<and> pending c1 = pending c \<and> same_io (hist w) (hist w1) \<and>
        rem = int TO_SEND_SIZE - int (to_send_beg c1) - int (unat (to_send_size c1))"
    and room_None: "heap w p = Some c \<Longrightarrow> buf_ok c \<Longrightarrow> room fd p w = None \<longleftrightarrow>
      TO_SEND_SIZE < to_send_beg c + length (pending c) + 32 \<and>
      0 < to_send_beg c \<and> to_send_beg c < length (pending c)"
    and eof_local: "ginv h_fd lfd_of {} honest_ok w0 \<Longrightarrow> heap w0 p = Some c0 \<Longrightarrow> h_fd c0 = Some fd \<Longrightarrow>
      on_conn p fd c w0 w \<Longrightarrow> io_fd (h_wev_recv c) = fd \<Longrightarrow> h_stream (hist w) p (loop w) c \<Longrightarrow>
      honest_ok (hist w) p c \<Longrightarrow>
      \<exists>w'. eof fd p w = Some w' \<and> local_step h_fd lfd_of honest_ok w0 w'"
begin

lemma length_pending_same: "pending c1 = pending c \<Longrightarrow> to_send_size c1 = to_send_size c"
  using length_pending [of c1] length_pending [of c] by (simp add: word_unat_eq_iff)

lemma recv_local:
  assumes ok: "env_ok E" and inv: "ginv h_fd lfd_of {} honest_ok w"
    and act: "active (hist w) (loop w) (Member (Heap p) Wev_recv)"
    and c: "heap w p = Some c"
    and rm: "room (io_fd (h_wev_recv c)) p w = Some (rem, w1)"
    and rcv: "aux_unix_recv E (io_fd (h_wev_recv c)) (word_of_int rem) w1 = Some (nb, data, w2)"
  shows "\<exists>w'. honest_recv room eof del E (loop w) (Member (Heap p) Wev_recv) w = Some w' \<and>
    local_step h_fd lfd_of honest_ok w w'"
proof -
  define fd where "fd = io_fd (h_wev_recv c)"
  have c0: "heap w p = Some c" "h_fd c = Some fd"
    by (simp_all add: c fd_def h_fd_def)
  have "h_stream (hist w) p (loop w) c"
    using ginv_cok [OF inv c] act by (rule honest_okD)
  from room_stream [OF on_conn_start [OF inv c0] this fd_def [symmetric] rm [folded fd_def]]
  obtain c1 where on1: "on_conn p fd c1 w w1"
    and str1: "h_stream (hist w1) p (loop w) c1" and l1: "loop w1 = loop w"
    and fd1: "io_fd (h_wev_recv c1) = fd" and pend1: "pending c1 = pending c"
    and io1: "same_io (hist w) (hist w1)"
    and rem: "rem = int TO_SEND_SIZE - int (to_send_beg c1) - int (unat (to_send_size c1))"
    by blast
  have size1: "to_send_size c1 = to_send_size c"
    using pend1 by (rule length_pending_same)
  have send: "to_send_size c \<noteq> 0 \<Longrightarrow> active (hist w) (loop w) (Member (Heap p) Wev_send)"
    using ginv_cok [OF inv c] act by (rule honest_okD)
  note run = honest_recv_def load_def store_def c rm [folded fd_def]
    on_conn_heap [OF on1] fd_def [symmetric] Let_def
  have rcv': "aux_unix_recv E fd (word_of_int rem) w1 = Some (nb, data, w2)"
    using rcv by (simp add: fd_def)
  show ?thesis
    using ok rcv' on1 fd1 str1 rem
  proof (cases rule: stream_recv)
    case (error e)
    have same: "w2\<lparr>heap := (heap w2)(p := Some c1)\<rparr> = w2"
      using error(8) by (simp add: fun_upd_idem)
    show ?thesis
    proof (cases "e = EAGAIN")
      case True
      have "tm_repeat (h_wev_timeout c1) = SOCKET_TIMEOUT"
        using error(6) by (simp add: h_stream_def)
      moreover have "honest_ok (Ev_timer_again (loop w) (Member (Heap p) Wev_timeout) SOCKET_TIMEOUT
          # hist w2) p c1"
        using error(6,10) send io1 size1
        by (intro honest_okI [of _ _ "loop w"]) (simp_all add: h_stream_def same_io_def)
      ultimately show ?thesis
        using keep_after(4) [OF inv c0 error(5) fd1, of "loop w" Wev_timeout "h_wev_timeout c1"]
          error rcv' True by (simp add: run same)
    next
      case False
      have "watching (hist w2) p (loop w2)"
        using error(6,7) l1 by (simp add: h_stream_def)
      with del_tail [OF inv c0 error(5) fd1] error rcv' False show ?thesis
        by (simp add: run same)
    qed
  next
    case (data c2)
    let ?w3 = "w2\<lparr>heap := (heap w2)(p := Some c2)\<rparr>"
    show ?thesis
    proof (cases "nb = 0")
      case True
      have "buf_grow c2 nb = c2" using True by (simp add: buf_grow_def)
      then have str3: "h_stream (hist ?w3) p (loop ?w3) c2"
        using data(5,6) l1 by simp
      then have "honest_ok (hist ?w3) p c2"
        using data(6,8,9) l1 send io1 size1 by (intro honest_okI) (simp_all add: same_io_def)
      from eof_local [OF inv c0 data(4,3) str3 this] data rcv' True show ?thesis
        by (simp add: run)
    next
      case False
      let ?w4 = "?w3\<lparr>heap := (heap ?w3)(p := Some (buf_grow c2 nb))\<rparr>"
      have on4: "on_conn p fd (buf_grow c2 nb) w ?w4"
        using data(4) by (rule on_conn_store)
      have fd4: "io_fd (h_wev_recv (buf_grow c2 nb)) = fd"
        using data(3) by (simp add: buf_grow_def)
      have str4: "h_stream (hist ?w4) p (loop ?w4) (buf_grow c2 nb)"
        using data(5,6) l1 by simp
      from flush_local [OF ok inv c0 on4 fd4 str4] data rcv' False l1 show ?thesis
        by (simp add: run)
    qed
  qed
qed

text \<open>The callback has no undefined behaviour but that of making room.\<close>

lemma recv_None:
  assumes ok: "env_ok E" and ret: "recv_returns E" and inv: "ginv h_fd lfd_of {} honest_ok w"
    and act: "active (hist w) (loop w) (Member (Heap p) Wev_recv)" and c: "heap w p = Some c"
  shows "honest_recv room eof del E (loop w) (Member (Heap p) Wev_recv) w = None \<longleftrightarrow>
    TO_SEND_SIZE < to_send_beg c + length (pending c) + 32 \<and>
    0 < to_send_beg c \<and> to_send_beg c < length (pending c)"
proof -
  let ?fd = "io_fd (h_wev_recv c)"
  have str: "h_stream (hist w) p (loop w) c"
    using ginv_cok [OF inv c] act by (rule honest_okD)
  then have b: "buf_ok c" by (simp add: h_stream_def)
  note none = room_None [OF c b, of ?fd]
  show ?thesis
  proof (cases "room ?fd p w")
    case None
    with none show ?thesis by (simp add: honest_recv_def load_def c)
  next
    case (Some rw)
    then obtain rem w1 where rm: "room ?fd p w = Some (rem, w1)" by (cases rw) auto
    have c0: "h_fd c = Some ?fd" by (simp add: h_fd_def)
    obtain c1 where "h_stream (hist w1) p (loop w) c1"
      and rem: "rem = int TO_SEND_SIZE - int (to_send_beg c1) - int (unat (to_send_size c1))"
      using room_stream [OF on_conn_start [OF inv c c0] str refl rm] by blast
    then have "0 \<le> rem" "rem \<le> 16384" by (simp_all add: h_stream_def buf_ok_def TO_SEND_SIZE_eq)
    then have "unat (word_of_int rem :: size_t) < 2 ^ 31" by (simp add: unat_size_of_int)
    from aux_unix_recv_returns [OF ok ret this] obtain nb data w2 where
      "aux_unix_recv E ?fd (word_of_int rem) w1 = Some (nb, data, w2)" by blast
    from recv_local [OF ok inv act c rm this] none rm show ?thesis by auto
  qed
qed

text \<open>When \<open>recv\<close> gives 0 the callback does what the file does at the end of a stream.\<close>

lemma recv_eof:
  assumes inv: "ginv h_fd lfd_of {} honest_ok w"
    and act: "active (hist w) (loop w) (Member (Heap p) Wev_recv)" and c: "heap w p = Some c"
    and fd: "io_fd (h_wev_recv c) = fd" and rm: "room fd p w = Some (rem, w1)"
    and rcv: "e_recv E (hist w1) fd (word_of_int rem) = Inr []"
  obtains c1 w2 where "honest_recv room eof del E (loop w) (Member (Heap p) Wev_recv) w = eof fd p w2"
    and "on_conn p fd c1 w w2" and "io_fd (h_wev_recv c1) = fd" and "pending c1 = pending c"
    and "same_io (hist w) (hist w2)" and "h_stream (hist w2) p (loop w) c1"
proof -
  have c0: "heap w p = Some c" "h_fd c = Some fd" by (simp_all add: c fd h_fd_def)
  have "h_stream (hist w) p (loop w) c"
    using ginv_cok [OF inv c] act by (rule honest_okD)
  from room_stream [OF on_conn_start [OF inv c0] this fd rm] obtain c1
    where on1: "on_conn p fd c1 w w1" and str1: "h_stream (hist w1) p (loop w) c1"
      and fd1: "io_fd (h_wev_recv c1) = fd" "pending c1 = pending c" and io: "same_io (hist w) (hist w1)" by blast
  let ?w2 = "w1\<lparr>hist := Recv fd (word_of_int rem) (Inr []) # hist w1\<rparr>"
  have b1: "buf_ok c1" using str1 by (simp add: h_stream_def)
  have hp: "heap w1 p = Some c1" using on1 by (rule on_conn_heap)
  have same: "?w2\<lparr>heap := (heap w1)(p := Some c1)\<rparr> = ?w2" using hp by (simp add: fun_upd_idem)
  have "aux_unix_recv E fd (word_of_int rem) w1 = Some (0, [], ?w2)"
    using recv_data [OF rcv] by simp
  then have "honest_recv room eof del E (loop w) (Member (Heap p) Wev_recv) w = eof fd p ?w2"
    using rm hp same by (simp add: honest_recv_def load_def store_def c fd buf_fill_Nil [OF b1])
  moreover have "on_conn p fd c1 w ?w2"
    using on1 by (rule on_conn_call) (simp_all add: quiet_def about_def ev_fd_def init_ok_def)
  moreover have "same_io (hist w) (hist ?w2)" using io by (simp add: same_io_def fun_eq_iff)
  moreover have "h_stream (hist ?w2) p (loop w) c1" using str1 by (simp add: h_stream_def)
  ultimately show thesis by (intro that [OF _ _ fd1])
qed

text \<open>
  What the callback does, by the reply to the first \<open>recv\<close> that is not interrupted. On an
  error it waits, the timer put back to its full interval, or closes; on 0 bytes it does what
  the file does at the end of a stream; on data it sends what is pending, and the reply to
  \<open>send\<close> says what is kept.
\<close>

lemma recv_replies:
  assumes ok: "env_ok E" and inv: "ginv h_fd lfd_of {} honest_ok w"
    and act: "active (hist w) (loop w) (Member (Heap p) Wev_recv)" and c: "heap w p = Some c"
    and fd: "io_fd (h_wev_recv c) = fd" and rm: "room fd p w = Some (rem, w1)" and n: "n = word_of_int rem"
    and run: "honest_recv room eof del E (loop w) (Member (Heap p) Wev_recv) w = Some w'"
  shows "\<exists>k. (\<forall>j<k. e_recv E (interrupted j fd n (hist w1)) fd n = Inl EINTR) \<and>
    (case e_recv E (interrupted k fd n (hist w1)) fd n of
       Inl e \<Rightarrow> e \<noteq> EINTR \<and> recvd (hist w') = recvd (hist w) \<and> sent (hist w') = sent (hist w) \<and>
         (if e = EAGAIN then (\<exists>c'. heap w' = (heap w)(p := Some c') \<and> pending c' = pending c) \<and>
            rearms (hist w') (Member (Heap p) Wev_timeout) = Suc (rearms (hist w) (Member (Heap p) Wev_timeout))
          else heap w' = (heap w)(p := None) \<and> \<not> open_fd (hist w') fd)
     | Inr bs \<Rightarrow>
         if bs = [] then \<exists>c1 w2. eof fd p w2 = Some w' \<and> heap w2 = (heap w)(p := Some c1) \<and>
           pending c1 = pending c \<and> same_io (hist w) (hist w2) \<and> io_fd (h_wev_recv c1) = fd
         else recvd (hist w') fd = recvd (hist w) fd @ bs \<and> rearms (hist w') = rearms (hist w) \<and>
           flushed (loop w) p fd (pending c @ bs)
             (e_send E (Recv fd n (Inr bs) # interrupted k fd n (hist w1)) fd (pending c @ bs)) w w')"
proof -
  have c0: "heap w p = Some c" "h_fd c = Some fd"
    by (simp_all add: c fd h_fd_def)
  have "h_stream (hist w) p (loop w) c"
    using ginv_cok [OF inv c] act by (rule honest_okD)
  note rs = room_stream [OF on_conn_start [OF inv c0] this fd]
  from run obtain nb data w2
    where rcv: "aux_unix_recv E fd n w1 = Some (nb, data, w2)"
    by (auto simp: honest_recv_def load_def c fd rm n bind_some Let_def)
  from rs [OF rm] obtain c1 where on1: "on_conn p fd c1 w w1"
    and str1: "h_stream (hist w1) p (loop w) c1" and l1: "loop w1 = loop w"
    and fd1: "io_fd (h_wev_recv c1) = fd" and pend1: "pending c1 = pending c"
    and io1: "same_io (hist w) (hist w1)"
    and rem: "rem = int TO_SEND_SIZE - int (to_send_beg c1) - int (unat (to_send_size c1))"
    by blast
  have b1: "buf_ok c1" using str1 by (simp add: h_stream_def)
  then have rem': "0 \<le> rem" "rem \<le> 16384" by (simp_all add: rem buf_ok_def TO_SEND_SIZE_eq)
  then have n': "unat n = nat rem" by (simp add: n unat_size_of_int)
  with rem' have lt: "unat n < 2 ^ 31" by simp
  have hp1: "heap w1 = (heap w)(p := Some c1)" using on1 by (simp add: on_conn_def)
  note unf = honest_recv_def load_def store_def c rm rcv [unfolded n] on_conn_heap [OF on1] fd Let_def
  show ?thesis
    using ok lt rcv
  proof (cases rule: aux_unix_recv_cases)
    case (error k e)
    have same: "w2\<lparr>heap := (heap w2)(p := Some c1)\<rparr> = w2"
      using error(6) hp1 by simp
    have io2: "recvd (hist w2) = recvd (hist w)" "sent (hist w2) = sent (hist w)"
      "rearms (hist w2) = rearms (hist w)"
      using io1 error(6) by (simp_all add: same_io_def fun_eq_iff)
    have e2: "errno w2 = e" and hp2: "heap w2 p = Some c1" using error(6) hp1 by simp_all
    show ?thesis
    proof (cases "e = EAGAIN")
      case True
      with run error(4,5) e2 hp2 have "w' = ev_timer_again (loop w) (Member (Heap p) Wev_timeout) (h_wev_timeout c1) w2"
        by (simp add: unf buf_fill_Nil [OF b1] same)
      then show ?thesis
        using io2 hp1 error pend1 True
        by (intro exI [of _ k]) (auto simp: ev_timer_again_def emit_def fun_eq_iff)
    next
      case False
      have "(del p (c_fprintf (ln ''recv error fd=%d (%d: %s)'')
          [A_int fd, A_strerror e, A_strerror e] w2) \<bind> (\<lambda>(_, w). Some w)) = Some w'"
        using run error(4,5) e2 hp2 False by (simp add: unf buf_fill_Nil [OF b1] same)
      with del_print_effect [OF hp2 fd1, of "ln ''recv error fd=%d (%d: %s)''"
          "[A_int fd, A_strerror e, A_strerror e]"] have "deleted p fd w2 w'" by auto
      then show ?thesis
        using io2 hp1 error False by (intro exI [of _ k]) (auto simp: deleted_def)
    qed
  next
    case (data k e)
    have "to_send_beg c1 + unat (to_send_size c1) + length data \<le> TO_SEND_SIZE"
      using data(2) rem' n' rem by linarith
    from buf_put_ok [OF b1 this] obtain c3 where put: "buf_put c1 data = Some c3" and c3: "buf_ok c3"
      "pending c3 = pending c1 @ data"
      and upd: "c3 = c1\<lparr>to_send := to_send c3,
          to_send_size := to_send_size c1 + word_of_int (int (length data))\<rparr>" by blast
    then obtain c2 where fill: "buf_fill c1 data = Some c2" and grow: "c3 = buf_grow c2 nb"
      using data(4) by (auto simp: buf_put_def bind_some)
    have fd3: "io_fd (h_wev_recv c3) = fd" using fd1 by (subst upd) simp
    show ?thesis
    proof (cases "nb = 0")
      case True
      then have nil: "data = []" "c2 = c1" using data(4) fill buf_fill_Nil [OF b1] by simp_all
      have hp2: "heap w2 = (heap w)(p := Some c1)" using data(5) hp1 by simp
      have same2: "w2\<lparr>heap := (heap w)(p := Some c1)\<rparr> = w2" by (simp flip: hp2)
      have io2: "same_io (hist w) (hist w2)"
        using data(5) io1 nil by (simp add: same_io_def fun_eq_iff)
      have "eof fd p w2 = Some w'"
        using run True nil fill hp2 by (simp add: unf same2)
      then show ?thesis
        using hp2 pend1 io2 fd1 data(1,3) nil(1) by (intro exI [of _ k]) auto
    next
      case False
      then have pos: "0 < nb" "data \<noteq> []" using data(4) by auto
      let ?w4 = "w2\<lparr>heap := (heap w2)(p := Some c3)\<rparr>"
      have c4: "heap ?w4 p = Some c3" by simp
      from flush_outcome [OF ok c4 c3(1) fd3, of "loop w"] obtain w5
        where w5: "honest_flush del E (loop w) fd p ?w4 = Some w5" "recvd (hist w5) = recvd (hist ?w4)"
          "rearms (hist w5) = rearms (hist ?w4)" and out: "(case e_send E (hist ?w4) fd (pending c3) of
             Inr k \<Rightarrow> \<exists>c'. heap w5 = (heap ?w4)(p := Some c') \<and> pending c' = drop k (pending c3) \<and>
               sent (hist w5) fd = sent (hist ?w4) fd @ take k (pending c3) \<and>
               (k < length (pending c3) \<longrightarrow> active (hist w5) (loop w) (Member (Heap p) Wev_send))
           | Inl e \<Rightarrow> sent (hist w5) fd = sent (hist ?w4) fd \<and>
               (if e = EAGAIN then heap w5 = heap ?w4 \<and> active (hist w5) (loop w) (Member (Heap p) Wev_send)
                else heap w5 = (heap ?w4)(p := None) \<and> \<not> open_fd (hist w5) fd))" by blast
      have w': "w' = w5"
        using run w5(1) pos fill grow data(5) hp1 by (simp add: unf)
      have obs: "recvd (hist w') fd = recvd (hist w) fd @ data" "rearms (hist w') = rearms (hist w)"
        "sent (hist ?w4) fd = sent (hist w) fd" "heap ?w4 = (heap w)(p := Some c3)"
        "hist ?w4 = Recv fd n (Inr data) # interrupted k fd n (hist w1)" "pending c3 = pending c @ data"
        using w5 data(5) io1 hp1 c3 pend1 by (simp_all add: w' same_io_def fun_eq_iff)
      have "flushed (loop w) p fd (pending c @ data)
          (e_send E (Recv fd n (Inr data) # interrupted k fd n (hist w1)) fd (pending c @ data)) w w'"
        using out [unfolded obs(5,6)] obs(3,4,6) io1 unfolding w' flushed_def same_io_def
        by (auto split: sum.splits if_splits)
      then show ?thesis
        using obs(1,2) data(1,3) pos(2) by (intro exI [of _ k]) simp
    qed
  qed
qed

text \<open>The same, by what becomes of the connection.\<close>

lemma recv_outcome:
  assumes ok: "env_ok E" and inv: "ginv h_fd lfd_of {} honest_ok w"
    and act: "active (hist w) (loop w) (Member (Heap p) Wev_recv)" and c: "heap w p = Some c"
    and fd: "io_fd (h_wev_recv c) = fd"
    and run: "honest_recv room eof del E (loop w) (Member (Heap p) Wev_recv) w = Some w'"
  obtains (wait) c' where "heap w' = (heap w)(p := Some c')" and "pending c' = pending c"
  | (closed) inp where "heap w' = (heap w)(p := None)" and "recvd (hist w') fd = recvd (hist w) fd @ inp"
      and "sent (hist w') fd = sent (hist w) fd"
  | (echo) c' where "heap w' = (heap w)(p := Some c')"
  | (eof) c1 w1 where "eof fd p w1 = Some w'" and "heap w1 = (heap w)(p := Some c1)"
      and "pending c1 = pending c" and "same_io (hist w) (hist w1)" and "io_fd (h_wev_recv c1) = fd"
proof -
  from run obtain rem w1 where rm: "room fd p w = Some (rem, w1)"
    by (auto simp: honest_recv_def load_def c fd bind_some Let_def)
  from recv_replies [OF ok inv act c fd rm refl run] obtain k where
    "case e_recv E (interrupted k fd (word_of_int rem) (hist w1)) fd (word_of_int rem) of
       Inl e \<Rightarrow> e \<noteq> EINTR \<and> recvd (hist w') = recvd (hist w) \<and> sent (hist w') = sent (hist w) \<and>
         (if e = EAGAIN then (\<exists>c'. heap w' = (heap w)(p := Some c') \<and> pending c' = pending c) \<and>
            rearms (hist w') (Member (Heap p) Wev_timeout) = Suc (rearms (hist w) (Member (Heap p) Wev_timeout))
          else heap w' = (heap w)(p := None) \<and> \<not> open_fd (hist w') fd)
     | Inr bs \<Rightarrow>
         if bs = [] then \<exists>c1 w2. eof fd p w2 = Some w' \<and> heap w2 = (heap w)(p := Some c1) \<and>
           pending c1 = pending c \<and> same_io (hist w) (hist w2) \<and> io_fd (h_wev_recv c1) = fd
         else recvd (hist w') fd = recvd (hist w) fd @ bs \<and> rearms (hist w') = rearms (hist w) \<and>
           flushed (loop w) p fd (pending c @ bs) (e_send E (Recv fd (word_of_int rem) (Inr bs) #
             interrupted k fd (word_of_int rem) (hist w1)) fd (pending c @ bs)) w w'" by (elim exE conjE) (rule that)
  then show thesis
    using wait closed [of "[]"] closed echo eof
    by (auto simp: flushed_def split: sum.splits if_splits)
qed

text \<open>A connection that the callbacks take down is their own, and sends nothing more.\<close>

lemma recv_gone:
  assumes ok: "env_ok E" and inv: "ginv h_fd lfd_of {} honest_ok w"
    and act: "active (hist w) (loop w) (Member (Heap p) Wev_recv)" and c: "heap w p = Some c"
    and run: "honest_recv room eof del E (loop w) (Member (Heap p) Wev_recv) w = Some w'"
    and eof: "\<And>fd c1 w1. heap w1 p = Some c1 \<Longrightarrow> io_fd (h_wev_recv c1) = fd \<Longrightarrow> eof fd p w1 = Some w' \<Longrightarrow>
      recvd (hist w') = recvd (hist w1) \<and> sent (hist w') = sent (hist w1) \<and>
      (\<forall>q. q \<noteq> p \<longrightarrow> heap w' q = heap w1 q)"
    and d: "heap w q = Some d" "h_fd d = Some fd" "heap w' q = None"
  shows "gone_as fd (hist w) (hist w')"
  using ok inv act c refl run
proof (cases rule: recv_outcome)
  case (wait c')
  with d show ?thesis by (auto split: if_splits)
next
  case (closed inp)
  with d c show ?thesis by (auto simp: gone_as_def h_fd_def split: if_splits)
next
  case (echo c')
  with d show ?thesis by (auto split: if_splits)
next
  case (eof c1 w1)
  with assms(6) [of w1 c1] have e: "recvd (hist w') = recvd (hist w1)" "sent (hist w') = sent (hist w1)"
    "\<And>q. q \<noteq> p \<Longrightarrow> heap w' q = heap w1 q" by simp_all
  with eof show ?thesis by (simp add: gone_as_def same_io_def)
qed

lemma send_gone:
  assumes ok: "env_ok E" and inv: "ginv h_fd lfd_of {} honest_ok w"
    and act: "active (hist w) (loop w) (Member (Heap p) Wev_send)" and c: "heap w p = Some c"
    and run: "honest_send del E lp (Member (Heap p) Wev_send) tev w = Some w'"
    and d: "heap w q = Some d" "h_fd d = Some fd" "heap w' q = None"
  shows "gone_as fd (hist w) (hist w')"
proof -
  have "h_stream (hist w) p (loop w) c"
    using ginv_cok [OF inv c] act by (rule honest_okD)
  then have "buf_ok c" "io_fd (h_wev_send c) = io_fd (h_wev_recv c)" by (simp_all add: h_stream_def)
  from send_outcome [OF ok c this(1) refl this(2), of lp tev] run d c show ?thesis
    by (auto simp: gone_as_def h_fd_def split: sum.splits if_splits)
qed

end

end
