(* ===== verification/HonestAccept.thy ===== *)
theory HonestAccept
  imports HonestRecv Accepting
begin

text \<open>
  \<open>echo_client_add\<close>, which \<^verbatim>\<open>server-honest.c\<close> and \<^verbatim>\<open>thread-honest.c\<close> write alike.
\<close>

definition honest_add ::
  "echo_client_h env \<Rightarrow> int \<Rightarrow> sockaddr_in \<Rightarrow> (echo_client_h, 's, 'z) world_scheme
     \<Rightarrow> (int \<times> (echo_client_h, 's, 'z) world_scheme) option" where
  "honest_add E sd addr w = (case c_malloc E w of
     (None, w) \<Rightarrow> Some (-1, w)
   | (Some p, w) \<Rightarrow> do {
       c \<leftarrow> load p w;
       let c = c\<lparr>h_addr := \<lparr>sin_family = sin_family addr, sin_addr = sin_addr addr,
             sin_port = sin_port addr\<rparr>\<rparr>;
       let (io, w) = ev_io_init (Member (Heap p) Wev_recv) Wcb_recv sd {EV_READ} w;
       let c = c\<lparr>h_wev_recv := io\<rparr>;
       let (io, w) = ev_io_init (Member (Heap p) Wev_send) Wcb_send sd {EV_WRITE} w;
       let c = c\<lparr>h_wev_send := io\<rparr>;
       let (tm, w) = ev_timer_init (Member (Heap p) Wev_timeout) Wcb_timeout 0 SOCKET_TIMEOUT w;
       let c = c\<lparr>h_wev_timeout := tm\<rparr>;
       w \<leftarrow> store p c w;
       let w = ev_timer_again (loop w) (Member (Heap p) Wev_timeout) tm w;
       let w = ev_io_start (loop w) (Member (Heap p) Wev_recv) w;
       w \<leftarrow> store p (c\<lparr>to_send_beg := 0, to_send_size := 0\<rparr>) w;
       Some (0, w)
     })"

lemma honest_add_eq:
  "honest_add E sd addr w = (case e_malloc E (hist w) of
     None \<Rightarrow> Some (-1, w\<lparr>hist := Malloc None # hist w\<rparr>)
   | Some (p, c) \<Rightarrow> Some (0, w\<lparr>hist :=
       Ev_io_start (loop w) (Member (Heap p) Wev_recv) #
       Ev_timer_again (loop w) (Member (Heap p) Wev_timeout) SOCKET_TIMEOUT #
       Ev_timer_init (Member (Heap p) Wev_timeout) Wcb_timeout 0 SOCKET_TIMEOUT #
       Ev_io_init (Member (Heap p) Wev_send) Wcb_send sd {EV_WRITE} #
       Ev_io_init (Member (Heap p) Wev_recv) Wcb_recv sd {EV_READ} #
       Malloc (Some p) # hist w,
     heap := (heap w)(p := Some \<lparr>h_addr = \<lparr>sin_family = sin_family addr, sin_addr = sin_addr addr,
         sin_port = sin_port addr\<rparr>,
       h_wev_recv = \<lparr>io_cb = Wcb_recv, io_fd = sd, io_events = {EV_READ}\<rparr>,
       h_wev_send = \<lparr>io_cb = Wcb_send, io_fd = sd, io_events = {EV_WRITE}\<rparr>,
       h_wev_timeout = \<lparr>tm_cb = Wcb_timeout, tm_after = 0, tm_repeat = SOCKET_TIMEOUT\<rparr>,
       to_send = to_send c, to_send_beg = 0, to_send_size = 0\<rparr>)\<rparr>))"
proof (cases "e_malloc E (hist w)")
  case None
  then show ?thesis by (simp add: honest_add_def call_defs)
next
  case (Some pc)
  then obtain p c where "e_malloc E (hist w) = Some (p, c)" by (cases pc) auto
  then show ?thesis
    by (cases c) (simp add: honest_add_def call_defs Let_def)
qed

text \<open>The new connection keeps the contract of the accept callbacks.\<close>

lemma honest_adds_only: "adds_only honest_add"
  by (auto simp: adds_only_def honest_add_eq split: option.splits)

lemma honest_acceptor: "acceptor h_fd honest_ok honest_add"
proof unfold_locales
  fix h h' :: history and p c Os F
  assume "honest_ok h p c" and "ext Os F h h'" and "Heap p \<notin> Os"
    and "\<And>fd. h_fd c = Some fd \<Longrightarrow> fd \<notin> F"
  then show "honest_ok h' p c" by (rule honest_ok_ext)
next
  fix h p c l
  assume "honest_ok h p c"
  then show "honest_ok (Ev_new_loop l # h) p c" by (rule honest_ok_new_loop)
next
  fix E :: "echo_client_h env" and w :: "(echo_client_h, 's, 'z) world_scheme" and sd and a :: sockaddr_in
  assume "e_malloc E (hist w) = None"
  then show "honest_add E sd a w = Some (-1, w\<lparr>hist := Malloc None # hist w\<rparr>)"
    by (simp add: honest_add_eq)
next
  fix E :: "echo_client_h env" and w :: "(echo_client_h, 's, 'z) world_scheme" and p g sd and a :: sockaddr_in
  assume mal: "e_malloc E (hist w) = Some (p, g)" and idle: "\<forall>l m. \<not> active (hist w) l (Member (Heap p) m)"
    and fresh: "recvd (hist w) sd = []" "sent (hist w) sd = []"
  let ?h = "Ev_io_start (loop w) (Member (Heap p) Wev_recv) #
       Ev_timer_again (loop w) (Member (Heap p) Wev_timeout) SOCKET_TIMEOUT #
       Ev_timer_init (Member (Heap p) Wev_timeout) Wcb_timeout 0 SOCKET_TIMEOUT #
       Ev_io_init (Member (Heap p) Wev_send) Wcb_send sd {EV_WRITE} #
       Ev_io_init (Member (Heap p) Wev_recv) Wcb_recv sd {EV_READ} # Malloc (Some p) # hist w"
  let ?c = "\<lparr>h_addr = \<lparr>sin_family = sin_family a, sin_addr = sin_addr a, sin_port = sin_port a\<rparr>,
       h_wev_recv = \<lparr>io_cb = Wcb_recv, io_fd = sd, io_events = {EV_READ}\<rparr>,
       h_wev_send = \<lparr>io_cb = Wcb_send, io_fd = sd, io_events = {EV_WRITE}\<rparr>,
       h_wev_timeout = \<lparr>tm_cb = Wcb_timeout, tm_after = 0, tm_repeat = SOCKET_TIMEOUT\<rparr>,
       to_send = to_send g, to_send_beg = 0, to_send_size = 0\<rparr>"
  have "watching ?h p (loop w)"
    using idle by (intro watching_new_send) simp
  then have "honest_ok ?h p ?c"
    using fresh by (intro honest_okI [of _ _ "loop w"]) (simp_all add: h_stream_def buf_ok_def pending_def)
  moreover have "ext {Heap p} {} (hist w) ?h"
    by (auto intro!: ext_Cons ext_refl simp: about_def ev_fd_def init_ok_def)
  ultimately show "\<exists>c h. honest_add E sd a w = Some (0, w\<lparr>hist := h, heap := (heap w)(p := Some c)\<rparr>) \<and>
      h_fd c = Some sd \<and> honest_ok h p c \<and> ext {Heap p} {} (hist w) h \<and> allocated h p"
    using mal by (intro exI [of _ ?c] exI [of _ ?h]) (simp add: honest_add_eq h_fd_def)
qed

end
