(* ===== verification/Demo.thy ===== *)
theory Demo
  imports Reactor
begin

text \<open>
  A concrete environment with which the hypotheses of the properties are met, for the
  witnesses: one listening socket 3, one connection 5, one block of memory 1. The bytes
  that arrive and what the kernel takes for sending are parameters.
\<close>

primrec fresh_loop :: "history \<Rightarrow> loop" where
  "fresh_loop [] = 0"
| "fresh_loop (e # h) = (case e of Ev_new_loop l \<Rightarrow> max (Suc l) (fresh_loop h) | _ \<Rightarrow> fresh_loop h)"

lemma fresh_loop_less: "Ev_new_loop l \<in> set h \<Longrightarrow> l < fresh_loop h"
  by (induction h) (auto split: event.split)

lemma fresh_loop_new [simp]: "Ev_new_loop (fresh_loop h) \<notin> set h"
  using fresh_loop_less by blast

definition demo_env ::
  "'c \<Rightarrow> (nat \<Rightarrow> errno + byte list) \<Rightarrow> (byte list \<Rightarrow> errno + nat) \<Rightarrow> 'c env" where
  "demo_env blank rcv snt = \<lparr>
     e_socket = (\<lambda>h. if open_fd h 3 then Inl (Errno 24) else Inr 3),
     e_ioctl = (\<lambda>h fd v. Inr 0),
     e_setsockopt = (\<lambda>h fd v. Inr 0),
     e_bind = (\<lambda>h fd a. Inr 0),
     e_listen = (\<lambda>h fd n. Inr 0),
     e_accept = (\<lambda>h fd. if open_fd h 5 then Inl EAGAIN
        else Inr (5, \<lparr>sin_family = AF_INET, sin_addr = [127, 0, 0, 1], sin_port = [4, 0]\<rparr>)),
     e_connect = (\<lambda>h fd a. Inl EINPROGRESS),
     e_recv = (\<lambda>h fd n. rcv (unat n)),
     e_send = (\<lambda>h fd bs. snt bs),
     e_malloc = (\<lambda>h. if allocated h 1 then None else Some (1, blank)),
     e_calloc = (\<lambda>h. if allocated h 1 then None else Some 1),
     e_ev_loop = fresh_loop,
     e_ev_now = (\<lambda>h l. 0),
     e_sysconf = (\<lambda>h. 4),
     e_pthread_create = (\<lambda>h n. 0)\<rparr>"

lemma demo_env_ok:
  assumes "\<And>n bs. rcv n = Inr bs \<Longrightarrow> length bs \<le> n" and "\<And>bs k. snt bs = Inr k \<Longrightarrow> k \<le> length bs"
  shows "env_ok (demo_env blank rcv snt)"
  using assms unfolding env_ok_def demo_env_def by (auto split: if_splits)

lemma demo_recv_returns:
  "(\<And>n. rcv n \<noteq> Inl EINTR) \<Longrightarrow> recv_returns (demo_env blank rcv snt)"
  unfolding recv_returns_def demo_env_def by simp

text \<open>Kernels that deliver \<open>d\<close> again and again, as much as fits, and take at most \<open>k\<close> bytes.\<close>

definition deliver :: "byte list \<Rightarrow> nat \<Rightarrow> errno + byte list" where
  "deliver d n = Inr (take n d)"

definition accept_at_most :: "nat \<Rightarrow> byte list \<Rightarrow> errno + nat" where
  "accept_at_most k bs = Inr (min k (length bs))"

definition would_block :: "byte list \<Rightarrow> errno + nat" where
  "would_block bs = Inl EAGAIN"

lemma demo_deliver_ok:
  "env_ok (demo_env blank (deliver d) (accept_at_most k))"
  "env_ok (demo_env blank (deliver d) would_block)"
  "recv_returns (demo_env blank (deliver d) s)"
  by (auto intro!: demo_env_ok demo_recv_returns
      simp: deliver_def accept_at_most_def would_block_def)


text \<open>The same with no memory left.\<close>

lemma demo_no_memory_ok:
  "env_ok ((demo_env blank (deliver d) (accept_at_most k))\<lparr>e_malloc := \<lambda>_. None\<rparr>)"
  by (auto simp: env_ok_def demo_env_def deliver_def accept_at_most_def split: if_splits)

end
