(* ===== verification/ServerHonest.thy ===== *)
theory ServerHonest
  imports HonestAccept ServerCommon
begin

text \<open>
  \<^verbatim>\<open>c-bachan/server-honest.c\<close>: a single-threaded echo server that keeps what it could not
  send in a buffer per connection. One definition per function of the file, in its
  order; the suffix \<open>_sh\<close> tells them from the same functions of the other programs.
\<close>

type_synonym world_sh = "(echo_client_h, echo_server) world"

section \<open>The code\<close>

subsection \<open>Deleting a connection\<close>

definition echo_client_del_sh :: "ptr \<Rightarrow> world_sh \<Rightarrow> (int \<times> world_sh) option" where
  "echo_client_del_sh p w = do {
     let w = c_fprintf (ln ''client del'') [] w;
     let w = ev_io_stop (loop w) (Member (Heap p) Wev_recv) w;
     let w = ev_io_stop (loop w) (Member (Heap p) Wev_send) w;
     let w = ev_timer_stop (loop w) (Member (Heap p) Wev_timeout) w;
     c \<leftarrow> load p w;
     let w = c_close (io_fd (h_wev_recv c)) w;
     w \<leftarrow> c_free p w;
     Some (0, w)
   }"

subsection \<open>The callbacks of a connection\<close>

definition echo_client_wcb_timeout_sh ::
  "loop \<Rightarrow> watcher \<Rightarrow> revent set \<Rightarrow> world_sh \<Rightarrow> world_sh option" where
  "echo_client_wcb_timeout_sh lp wt tev w = do {
     ob \<leftarrow> aux_memberof Wev_timeout wt;
     p \<leftarrow> heap_ptr ob;
     (_, w) \<leftarrow> echo_client_del_sh p w;
     Some w
   }"

definition echo_client_wcb_send_sh ::
  "echo_client_h env \<Rightarrow> loop \<Rightarrow> watcher \<Rightarrow> revent set \<Rightarrow> world_sh \<Rightarrow> world_sh option" where
  "echo_client_wcb_send_sh = honest_send echo_client_del_sh"

text \<open>The first part of the receive callback: room for at least 32 bytes, or what there is.\<close>

definition recv_room_sh ::
  "int \<Rightarrow> ptr \<Rightarrow> world_sh \<Rightarrow> (int \<times> world_sh) option" where
  "recv_room_sh fd p w = do {
     c \<leftarrow> load p w;
     rem_size \<leftarrow> buf_rem_size c;
     if rem_size < 32 then do {
       let w = c_fprintf (ln ''rem_size=%d, c->to_send_size=%u, fd=%d'')
             [A_int rem_size, A_int (int (unat (to_send_size c)) mod 2 ^ 32), A_int fd] w;
       c \<leftarrow> buf_compact c;
       w \<leftarrow> store p c w;
       let rem_size = buf_rem_size_front c;
       let w = c_fprintf (ln ''rem_size=%d'') [A_int rem_size] w;
       Some (rem_size, w)
     } else Some (rem_size, w)
   }"

definition echo_client_wcb_recv_sh ::
  "echo_client_h env \<Rightarrow> loop \<Rightarrow> watcher \<Rightarrow> revent set \<Rightarrow> world_sh \<Rightarrow> world_sh option" where
  "echo_client_wcb_recv_sh E lp wt tev w = do {
     ob \<leftarrow> aux_memberof Wev_recv wt;
     p \<leftarrow> heap_ptr ob;
     c \<leftarrow> load p w;
     let fd = io_fd (h_wev_recv c);
     (rem_size, w) \<leftarrow> recv_room_sh fd p w;
     c \<leftarrow> load p w;
     (nb, data, w) \<leftarrow> aux_unix_recv E fd (word_of_int rem_size) w;
     c \<leftarrow> buf_fill c data;
     w \<leftarrow> store p c w;
     if nb < 0 then
       if errno w = EAGAIN then
         Some (ev_timer_again lp (Member (Heap p) Wev_timeout) (h_wev_timeout c) w)
       else do {
         let w = c_fprintf (ln ''recv error fd=%d (%d: %s)'')
               [A_int fd, A_strerror (errno w), A_strerror (errno w)] w;
         (_, w) \<leftarrow> echo_client_del_sh p w;
         Some w
       }
     else if nb = 0 then do {
       let w = c_fprintf (ln ''recv done fd=%d'') [A_int fd] w;
       (_, w) \<leftarrow> echo_client_del_sh p w;
       Some w
     } else do {
       w \<leftarrow> store p (buf_grow c nb) w;
       honest_flush echo_client_del_sh E lp fd p w
     }
   }"

subsection \<open>Accepting a connection\<close>

definition echo_client_add_sh ::
  "echo_client_h env \<Rightarrow> int \<Rightarrow> sockaddr_in \<Rightarrow> world_sh \<Rightarrow> (int \<times> world_sh) option" where
  "echo_client_add_sh = honest_add"

definition echo_server_wcb_accept_sh ::
  "echo_client_h env \<Rightarrow> loop \<Rightarrow> watcher \<Rightarrow> revent set \<Rightarrow> world_sh \<Rightarrow> world_sh option" where
  "echo_server_wcb_accept_sh = server_accept echo_client_add_sh"

subsection \<open>Listening and the main program\<close>

text \<open>Both are the same in \<^verbatim>\<open>server.c\<close>.\<close>

definition echo_server_listen_sh ::
  "echo_client_h env \<Rightarrow> nat \<Rightarrow> string \<Rightarrow> string \<Rightarrow> world_sh \<Rightarrow> (int \<times> world_sh) option" where
  "echo_server_listen_sh = server_listen"

definition main_sh :: "echo_client_h env \<Rightarrow> string list \<Rightarrow> world_sh \<Rightarrow> world_sh process option" where
  "main_sh = server_main"

subsection \<open>The event loop\<close>

text \<open>Which function each registered callback stands for.\<close>

definition invoke_sh ::
  "echo_client_h env \<Rightarrow> callback \<Rightarrow> loop \<Rightarrow> watcher \<Rightarrow> revent set \<Rightarrow> world_sh \<Rightarrow> world_sh option" where
  "invoke_sh E cb lp wt tev w = (case cb of
     Wcb_accept \<Rightarrow> echo_server_wcb_accept_sh E lp wt tev w
   | Wcb_recv \<Rightarrow> echo_client_wcb_recv_sh E lp wt tev w
   | Wcb_send \<Rightarrow> echo_client_wcb_send_sh E lp wt tev w
   | Wcb_timeout \<Rightarrow> echo_client_wcb_timeout_sh lp wt tev w
   | _ \<Rightarrow> None)"

definition start_sh :: "echo_client_h env \<Rightarrow> world_sh \<Rightarrow> bool" where
  "start_sh E w \<longleftrightarrow> (\<exists>argv w0. fresh_world w0 \<and> main_sh E argv w0 = Some (Running w))"

section \<open>Correctness of the callbacks\<close>

lemma del_sh_eq:
  "heap w p = Some c \<Longrightarrow> echo_client_del_sh p w = Some (0, w\<lparr>hist :=
     Free p # Close (io_fd (h_wev_recv c)) # Ev_timer_stop (loop w) (Member (Heap p) Wev_timeout) #
     Ev_io_stop (loop w) (Member (Heap p) Wev_send) # Ev_io_stop (loop w) (Member (Heap p) Wev_recv) #
     Fprintf (ln ''client del'') [] # hist w, heap := (heap w)(p := None)\<rparr>)"
  by (simp add: echo_client_del_sh_def call_defs)

interpretation sh_del: honest_deleter echo_client_del_sh lfd_s
proof unfold_locales
  fix w0 w :: world_sh and p fd c0 c
  assume inv: "ginv h_fd lfd_s {} honest_ok w0" and c0: "heap w0 p = Some c0" "h_fd c0 = Some fd"
    and on: "on_conn p fd c w0 w" and fd: "io_fd (h_wev_recv c) = fd"
    and wat: "watching (hist w) p (loop w)"
  define h where "h = Free p # Close fd # Ev_timer_stop (loop w) (Member (Heap p) Wev_timeout) #
     Ev_io_stop (loop w) (Member (Heap p) Wev_send) # Ev_io_stop (loop w) (Member (Heap p) Wev_recv) #
     Fprintf (ln ''client del'') [] # hist w"
  have "ext {Heap p} {fd} (hist w) h"
    unfolding h_def by (auto intro!: ext_Cons ext_refl simp: about_def ev_fd_def init_ok_def)
  moreover have "dead h p"
    unfolding h_def using wat by (intro dead_deleted) simp
  moreover have "\<not> open_fd h fd"
    by (simp add: h_def)
  ultimately have "local_step h_fd lfd_s honest_ok w0 (w\<lparr>hist := h, heap := (heap w)(p := None)\<rparr>)"
    by (rule on_conn_delete [OF inv c0 on])
  then show "\<exists>w'. echo_client_del_sh p w = Some (0, w') \<and> local_step h_fd lfd_s honest_ok w0 w'"
    using del_sh_eq [OF on_conn_heap [OF on]] by (simp add: h_def fd)
next
  fix w :: world_sh and p c
  assume "heap w p = Some c"
  then show "\<exists>w'. echo_client_del_sh p w = Some (0, w') \<and> deleted p (io_fd (h_wev_recv c)) w w'"
    by (simp add: del_sh_eq deleted_def fun_eq_iff)
qed

lemma timeout_sh_local:
  assumes inv: "ginv h_fd lfd_s {} honest_ok w"
    and act: "active (hist w) (loop w) (Member (Heap p) Wev_timeout)"
  shows "\<exists>w'. echo_client_wcb_timeout_sh lp (Member (Heap p) Wev_timeout) tev w = Some w' \<and>
    local_step h_fd lfd_s honest_ok w w'"
proof -
  obtain c where c: "heap w p = Some c"
    using ginv_dead [OF inv, of p] act by (auto simp: dead_def)
  then have c0: "heap w p = Some c" "h_fd c = Some (io_fd (h_wev_recv c))"
    by (simp_all add: h_fd_def)
  have "h_stream (hist w) p (loop w) c"
    using ginv_cok [OF inv c] act by (rule honest_okD)
  then have "watching (hist w) p (loop w)"
    by (simp add: h_stream_def)
  from sh_del.del_local [OF inv c0 on_conn_start [OF inv c0] refl this] show ?thesis
    by (auto simp: echo_client_wcb_timeout_sh_def)
qed

text \<open>Making room, and the end of the stream, keep the connection's invariant.\<close>

lemma recv_room_sh_stream:
  assumes on: "on_conn p fd c w0 w" and str: "h_stream (hist w) p l c" and fd: "io_fd (h_wev_recv c) = fd"
    and room: "recv_room_sh fd p w = Some (rem, w1)"
  shows "\<exists>c1. on_conn p fd c1 w0 w1 \<and> h_stream (hist w1) p l c1 \<and> loop w1 = loop w \<and>
    io_fd (h_wev_recv c1) = fd \<and> pending c1 = pending c \<and> same_io (hist w) (hist w1) \<and>
    rem = int TO_SEND_SIZE - int (to_send_beg c1) - int (unat (to_send_size c1))"
proof -
  have b: "buf_ok c" using str by (simp add: h_stream_def)
  let ?rem = "16384 - int (to_send_beg c) - int (unat (to_send_size c))"
  note run = recv_room_sh_def load_def on_conn_heap [OF on] buf_rem_size_ok [OF b]
  show ?thesis
  proof (cases "?rem < 32")
    case True
    define w2 where "w2 = c_fprintf (ln ''rem_size=%d, c->to_send_size=%u, fd=%d'')
        [A_int ?rem, A_int (int (unat (to_send_size c)) mod 2 ^ 32), A_int fd] w"
    note pr = stream_print [OF on str, of "ln ''rem_size=%d, c->to_send_size=%u, fd=%d''"
        "[A_int ?rem, A_int (int (unat (to_send_size c)) mod 2 ^ 32), A_int fd]", folded w2_def]
    from room True obtain c1 where c1: "buf_compact c = Some c1"
      and w1: "w1 = c_fprintf (ln ''rem_size=%d'') [A_int rem] (w2\<lparr>heap := (heap w2)(p := Some c1)\<rparr>)"
      and rem: "rem = buf_rem_size_front c1"
      by (auto simp: run bind_some store_def w2_def Let_def split: if_splits)
    note k = buf_compact_ok [OF b c1]
    note cp = stream_compact [OF pr(1,2) fd c1]
    have "h_stream (hist (w2\<lparr>heap := (heap w2)(p := Some c1)\<rparr>)) p l c1"
      using cp(2) by simp
    note pr2 = stream_print [OF cp(1) this, of "ln ''rem_size=%d''" "[A_int rem]", folded w1]
    have "same_io (hist w) (hist w1)"
      by (simp add: same_io_def w1 w2_def c_fprintf_def emit_def fun_eq_iff)
    then show ?thesis
      using pr2 pr(3) cp(3) rem k buf_rem_size_front_ok [OF k(1)]
      by (intro exI [of _ c1]) (simp add: TO_SEND_SIZE_eq)
  next
    case False
    with room have "w1 = w" "rem = ?rem"
      by (simp_all add: run)
    with on str fd show ?thesis
      by (intro exI [of _ c]) (simp add: TO_SEND_SIZE_eq same_io_def)
  qed
qed

lemma recv_room_sh_None:
  assumes "heap w p = Some c" and "buf_ok c"
  shows "recv_room_sh fd p w = None \<longleftrightarrow>
    16384 - int (to_send_beg c) - int (unat (to_send_size c)) < 32 \<and>
    0 < to_send_beg c \<and> to_send_beg c < unat (to_send_size c)"
  using assms
  by (auto simp: recv_room_sh_def load_def buf_rem_size_ok bind_none buf_compact_None [symmetric]
      store_def c_fprintf_def emit_def Let_def)

text \<open>What is done when the peer has closed its side.\<close>

definition eof_sh :: "int \<Rightarrow> ptr \<Rightarrow> world_sh \<Rightarrow> world_sh option" where
  "eof_sh fd p w = do {
     let w = c_fprintf (ln ''recv done fd=%d'') [A_int fd] w;
     (_, w) \<leftarrow> echo_client_del_sh p w;
     Some w
   }"

lemma recv_sh_eq:
  "echo_client_wcb_recv_sh E lp wt tev w = honest_recv recv_room_sh eof_sh echo_client_del_sh E lp wt w"
  unfolding echo_client_wcb_recv_sh_def honest_recv_def eof_sh_def ..

interpretation sh_rcv: honest_receiver echo_client_del_sh lfd_s recv_room_sh eof_sh
proof unfold_locales
  fix w0 w w1 :: world_sh and p fd l rem and c :: echo_client_h
  assume "on_conn p fd c w0 w" "h_stream (hist w) p l c" "io_fd (h_wev_recv c) = fd"
    "recv_room_sh fd p w = Some (rem, w1)"
  then show "\<exists>c1. on_conn p fd c1 w0 w1 \<and> h_stream (hist w1) p l c1 \<and> loop w1 = loop w \<and>
      io_fd (h_wev_recv c1) = fd \<and> pending c1 = pending c \<and> same_io (hist w) (hist w1) \<and>
      rem = int TO_SEND_SIZE - int (to_send_beg c1) - int (unat (to_send_size c1))"
    by (rule recv_room_sh_stream)
next
  fix w :: world_sh and p fd and c :: echo_client_h
  assume "heap w p = Some c" and "buf_ok c"
  from recv_room_sh_None [OF this] this(2) show "recv_room_sh fd p w = None \<longleftrightarrow>
      TO_SEND_SIZE < to_send_beg c + length (pending c) + 32 \<and>
      0 < to_send_beg c \<and> to_send_beg c < length (pending c)"
    by (auto simp: buf_ok_def TO_SEND_SIZE_eq)
next
  fix w0 w :: world_sh and p fd and c0 c :: echo_client_h
  assume a: "ginv h_fd lfd_s {} honest_ok w0" "heap w0 p = Some c0" "h_fd c0 = Some fd"
    "on_conn p fd c w0 w" "io_fd (h_wev_recv c) = fd" and "h_stream (hist w) p (loop w) c"
  then have "watching (hist w) p (loop w)" by (simp add: h_stream_def)
  from sh_del.del_tail [OF a this] show "\<exists>w'. eof_sh fd p w = Some w' \<and> local_step h_fd lfd_s honest_ok w0 w'"
    by (simp add: eof_sh_def)
qed

lemmas add_sh_eq = honest_add_eq [where ?'a = echo_server and ?'b = unit, folded echo_client_add_sh_def]

interpretation sh_acc: server_acceptor h_fd honest_ok echo_client_add_sh
  unfolding echo_client_add_sh_def server_acceptor_def by (rule honest_acceptor)

lemma accept_sh_local:
  assumes "env_ok E" and "ginv h_fd lfd_s {} honest_ok w" and "servers w n = Some s"
  shows "\<exists>w'. echo_server_wcb_accept_sh E lp (Member (Stack n) Wev_accept) tev w = Some w' \<and>
    local_step h_fd lfd_s honest_ok w w'"
  unfolding echo_server_wcb_accept_sh_def by (rule sh_acc.server_accept_local [OF assms])

section \<open>The whole program\<close>

lemma start_sh_ginv:
  assumes "env_ok E" and "start_sh E w"
  shows "ginv h_fd lfd_s {} honest_ok w"
proof -
  from assms(2) obtain argv v where v: "fresh_world v" "server_main E argv v = Some (Running w)"
    by (auto simp: start_sh_def main_sh_def)
  show ?thesis by (rule server_started_ginv [OF assms(1) v])
qed

lemma invoke_sh_local:
  assumes ok: "env_ok E" and inv: "ginv h_fd lfd_s {} honest_ok w" and act: "active (hist w) l wt"
    and reg: "registered (hist w) wt = Some cb" and l: "loop w = l"
    and run: "invoke_sh E cb l wt tev w = Some w'"
  shows "local_step h_fd lfd_s honest_ok w w'"
  using inv act reg
proof (cases rule: honest_watcher_cases)
  case (accept n s)
  with accept_sh_local [OF ok inv, of n s l tev] run show ?thesis
    by (simp add: invoke_sh_def)
next
  case (recv p c)
  then obtain rem w1 nb data w2 where
    "recv_room_sh (io_fd (h_wev_recv c)) p w = Some (rem, w1)" and
    "aux_unix_recv E (io_fd (h_wev_recv c)) (word_of_int rem) w1 = Some (nb, data, w2)"
    using run by (auto simp: invoke_sh_def echo_client_wcb_recv_sh_def load_def bind_some Let_def)
  from sh_rcv.recv_local [OF ok inv _ recv(3) this] recv act run l show ?thesis
    by (auto simp: invoke_sh_def recv_sh_eq)
next
  case (send p c)
  with sh_del.send_local [OF ok inv, of p tev] act run l show ?thesis
    by (auto simp: invoke_sh_def echo_client_wcb_send_sh_def)
next
  case (timeout p c)
  with timeout_sh_local [OF inv, of p l tev] act run l show ?thesis
    by (auto simp: invoke_sh_def)
qed

lemma add_sh_only: "adds_only echo_client_add_sh"
  unfolding echo_client_add_sh_def by (rule honest_adds_only)

lemma invoke_sh_gone:
  assumes ok: "env_ok E" and inv: "ginv h_fd lfd_s {} honest_ok w" and act: "active (hist w) l wt"
    and reg: "registered (hist w) wt = Some cb" and l: "loop w = l"
    and run: "invoke_sh E cb l wt tev w = Some w'"
    and d: "heap w q = Some d" "h_fd d = Some fd" "heap w' q = None"
  shows "gone_as fd (hist w) (hist w')"
  using inv act reg
proof (cases rule: honest_watcher_cases)
  case (accept n s)
  with server_accept_keeps [OF add_sh_only, of E l n tev w w' q] run d show ?thesis
    by (simp add: invoke_sh_def echo_server_wcb_accept_sh_def)
next
  case (recv p c)
  have a: "active (hist w) (loop w) (Member (Heap p) Wev_recv)" using act l recv(1) by simp
  have r: "honest_recv recv_room_sh eof_sh echo_client_del_sh E (loop w) (Member (Heap p) Wev_recv) w = Some w'"
    using run recv l by (simp add: invoke_sh_def recv_sh_eq)
  show ?thesis
    by (rule sh_rcv.recv_gone [OF ok inv a recv(3) r _ d])
      (auto simp: eof_sh_def del_sh_eq c_fprintf_def emit_def fun_eq_iff)
next
  case (send p c)
  with sh_rcv.send_gone [OF ok inv _ send(3) _ d, of l tev] run act l show ?thesis
    by (simp add: invoke_sh_def echo_client_wcb_send_sh_def)
next
  case (timeout p c)
  with run d show ?thesis
    by (auto simp: invoke_sh_def echo_client_wcb_timeout_sh_def del_sh_eq gone_as_def split: if_splits)
qed

interpretation sh: echo_reactor h_fd lfd_s honest_ok "{}" invoke_sh "\<lambda>_. no_spawn" start_sh "\<lambda>_. True" pending
proof unfold_locales
  fix E w
  assume "env_ok E" and "start_sh E w"
  then show "ginv h_fd lfd_s {} honest_ok w" by (rule start_sh_ginv)
next
  fix E w l wt cb tev w'
  assume "env_ok E" and "ginv h_fd lfd_s {} honest_ok w" and "active (hist w) l wt"
    and "registered (hist w) wt = Some cb" and "loop w = l" and "invoke_sh E cb l wt tev w = Some w'"
  then show "local_step h_fd lfd_s honest_ok w w'" by (rule invoke_sh_local)
next
  fix E and w w' :: world_sh
  assume "no_spawn w w'"
  then show "ginv h_fd lfd_s {} honest_ok w' \<and> True" "heap w' = heap w \<and> open_fd (hist w') = open_fd (hist w) \<and>
      (\<forall>n s. servers w n = Some s \<longrightarrow> servers w' n = Some s)"
    by (simp_all add: no_spawn_def)
next
  show True ..
  show True ..
next
  fix h :: history and p c
  show "\<exists>fd. h_fd c = Some fd" by (simp add: h_fd_def)
  show "recvd h fd = sent h fd @ pending c" if "honest_ok h p c" and "h_fd c = Some fd" for fd
    using that by (auto simp: honest_ok_def h_stream_def h_fd_def)
next
  fix E and w w' :: world_sh and l wt cb tev p c fd
  assume "env_ok E" and "ginv h_fd lfd_s {} honest_ok w" and "active (hist w) l wt"
    and "registered (hist w) wt = Some cb" and "loop w = l" and "invoke_sh E cb l wt tev w = Some w'"
    and "heap w p = Some c" and "h_fd c = Some fd" and "heap w' p = None"
  then show "gone_as fd (hist w) (hist w')" by (rule invoke_sh_gone)
qed

abbreviation reach_sh :: "echo_client_h env \<Rightarrow> world_sh \<Rightarrow> bool" where
  "reach_sh E \<equiv> ev_reach (invoke_sh E) no_spawn (start_sh E)"

end
