(* ===== verification/ServerHonestRuns.thy ===== *)
theory ServerHonestRuns
  imports ServerHonest Demo
begin

text \<open>
  Runs of \<^verbatim>\<open>server-honest\<close> on the concrete environment of \<open>Demo\<close>: \<open>main\<close>, one
  connection, one delivery of data, of which the kernel then takes nothing or one byte
  for sending. The states they end in are the inputs of the witnesses.
\<close>

section \<open>Runs on a concrete environment\<close>

definition blank_h :: echo_client_h where
  "blank_h = \<lparr>h_addr = zero_addr, h_wev_recv = zero_io, h_wev_send = zero_io,
     h_wev_timeout = zero_timer, to_send = (\<lambda>_. 0), to_send_beg = 0, to_send_size = 0\<rparr>"

lemma atoi_7: "atoi ''7'' = Some 7"
  by (simp add: atoi_def is_space_def digit_val_def)

text \<open>\<open>main\<close> has reached \<open>ev_run\<close>; then the client on descriptor 5 has connected.\<close>

definition demo_start_sh :: world_sh where
  "demo_start_sh = \<lparr>hist = [Ev_run 0, Ev_io_start 0 (Member (Stack 0) Wev_accept),
      Ev_io_init (Member (Stack 0) Wev_accept) Wcb_accept 3 {EV_READ},
      Listen 3 4096 (Inr 0), Bind 3 \<lparr>sin_family = AF_INET, sin_addr = inet_addr ''127.0.0.1'',
        sin_port = htons 7\<rparr> (Inr 0),
      Setsockopt 3 SOL_SOCKET SO_REUSEADDR 1 (Inr 0), Ioctl 3 FIONBIO 1 (Inr 0),
      Socket AF_INET SOCK_STREAM 0 (Inr 3), Ev_new_loop 0], errno = Errno 0, heap = \<lambda>_. None,
    servers = (\<lambda>_. None)(0 := Some \<lparr>s_addr = \<lparr>sin_family = AF_INET,
        sin_addr = inet_addr ''127.0.0.1'', sin_port = htons 7\<rparr>,
      s_wev_accept = \<lparr>io_cb = Wcb_accept, io_fd = 3, io_events = {EV_READ}\<rparr>\<rparr>), loop = 0\<rparr>"

definition demo_client_h :: echo_client_h where
  "demo_client_h = blank_h\<lparr>h_addr := \<lparr>sin_family = AF_INET, sin_addr = [127, 0, 0, 1], sin_port = [4, 0]\<rparr>,
     h_wev_recv := \<lparr>io_cb = Wcb_recv, io_fd = 5, io_events = {EV_READ}\<rparr>,
     h_wev_send := \<lparr>io_cb = Wcb_send, io_fd = 5, io_events = {EV_WRITE}\<rparr>,
     h_wev_timeout := \<lparr>tm_cb = Wcb_timeout, tm_after = 0, tm_repeat = SOCKET_TIMEOUT\<rparr>\<rparr>"

definition demo_conn_sh :: world_sh where
  "demo_conn_sh = demo_start_sh\<lparr>hist :=
      Ev_io_start 0 (Member (Heap 1) Wev_recv) #
      Ev_timer_again 0 (Member (Heap 1) Wev_timeout) SOCKET_TIMEOUT #
      Ev_timer_init (Member (Heap 1) Wev_timeout) Wcb_timeout 0 SOCKET_TIMEOUT #
      Ev_io_init (Member (Heap 1) Wev_send) Wcb_send 5 {EV_WRITE} #
      Ev_io_init (Member (Heap 1) Wev_recv) Wcb_recv 5 {EV_READ} #
      Malloc (Some 1) # Ioctl 5 FIONBIO 1 (Inr 0) #
      Accept 3 (Inr (5, \<lparr>sin_family = AF_INET, sin_addr = [127, 0, 0, 1], sin_port = [4, 0]\<rparr>)) #
      hist demo_start_sh, heap := (\<lambda>_. None)(1 := Some demo_client_h)\<rparr>"

lemma demo_start_sh_run:
  assumes "E = demo_env blank_h rcv snt \<or> E = (demo_env blank_h rcv snt)\<lparr>e_malloc := \<lambda>_. None\<rparr>"
  shows "start_sh E demo_start_sh"
proof -
  have "fresh_world \<lparr>hist = [], errno = Errno 0, heap = \<lambda>_. None, servers = \<lambda>_. None, loop = 0\<rparr>"
    by (simp add: fresh_world_def)
  moreover have "main_sh E [''server'', ''127.0.0.1'', ''7'']
      \<lparr>hist = [], errno = Errno 0, heap = \<lambda>_. None, servers = \<lambda>_. None, loop = 0\<rparr> =
      Some (Running demo_start_sh)"
    using assms
    by (auto simp: main_sh_def server_main_def server_listen_def aux_set_nonblk_def aux_set_sckopt_def call_defs
        demo_env_def Let_def atoi_7 LISTEN_BACKLOG_def demo_start_sh_def)
  ultimately show ?thesis
    unfolding start_sh_def by blast
qed

lemma demo_reach_start_sh:
  "reach_sh (demo_env blank_h rcv snt) demo_start_sh"
  "reach_sh ((demo_env blank_h rcv snt)\<lparr>e_malloc := \<lambda>_. None\<rparr>) demo_start_sh"
  using demo_start_sh_run [of _ rcv snt] by (auto intro: reach_start)

lemma demo_reach_conn_sh: "reach_sh (demo_env blank_h rcv snt) demo_conn_sh"
proof -
  have "invoke_sh (demo_env blank_h rcv snt) Wcb_accept 0 (Member (Stack 0) Wev_accept) {EV_READ}
      (demo_start_sh\<lparr>loop := 0\<rparr>) = Some demo_conn_sh"
    by (simp add: invoke_sh_def echo_server_wcb_accept_sh_def server_accept_def aux_set_nonblk_def call_defs add_sh_eq
        demo_env_def demo_start_sh_def demo_conn_sh_def demo_client_h_def blank_h_def Let_def)
  then have "ev_step (invoke_sh (demo_env blank_h rcv snt)) demo_start_sh demo_conn_sh"
    by (intro dispatch [of _ 0 "Member (Stack 0) Wev_accept" Wcb_accept]) (simp_all add: demo_start_sh_def)
  then show ?thesis by (rule reach_step [OF demo_reach_start_sh(1)])
qed

text \<open>The client then sends \<open>d\<close>, which the kernel delivers at once.\<close>

definition demo_full_h :: "byte list \<Rightarrow> echo_client_h" where
  "demo_full_h d = demo_client_h\<lparr>to_send := arr_store (\<lambda>_. 0) 0 d, to_send_size := word_of_nat (length d)\<rparr>"

definition demo_recv_sh :: "byte list \<Rightarrow> world_sh" where
  "demo_recv_sh d = demo_conn_sh\<lparr>hist := Recv 5 16384 (Inr d) # hist demo_conn_sh,
     heap := (\<lambda>_. None)(1 := Some (demo_full_h d))\<rparr>"

lemma demo_conn_sh_simps [simp]:
  "heap demo_conn_sh = (\<lambda>_. None)(1 := Some demo_client_h)" "loop demo_conn_sh = 0"
  "errno demo_conn_sh = Errno 0" "demo_conn_sh\<lparr>loop := 0\<rparr> = demo_conn_sh"
  "active (hist demo_conn_sh) 0 (Member (Heap 1) Wev_recv)"
  "active (hist demo_conn_sh) 0 (Member (Heap 1) Wev_timeout)"
  "registered (hist demo_conn_sh) (Member (Heap 1) Wev_recv) = Some Wcb_recv"
  "registered (hist demo_conn_sh) (Member (Heap 1) Wev_timeout) = Some Wcb_timeout"
  by (simp_all add: demo_conn_sh_def demo_start_sh_def)

lemma demo_client_h_simps [simp]:
  "h_wev_recv demo_client_h = \<lparr>io_cb = Wcb_recv, io_fd = 5, io_events = {EV_READ}\<rparr>"
  "to_send demo_client_h = (\<lambda>_. 0)" "to_send_beg demo_client_h = 0" "to_send_size demo_client_h = 0"
  by (simp_all add: demo_client_h_def blank_h_def)

lemma demo_recv_sh_run:
  assumes "length d \<le> 16384" and "d \<noteq> []"
  shows "invoke_sh (demo_env blank_h (deliver d) snt) Wcb_recv 0 (Member (Heap 1) Wev_recv) tev demo_conn_sh =
    honest_flush echo_client_del_sh (demo_env blank_h (deliver d) snt) 0 5 1 (demo_recv_sh d)"
proof -
  have room: "recv_room_sh 5 1 demo_conn_sh = Some (16384, demo_conn_sh)"
    by (simp add: recv_room_sh_def load_def buf_rem_size_ok buf_ok_def)
  have rcv: "aux_unix_recv (demo_env blank_h (deliver d) snt) 5 16384 demo_conn_sh =
      Some (int (length d), d, demo_conn_sh\<lparr>hist := Recv 5 16384 (Inr d) # hist demo_conn_sh\<rparr>)"
    using assms by (intro recv_data) (simp_all add: demo_env_def deliver_def)
  have fill: "buf_fill demo_client_h d = Some (demo_client_h\<lparr>to_send := arr_store (\<lambda>_. 0) 0 d\<rparr>)"
    using assms by (simp add: buf_fill_def bind_some TO_SEND_SIZE_eq)
  show ?thesis
    using assms
    by (simp add: invoke_sh_def echo_client_wcb_recv_sh_def load_def store_def room rcv fill Let_def
        buf_grow_def demo_recv_sh_def demo_full_h_def)
qed

lemma buf_demo_full_h:
  assumes "length d \<le> 16384"
  shows "buf_ok (demo_full_h d)" and "pending (demo_full_h d) = d"
    and "unat (to_send_size (demo_full_h d)) = length d"
proof -
  have "unat (word_of_nat (length d) :: size_t) = length d"
    using assms by (simp add: unat_of_nat take_bit_nat_eq_self)
  then show "buf_ok (demo_full_h d)" "pending (demo_full_h d) = d"
    "unat (to_send_size (demo_full_h d)) = length d"
    using assms arr_slice_store_same [of "\<lambda>_. 0" 0 d]
    by (simp_all add: buf_ok_def pending_def demo_full_h_def TO_SEND_SIZE_eq)
qed

text \<open>The kernel does not take the echo at all; or it takes its first byte.\<close>

definition demo_blocked_sh :: "byte list \<Rightarrow> world_sh" where
  "demo_blocked_sh d = (demo_recv_sh d)\<lparr>hist := Ev_io_start 0 (Member (Heap 1) Wev_send) #
     Send 5 d (Inl EAGAIN) # hist (demo_recv_sh d), errno := EAGAIN\<rparr>"

lemma demo_reach_blocked_sh:
  assumes "length d \<le> 16384" and "d \<noteq> []"
  shows "reach_sh (demo_env blank_h (deliver d) would_block) (demo_blocked_sh d)"
proof -
  have "honest_flush echo_client_del_sh (demo_env blank_h (deliver d) would_block) 0 5 1 (demo_recv_sh d) =
      Some (demo_blocked_sh d)"
    using buf_demo_full_h [OF assms(1)] buf_data_ok [of "demo_full_h d"]
    by (simp add: honest_flush_def load_def demo_recv_sh_def aux_unix_send_def call_defs demo_env_def
        would_block_def int32_id demo_blocked_sh_def)
  then have "ev_step (invoke_sh (demo_env blank_h (deliver d) would_block)) demo_conn_sh (demo_blocked_sh d)"
    using demo_recv_sh_run [OF assms]
    by (intro dispatch [of _ 0 "Member (Heap 1) Wev_recv" Wcb_recv]) simp_all
  then show ?thesis by (rule reach_step [OF demo_reach_conn_sh])
qed

definition demo_partial_sh :: "byte list \<Rightarrow> world_sh" where
  "demo_partial_sh d = (demo_recv_sh d)\<lparr>hist := Ev_io_start 0 (Member (Heap 1) Wev_send) #
     Send 5 d (Inr 1) # hist (demo_recv_sh d),
     heap := (\<lambda>_. None)(1 := Some ((demo_full_h d)\<lparr>to_send_beg := 1,
       to_send_size := word_of_nat (length d - 1)\<rparr>))\<rparr>"

lemma demo_step_partial_sh:
  assumes "length d \<le> 16384" and "2 \<le> length d"
  shows "ev_step (invoke_sh (demo_env blank_h (deliver d) (accept_at_most 1))) demo_conn_sh (demo_partial_sh d)"
proof -
  have d: "d \<noteq> []" using assms(2) by auto
  have size: "to_send_size (demo_full_h d) - 1 = word_of_nat (length d - 1)"
    using assms(2) by (simp add: demo_full_h_def of_nat_diff)
  have "unat (word_of_nat (length d - 1) :: size_t) = length d - 1"
    using assms(1) by (simp add: unat_of_nat take_bit_nat_eq_self)
  with assms(2) have "(word_of_nat (length d - 1) :: size_t) \<noteq> 0"
    by (auto simp: size_t_eq_0_iff)
  then have pos: "0 < (word_of_nat (length d - 1) :: size_t)"
    by (simp add: word_gt_0)
  have cons: "buf_consume (demo_full_h d) 1 = Some ((demo_full_h d)\<lparr>to_send_beg := 1,
       to_send_size := word_of_nat (length d - 1)\<rparr>)"
    using size by (simp add: buf_consume_def bind_some TO_SEND_SIZE_eq) (simp add: demo_full_h_def)
  have "honest_flush echo_client_del_sh (demo_env blank_h (deliver d) (accept_at_most 1)) 0 5 1 (demo_recv_sh d) =
      Some (demo_partial_sh d)"
  proof -
    have "e_send (demo_env blank_h (deliver d) (accept_at_most 1)) h 5 d = Inr 1" for h
      using assms(2) by (simp add: demo_env_def accept_at_most_def)
    moreover have "buf_data (demo_full_h d) = Some d"
      using buf_demo_full_h [OF assms(1)] buf_data_ok [of "demo_full_h d"] by simp
    ultimately show ?thesis
      using cons pos
      by (simp add: honest_flush_def load_def store_def demo_recv_sh_def aux_unix_send_def c_send_def
          emit_def ev_io_start_def int32_id demo_partial_sh_def)
  qed
  then show ?thesis
    using demo_recv_sh_run [OF assms(1) d]
    by (intro dispatch [of _ 0 "Member (Heap 1) Wev_recv" Wcb_recv]) simp_all
qed

lemma demo_reach_partial_sh:
  assumes "length d \<le> 16384" and "2 \<le> length d"
  shows "reach_sh (demo_env blank_h (deliver d) (accept_at_most 1)) (demo_partial_sh d)"
  using demo_step_partial_sh [OF assms] by (rule reach_step [OF demo_reach_conn_sh])

lemma demo_partial_sh_simps [simp]:
  "heap (demo_partial_sh d) = (\<lambda>_. None)(1 := Some ((demo_full_h d)\<lparr>to_send_beg := 1,
       to_send_size := word_of_nat (length d - 1)\<rparr>))"
  "active (hist (demo_partial_sh d)) 0 (Member (Heap 1) Wev_recv)"
  "active (hist (demo_partial_sh d)) 0 (Member (Heap 1) Wev_send)"
  "active (hist (demo_partial_sh d)) 0 (Member (Heap 1) Wev_timeout)"
  by (simp_all add: demo_partial_sh_def demo_recv_sh_def)

lemma demo_blocked_sh_simps [simp]:
  "heap (demo_blocked_sh d) = (\<lambda>_. None)(1 := Some (demo_full_h d))"
  "active (hist (demo_blocked_sh d)) 0 (Member (Heap 1) Wev_recv)"
  "active (hist (demo_blocked_sh d)) 0 (Member (Heap 1) Wev_send)"
  by (simp_all add: demo_blocked_sh_def demo_recv_sh_def)

end
