(* ===== verification/ServerHonestProps.thy ===== *)
theory ServerHonestProps
  imports ServerHonestRuns
begin

text \<open>
  What holds of \<^verbatim>\<open>server-honest\<close> in every state it reaches, and what its callbacks do there.
\<close>

section \<open>Every reachable state\<close>

text \<open>C1: the echo is exact: on every connection the bytes received so far are the bytes sent
  so far followed by the bytes still in the connection's buffer, in order, none lost or added.\<close>

theorem echo_stream_sh:
  assumes "env_ok E" and "reach_sh E w" and "heap w p = Some c"
  shows "recvd (hist w) (io_fd (h_wev_recv c)) = sent (hist w) (io_fd (h_wev_recv c)) @ pending c"
  by (rule sh.cok_stream [OF sh.reach_cok [OF assms(2,1,3)]]) (simp add: h_fd_def)

theorem echo_stream_sh_witness:
  "reach_sh (demo_env blank_h (deliver [104, 105]) (accept_at_most 1)) (demo_partial_sh [104, 105]) \<and>
   recvd (hist (demo_partial_sh [104, 105])) 5 = sent (hist (demo_partial_sh [104, 105])) 5 @ [105]"
proof -
  have r: "reach_sh (demo_env blank_h (deliver [104, 105]) (accept_at_most 1)) (demo_partial_sh [104, 105])"
    by (rule demo_reach_partial_sh) simp_all
  show ?thesis
    using r echo_stream_sh [OF demo_deliver_ok(1) r, of 1]
    by (simp add: demo_partial_sh_def demo_full_h_def pending_def arr_slice_def arr_store_def)
qed


text \<open>C2: every callback of the event loop is one step of the abstract echo server: a
  connection opens with an empty queue; or its queue takes in what was received and gives out
  what was sent, and it goes on or closes. The history of system calls shows exactly those
  bytes received and sent on that connection, and none on any other; in a step on no
  connection nothing is received or sent.\<close>

theorem echo_refines_sh:
  assumes "env_ok E" and "reach_sh E w" and "ev_step (invoke_sh E) w w'"
    and "echo_sim h_fd pending w m"
  shows "\<exists>lab m'. echo_step lab m m' \<and> echo_sim h_fd pending w' m' \<and> echo_obs lab m (hist w) (hist w')"
  by (rule sh.step_refines [OF assms])

theorem echo_refines_sh_witness:
  "\<exists>lab m'. echo_step lab ((\<lambda>_. None)(5 := Some [])) m' \<and> echo_sim h_fd pending (demo_partial_sh [104, 105]) m' \<and>
     echo_obs lab ((\<lambda>_. None)(5 := Some [])) (hist demo_conn_sh) (hist (demo_partial_sh [104, 105]))"
proof (rule echo_refines_sh [OF demo_deliver_ok(1)])
  show "reach_sh (demo_env blank_h (deliver [104, 105]) (accept_at_most 1)) demo_conn_sh"
    by (rule demo_reach_conn_sh)
  show "ev_step (invoke_sh (demo_env blank_h (deliver [104, 105]) (accept_at_most 1)))
      demo_conn_sh (demo_partial_sh [104, 105])"
    by (rule demo_step_partial_sh) simp_all
  show "echo_sim h_fd pending demo_conn_sh ((\<lambda>_. None)(5 := Some []))"
    by (auto simp: echo_sim_def h_fd_def pending_def)
qed

text \<open>A connection lives in one event loop: its receive watcher and its timer are active
  there with their callbacks, nothing of it is active in another loop, and as long as bytes
  are pending its send watcher is active there too, so that they are not forgotten.\<close>

lemma pending_watched_sh:
  assumes "env_ok E" and "reach_sh E w" and "heap w p = Some c"
  shows "\<exists>l. active (hist w) l (Member (Heap p) Wev_recv) \<and> active (hist w) l (Member (Heap p) Wev_timeout) \<and>
    (pending c \<noteq> [] \<longrightarrow> active (hist w) l (Member (Heap p) Wev_send)) \<and>
    (\<forall>l' m. active (hist w) l' (Member (Heap p) m) \<longrightarrow>
       l' = l \<and> m \<in> {Wev_recv, Wev_send, Wev_timeout} \<and> registered (hist w) (Member (Heap p) m) = Some (cb_of m))"
  by (rule honest_ok_watchers [OF sh.reach_cok [OF assms(2,1,3)]])

text \<open>C10: libev never calls back into freed memory, and an event it reports concerns an
  open descriptor: an active watcher of a heap block belongs to a connection that is
  allocated and whose descriptor is open.\<close>

theorem no_dangling_sh:
  assumes "env_ok E" and "reach_sh E w" and "active (hist w) l (Member (Heap p) m)"
  shows "\<exists>c. heap w p = Some c \<and> allocated (hist w) p \<and> open_fd (hist w) (io_fd (h_wev_recv c)) \<and>
    io_fd (h_wev_send c) = io_fd (h_wev_recv c)"
proof -
  note inv = sh.reach_ginv [OF assms(2,1)]
  obtain c where c: "heap w p = Some c"
    using sh.reach_no_dangling [OF assms(2,1,3)] by blast
  moreover have "h_stream (hist w) p l c"
    using ginv_cok [OF inv c] assms(3) by (rule honest_okD)
  ultimately show ?thesis
    using ginv_allocated [OF inv c] ginv_open [OF inv c] by (simp add: h_stream_def h_fd_def)
qed

theorem no_dangling_sh_witness:
  "reach_sh (demo_env blank_h (deliver [104]) (accept_at_most 1)) demo_conn_sh \<and> open_fd (hist demo_conn_sh) 5"
  using demo_reach_conn_sh [of "deliver [104]" "accept_at_most 1"]
    no_dangling_sh [OF demo_deliver_ok(1) demo_reach_conn_sh [of "deliver [104]" "accept_at_most 1"], of 0 1 Wev_recv]
  by auto

text \<open>No two connections share a descriptor, and none has the listening one.\<close>

lemma distinct_fds_sh:
  assumes "env_ok E" and "reach_sh E w" and "heap w p = Some c"
  shows "(\<forall>q d. heap w q = Some d \<longrightarrow> io_fd (h_wev_recv d) = io_fd (h_wev_recv c) \<longrightarrow> q = p) \<and>
    (\<forall>n s. servers w n = Some s \<longrightarrow> io_fd (s_wev_accept s) \<noteq> io_fd (h_wev_recv c))"
  using sh.reach_distinct_fds [OF assms(2,1), of _ _ p c "io_fd (h_wev_recv c)"]
    ginv_listen_other [OF sh.reach_ginv [OF assms(2,1)] _ assms(3)] assms(3)
  by (simp add: h_fd_def lfd_s_def) metis

section \<open>The receive callback\<close>

text \<open>C5: the receive callback is defined except in one case: it has no defined behaviour
  exactly if fewer than 32 bytes are free behind the pending bytes and the pending bytes,
  not at the front of the buffer, are longer than the gap in front of them. \<open>memcpy\<close> then
  copies between overlapping regions.\<close>

theorem recv_undefined_sh:
  assumes "env_ok E" and "recv_returns E" and "reach_sh E w" and "heap w p = Some c"
    and "active (hist w) l (Member (Heap p) Wev_recv)"
  shows "invoke_sh E Wcb_recv l (Member (Heap p) Wev_recv) tev (w\<lparr>loop := l\<rparr>) = None \<longleftrightarrow>
    TO_SEND_SIZE < to_send_beg c + length (pending c) + 32 \<and>
    0 < to_send_beg c \<and> to_send_beg c < length (pending c)"
  using sh_rcv.recv_None [of E "w\<lparr>loop := l\<rparr>" p c] sh.reach_ginv [OF assms(3,1)] assms
  by (simp add: invoke_sh_def recv_sh_eq)

theorem recv_undefined_sh_witness:
  "invoke_sh (demo_env blank_h (deliver [104, 105]) (accept_at_most 1)) Wcb_recv 0 (Member (Heap 1) Wev_recv)
     {EV_READ} (demo_partial_sh [104, 105]\<lparr>loop := 0\<rparr>) \<noteq> None"
proof -
  let ?E = "demo_env blank_h (deliver [104, 105]) (accept_at_most 1)"
  have "reach_sh ?E (demo_partial_sh [104, 105])"
    by (rule demo_reach_partial_sh) simp_all
  from recv_undefined_sh [OF demo_deliver_ok(1) demo_deliver_ok(3) this, of 1] show ?thesis
    by (simp add: TO_SEND_SIZE_eq)
qed

text \<open>C6: that case is reached: a client that sends 16384 bytes of which the kernel first
  takes one back leaves the server in a state from which the next receive callback has no
  defined behaviour.\<close>

theorem recv_overlap_reached_sh:
  "\<exists>E w p l. env_ok E \<and> recv_returns E \<and> reach_sh E w \<and> active (hist w) l (Member (Heap p) Wev_recv) \<and>
     registered (hist w) (Member (Heap p) Wev_recv) = Some Wcb_recv \<and>
     (\<forall>tev. invoke_sh E Wcb_recv l (Member (Heap p) Wev_recv) tev (w\<lparr>loop := l\<rparr>) = None)"
proof -
  let ?d = "replicate 16384 (7 :: byte)"
  let ?E = "demo_env blank_h (deliver ?d) (accept_at_most 1)" and ?w = "demo_partial_sh ?d"
  let ?c = "(demo_full_h ?d)\<lparr>to_send_beg := 1, to_send_size := word_of_nat (length ?d - 1)\<rparr>"
  have r: "reach_sh ?E ?w"
    by (rule demo_reach_partial_sh) simp_all
  have c: "heap (?w\<lparr>loop := 0\<rparr>) 1 = Some ?c"
    by simp
  have "buf_ok ?c" by (simp add: buf_ok_def TO_SEND_SIZE_eq)
  from recv_room_sh_None [OF c this, of "io_fd (h_wev_recv ?c)"]
  have "recv_room_sh (io_fd (h_wev_recv ?c)) 1 (?w\<lparr>loop := 0\<rparr>) = None"
    by simp
  then have undef: "invoke_sh ?E Wcb_recv 0 (Member (Heap 1) Wev_recv) tev (?w\<lparr>loop := 0\<rparr>) = None" for tev
    by (simp add: invoke_sh_def echo_client_wcb_recv_sh_def load_def Let_def)
  show ?thesis
  proof (intro exI conjI allI)
    show "env_ok ?E" "recv_returns ?E" by (rule demo_deliver_ok)+
    show "reach_sh ?E ?w" by (rule r)
    show "active (hist ?w) 0 (Member (Heap 1) Wev_recv)" by (rule demo_partial_sh_simps)
    show "registered (hist ?w) (Member (Heap 1) Wev_recv) = Some Wcb_recv"
      by (simp add: demo_partial_sh_def demo_recv_sh_def)
    show "invoke_sh ?E Wcb_recv 0 (Member (Heap 1) Wev_recv) tev (?w\<lparr>loop := 0\<rparr>) = None" for tev
      by (rule undef)
  qed
qed

text \<open>C4: what one receive callback does, by the reply to its first call of \<open>recv\<close> that is not
  interrupted, and then by the reply to \<open>send\<close>. On \<open>EAGAIN\<close> it waits, the pending bytes kept and
  the timer put back to its full interval; on any other error, and on 0 bytes, it closes the
  connection with nothing sent. On data it hands all that is pending to \<open>send\<close>, once: of what
  the kernel takes the rest stays pending and its send watcher is active; on \<open>EAGAIN\<close> everything
  stays pending and the watcher is active; on any other error it closes the connection. The timer
  is left alone: data does not put off the timeout.\<close>

theorem recv_callback_sh:
  assumes "env_ok E" and "reach_sh E w" and "heap w p = Some c" and "io_fd (h_wev_recv c) = fd"
    and "active (hist w) l (Member (Heap p) Wev_recv)"
    and "recv_room_sh fd p (w\<lparr>loop := l\<rparr>) = Some (rem, w1)" and "n = word_of_int rem"
    and "invoke_sh E Wcb_recv l (Member (Heap p) Wev_recv) tev (w\<lparr>loop := l\<rparr>) = Some w'"
  shows "\<exists>k. (\<forall>j<k. e_recv E (interrupted j fd n (hist w1)) fd n = Inl EINTR) \<and>
    (case e_recv E (interrupted k fd n (hist w1)) fd n of
       Inl e \<Rightarrow> e \<noteq> EINTR \<and> recvd (hist w') = recvd (hist w) \<and> sent (hist w') = sent (hist w) \<and>
         (if e = EAGAIN then (\<exists>c'. heap w' = (heap w)(p := Some c') \<and> pending c' = pending c) \<and>
            rearms (hist w') (Member (Heap p) Wev_timeout) = Suc (rearms (hist w) (Member (Heap p) Wev_timeout))
          else heap w' = (heap w)(p := None) \<and> \<not> open_fd (hist w') fd)
     | Inr bs \<Rightarrow> recvd (hist w') fd = recvd (hist w) fd @ bs \<and> rearms (hist w') = rearms (hist w) \<and>
         (if bs = [] then heap w' = (heap w)(p := None) \<and> \<not> open_fd (hist w') fd \<and>
            sent (hist w') fd = sent (hist w) fd
          else (case e_send E (Recv fd n (Inr bs) # interrupted k fd n (hist w1)) fd (pending c @ bs) of
              Inr m \<Rightarrow> sent (hist w') fd = sent (hist w) fd @ take m (pending c @ bs) \<and>
                (\<exists>c'. heap w' = (heap w)(p := Some c') \<and> pending c' = drop m (pending c @ bs) \<and>
                  (drop m (pending c @ bs) \<noteq> [] \<longrightarrow> active (hist w') l (Member (Heap p) Wev_send)))
            | Inl e \<Rightarrow> sent (hist w') fd = sent (hist w) fd \<and>
                (if e = EAGAIN then (\<exists>c'. heap w' = (heap w)(p := Some c') \<and> pending c' = pending c @ bs) \<and>
                   active (hist w') l (Member (Heap p) Wev_send)
                 else heap w' = (heap w)(p := None) \<and> \<not> open_fd (hist w') fd))))"
proof -
  let ?w = "w\<lparr>loop := l\<rparr>"
  have inv: "ginv h_fd lfd_s {} honest_ok ?w" and act: "active (hist ?w) (loop ?w) (Member (Heap p) Wev_recv)"
    and c: "heap ?w p = Some c"
    using sh.reach_ginv [OF assms(2,1)] assms(3,5) by simp_all
  have run: "honest_recv recv_room_sh eof_sh echo_client_del_sh E (loop ?w) (Member (Heap p) Wev_recv) ?w = Some w'"
    using assms(8) by (simp add: invoke_sh_def recv_sh_eq)
  have eof: "heap w' = (heap w)(p := None) \<and> \<not> open_fd (hist w') fd \<and> recvd (hist w') = recvd (hist w) \<and>
      sent (hist w') = sent (hist w) \<and> rearms (hist w') = rearms (hist w)"
    if "eof_sh fd p w2 = Some w'" "heap w2 = (heap w)(p := Some c1)" "same_io (hist w) (hist w2)"
      "io_fd (h_wev_recv c1) = fd" for w2 c1
  proof -
    have "heap w2 p = Some c1" using that(2) by simp
    from sh_del.del_print_effect [OF this that(4), of "ln ''recv done fd=%d''" "[A_int fd]"] that(1)
    have "deleted p fd w2 w'" by (auto simp: eof_sh_def)
    with that(2,3) show ?thesis by (simp add: deleted_def same_io_def)
  qed
  obtain k where k: "\<forall>j<k. e_recv E (interrupted j fd n (hist w1)) fd n = Inl EINTR" and out:
    "case e_recv E (interrupted k fd n (hist w1)) fd n of
       Inl e \<Rightarrow> e \<noteq> EINTR \<and> recvd (hist w') = recvd (hist ?w) \<and> sent (hist w') = sent (hist ?w) \<and>
         (if e = EAGAIN then (\<exists>c'. heap w' = (heap ?w)(p := Some c') \<and> pending c' = pending c) \<and>
            rearms (hist w') (Member (Heap p) Wev_timeout) = Suc (rearms (hist ?w) (Member (Heap p) Wev_timeout))
          else heap w' = (heap ?w)(p := None) \<and> \<not> open_fd (hist w') fd)
     | Inr bs \<Rightarrow>
         if bs = [] then \<exists>c1 w2. eof_sh fd p w2 = Some w' \<and> heap w2 = (heap ?w)(p := Some c1) \<and>
           pending c1 = pending c \<and> same_io (hist ?w) (hist w2) \<and> io_fd (h_wev_recv c1) = fd
         else recvd (hist w') fd = recvd (hist ?w) fd @ bs \<and> rearms (hist w') = rearms (hist ?w) \<and>
           flushed (loop ?w) p fd (pending c @ bs)
             (e_send E (Recv fd n (Inr bs) # interrupted k fd n (hist w1)) fd (pending c @ bs)) ?w w'"
    using sh_rcv.recv_replies [OF assms(1) inv act c assms(4,6,7) run] by (elim exE conjE) (rule that)
  show ?thesis
  proof (intro exI [of _ k] conjI, rule k)
    show "case e_recv E (interrupted k fd n (hist w1)) fd n of
       Inl e \<Rightarrow> e \<noteq> EINTR \<and> recvd (hist w') = recvd (hist w) \<and> sent (hist w') = sent (hist w) \<and>
         (if e = EAGAIN then (\<exists>c'. heap w' = (heap w)(p := Some c') \<and> pending c' = pending c) \<and>
            rearms (hist w') (Member (Heap p) Wev_timeout) = Suc (rearms (hist w) (Member (Heap p) Wev_timeout))
          else heap w' = (heap w)(p := None) \<and> \<not> open_fd (hist w') fd)
     | Inr bs \<Rightarrow> recvd (hist w') fd = recvd (hist w) fd @ bs \<and> rearms (hist w') = rearms (hist w) \<and>
         (if bs = [] then heap w' = (heap w)(p := None) \<and> \<not> open_fd (hist w') fd \<and>
            sent (hist w') fd = sent (hist w) fd
          else (case e_send E (Recv fd n (Inr bs) # interrupted k fd n (hist w1)) fd (pending c @ bs) of
              Inr m \<Rightarrow> sent (hist w') fd = sent (hist w) fd @ take m (pending c @ bs) \<and>
                (\<exists>c'. heap w' = (heap w)(p := Some c') \<and> pending c' = drop m (pending c @ bs) \<and>
                  (drop m (pending c @ bs) \<noteq> [] \<longrightarrow> active (hist w') l (Member (Heap p) Wev_send)))
            | Inl e \<Rightarrow> sent (hist w') fd = sent (hist w) fd \<and>
                (if e = EAGAIN then (\<exists>c'. heap w' = (heap w)(p := Some c') \<and> pending c' = pending c @ bs) \<and>
                   active (hist w') l (Member (Heap p) Wev_send)
                 else heap w' = (heap w)(p := None) \<and> \<not> open_fd (hist w') fd)))"
    proof (cases "e_recv E (interrupted k fd n (hist w1)) fd n")
      case (Inr bs)
      with out eof show ?thesis by (cases "bs = []") (auto simp: flushed_def split: sum.splits)
    qed (use out in auto)
  qed
qed

theorem recv_callback_sh_witness:
  "\<exists>w'. invoke_sh (demo_env blank_h (deliver [104, 105]) (accept_at_most 1)) Wcb_recv 0
       (Member (Heap 1) Wev_recv) {EV_READ} (demo_conn_sh\<lparr>loop := 0\<rparr>) = Some w' \<and>
     recvd (hist w') 5 = [104, 105] \<and> sent (hist w') 5 = [104] \<and> active (hist w') 0 (Member (Heap 1) Wev_send)"
proof -
  let ?E = "demo_env blank_h (deliver [104, 105]) (accept_at_most 1)"
  have c: "heap demo_conn_sh 1 = Some demo_client_h" and fd: "io_fd (h_wev_recv demo_client_h) = 5"
    and act: "active (hist demo_conn_sh) 0 (Member (Heap 1) Wev_recv)" by simp_all
  have r: "reach_sh ?E demo_conn_sh" by (rule demo_reach_conn_sh)
  have "invoke_sh ?E Wcb_recv 0 (Member (Heap 1) Wev_recv) {EV_READ} (demo_conn_sh\<lparr>loop := 0\<rparr>) \<noteq> None"
    using sh_rcv.recv_None [OF demo_deliver_ok(1,3) sh.reach_ginv [OF r demo_deliver_ok(1)] _ c]
    by (simp add: invoke_sh_def recv_sh_eq)
  then obtain w' where w': "invoke_sh ?E Wcb_recv 0 (Member (Heap 1) Wev_recv) {EV_READ}
      (demo_conn_sh\<lparr>loop := 0\<rparr>) = Some w'" by blast
  have room: "recv_room_sh 5 1 (demo_conn_sh\<lparr>loop := 0\<rparr>) = Some (16384, demo_conn_sh)"
    by (simp add: recv_room_sh_def load_def buf_rem_size_ok buf_ok_def)
  have rcv: "e_recv ?E h 5 16384 = Inr [104, 105]" for h by (simp add: demo_env_def deliver_def)
  have snd: "e_send ?E h 5 [104, 105] = Inr 1" for h by (simp add: demo_env_def accept_at_most_def)
  have none: "recvd (hist demo_conn_sh) 5 = []" "sent (hist demo_conn_sh) 5 = []" "pending demo_client_h = []"
    by (simp_all add: demo_conn_sh_def pending_def)
  have "recvd (hist w') 5 = [104, 105] \<and> sent (hist w') 5 = [104] \<and> active (hist w') 0 (Member (Heap 1) Wev_send)"
    using recv_callback_sh [OF demo_deliver_ok(1) r c fd act room _ w', of 16384]
    by (simp add: rcv snd none del: One_nat_def) auto
  with w' show ?thesis by blast
qed

text \<open>C7: when the buffer is full the server drops the client: it asks \<open>recv\<close> for 0 bytes,
  takes the answer 0 for the end of the stream and closes the connection, with 16384
  received bytes never sent back.\<close>

theorem buffer_full_sh:
  assumes "env_ok E" and "reach_sh E w" and "heap w p = Some c" and "io_fd (h_wev_recv c) = fd"
    and "active (hist w) l (Member (Heap p) Wev_recv)"
    and "length (pending c) = TO_SEND_SIZE" and "\<forall>h. e_recv E h fd 0 = Inr []"
  shows "\<exists>w'. invoke_sh E Wcb_recv l (Member (Heap p) Wev_recv) tev (w\<lparr>loop := l\<rparr>) = Some w' \<and>
    heap w' = (heap w)(p := None) \<and> \<not> open_fd (hist w') fd \<and>
    recvd (hist w') fd = sent (hist w') fd @ pending c"
proof -
  let ?w = "w\<lparr>loop := l\<rparr>"
  have inv: "ginv h_fd lfd_s {} honest_ok ?w" and act: "active (hist ?w) (loop ?w) (Member (Heap p) Wev_recv)"
    and c: "heap ?w p = Some c"
    using sh.reach_ginv [OF assms(2,1)] assms(3,5) by simp_all
  have str: "h_stream (hist ?w) p l c"
    using ginv_cok [OF inv c] assms(5) by (intro honest_okD) simp_all
  then have b: "buf_ok c" by (simp add: h_stream_def)
  then have "to_send_beg c = 0" using assms(6) by (simp add: buf_ok_def)
  then obtain rem w1 where room: "recv_room_sh fd p ?w = Some (rem, w1)"
    using sh_rcv.room_None [OF c b, of fd] by auto
  have c0: "h_fd c = Some fd" using assms(4) by (simp add: h_fd_def)
  from recv_room_sh_stream [OF on_conn_start [OF inv c c0] str assms(4) room]
  obtain c1 where c1: "h_stream (hist w1) p l c1" "pending c1 = pending c"
    and rem: "rem = int TO_SEND_SIZE - int (to_send_beg c1) - int (unat (to_send_size c1))" by blast
  have "unat (to_send_size c1) = TO_SEND_SIZE" using c1(2) assms(6) length_pending by metis
  then have "rem = 0" using rem c1(1) by (simp add: h_stream_def buf_ok_def)
  then have "e_recv E (hist w1) fd (word_of_int rem) = Inr []" using assms(7) by simp
  from sh_rcv.recv_eof [OF inv act c assms(4) room this] obtain c2 w2
    where run: "honest_recv recv_room_sh eof_sh echo_client_del_sh E (loop ?w) (Member (Heap p) Wev_recv) ?w =
        eof_sh fd p w2"
      and c2: "on_conn p fd c2 ?w w2" "io_fd (h_wev_recv c2) = fd" "same_io (hist ?w) (hist w2)" .
  from sh_del.del_print_effect [OF on_conn_heap [OF c2(1)] c2(2), of "ln ''recv done fd=%d''" "[A_int fd]"]
  obtain w' where w': "eof_sh fd p w2 = Some w'" "deleted p fd w2 w'" by (auto simp: eof_sh_def)
  have "recvd (hist w) fd = sent (hist w) fd @ pending c"
    using str assms(4) by (simp add: h_stream_def)
  then show ?thesis
    using run w' c2 by (auto simp: invoke_sh_def recv_sh_eq deleted_def same_io_def on_conn_def)
qed

theorem buffer_full_sh_witness:
  "reach_sh (demo_env blank_h (deliver (replicate 16384 7)) would_block) (demo_blocked_sh (replicate 16384 7)) \<and>
   (\<exists>w'. invoke_sh (demo_env blank_h (deliver (replicate 16384 7)) would_block) Wcb_recv 0
       (Member (Heap 1) Wev_recv) {EV_READ} (demo_blocked_sh (replicate 16384 7)\<lparr>loop := 0\<rparr>) = Some w' \<and>
     heap w' 1 = None)"
proof -
  let ?d = "replicate 16384 (7 :: byte)"
  let ?E = "demo_env blank_h (deliver ?d) would_block"
  have len: "length ?d \<le> 16384" by simp
  have r: "reach_sh ?E (demo_blocked_sh ?d)"
    by (rule demo_reach_blocked_sh [OF len]) simp
  have c: "heap (demo_blocked_sh ?d) 1 = Some (demo_full_h ?d)" by simp
  have fd: "io_fd (h_wev_recv (demo_full_h ?d)) = 5" by (simp add: demo_full_h_def)
  have full: "length (pending (demo_full_h ?d)) = TO_SEND_SIZE"
    unfolding buf_demo_full_h(2) [OF len] by (simp add: TO_SEND_SIZE_eq)
  have "\<forall>h. e_recv ?E h 5 0 = Inr []" by (simp add: demo_env_def deliver_def)
  from buffer_full_sh [OF demo_deliver_ok(2) r c fd demo_blocked_sh_simps(2) full this, of "{EV_READ}"]
  show ?thesis using r by auto
qed

section \<open>The other callbacks of a connection\<close>

lemma sh_send:
  assumes "env_ok E" and "reach_sh E w" and "heap w p = Some c" and "io_fd (h_wev_recv c) = fd"
    and "active (hist w) l (Member (Heap p) Wev_send)"
  shows "\<exists>w'. invoke_sh E Wcb_send l (Member (Heap p) Wev_send) tev (w\<lparr>loop := l\<rparr>) = Some w' \<and>
    recvd (hist w') = recvd (hist w) \<and>
    (case e_send E (hist w) fd (pending c) of
       Inr k \<Rightarrow> \<exists>c'. heap w' = (heap w)(p := Some c') \<and> pending c' = drop k (pending c) \<and> io_fd (h_wev_recv c') = fd \<and>
         sent (hist w') fd = sent (hist w) fd @ take k (pending c) \<and>
         (active (hist w') l (Member (Heap p) Wev_send) \<longleftrightarrow> k < length (pending c))
     | Inl e \<Rightarrow> sent (hist w') fd = sent (hist w) fd \<and>
         (if e = EAGAIN then heap w' = heap w \<and> active (hist w') l = active (hist w) l
          else heap w' = (heap w)(p := None) \<and> \<not> open_fd (hist w') fd))"
proof -
  have str: "h_stream (hist w) p l c"
    using sh.reach_cok [OF assms(2,1,3)] assms(5) by (rule honest_okD)
  have "buf_ok c" "io_fd (h_wev_send c) = fd" "heap (w\<lparr>loop := l\<rparr>) p = Some c"
    using str assms(3,4) by (simp_all add: h_stream_def)
  note out = sh_del.send_outcome [OF assms(1) this(3,1) assms(4) this(2), of l tev]
  show ?thesis
    by (cases "e_send E (hist w) fd (pending c)"; cases "e_send E (hist w) fd (pending c) = Inl EAGAIN")
       (use out assms(5) in \<open>auto simp: invoke_sh_def echo_client_wcb_send_sh_def\<close>)
qed

text \<open>C8: the send callback always returns and hands the kernel exactly the pending bytes:
  the prefix it takes is dropped from the buffer, and the watcher is stopped exactly when
  nothing is left; if the descriptor is not writable nothing changes; on any other error
  the connection is closed.\<close>

theorem send_callback_sh:
  assumes "env_ok E" and "reach_sh E w" and "heap w p = Some c" and "io_fd (h_wev_recv c) = fd"
    and "active (hist w) l (Member (Heap p) Wev_send)"
  shows "\<exists>w'. invoke_sh E Wcb_send l (Member (Heap p) Wev_send) tev (w\<lparr>loop := l\<rparr>) = Some w' \<and>
    recvd (hist w') = recvd (hist w) \<and>
    (case e_send E (hist w) fd (pending c) of
       Inr k \<Rightarrow> \<exists>c'. heap w' = (heap w)(p := Some c') \<and> pending c' = drop k (pending c) \<and>
         sent (hist w') fd = sent (hist w) fd @ take k (pending c) \<and>
         (active (hist w') l (Member (Heap p) Wev_send) \<longleftrightarrow> k < length (pending c))
     | Inl e \<Rightarrow> sent (hist w') fd = sent (hist w) fd \<and>
         (if e = EAGAIN then heap w' = heap w \<and> active (hist w') l = active (hist w) l
          else heap w' = (heap w)(p := None) \<and> \<not> open_fd (hist w') fd))"
proof (cases "e_send E (hist w) fd (pending c)")
  case (Inl e)
  with sh_send [OF assms, of tev] show ?thesis by simp
next
  case (Inr k)
  with sh_send [OF assms, of tev] show ?thesis by simp blast
qed

theorem send_callback_sh_witness:
  "\<exists>w' c'. invoke_sh (demo_env blank_h (deliver [104, 105]) (accept_at_most 1)) Wcb_send 0
       (Member (Heap 1) Wev_send) {EV_WRITE} (demo_partial_sh [104, 105]\<lparr>loop := 0\<rparr>) = Some w' \<and>
     heap w' 1 = Some c' \<and> pending c' = [] \<and> \<not> active (hist w') 0 (Member (Heap 1) Wev_send)"
proof -
  let ?E = "demo_env blank_h (deliver [104, 105]) (accept_at_most 1)"
  let ?c = "(demo_full_h [104, 105])\<lparr>to_send_beg := 1, to_send_size := word_of_nat (2 - 1)\<rparr>"
  have r: "reach_sh ?E (demo_partial_sh [104, 105])"
    by (rule demo_reach_partial_sh) simp_all
  have c: "heap (demo_partial_sh [104, 105]) 1 = Some ?c" and fd: "io_fd (h_wev_recv ?c) = 5"
    by (simp_all add: demo_full_h_def)
  have pend: "pending ?c = [105]"
    by (simp add: demo_full_h_def pending_def arr_slice_def arr_store_def)
  have snd: "e_send ?E h 5 [105] = Inr 1" for h by (simp add: demo_env_def accept_at_most_def)
  have act: "active (hist (demo_partial_sh [104, 105])) 0 (Member (Heap 1) Wev_send)" by simp
  from send_callback_sh [OF demo_deliver_ok(1) r c fd act, of "{EV_WRITE}", unfolded pend snd sum.case]
  show ?thesis by fastforce
qed

text \<open>A kernel that takes at least one byte whenever it is given some.\<close>

definition takes_some :: "'c env \<Rightarrow> bool" where
  "takes_some E \<longleftrightarrow> (\<forall>h fd bs. bs \<noteq> [] \<longrightarrow> (\<exists>k. 0 < k \<and> e_send E h fd bs = Inr k))"

lemma sh_drains:
  assumes ok: "env_ok E" and some: "takes_some E"
  shows "reach_sh E w \<Longrightarrow> heap w p = Some c \<Longrightarrow> io_fd (h_wev_recv c) = fd \<Longrightarrow>
    \<exists>n w' c'. n \<le> length (pending c) \<and> (ev_step (invoke_sh E) ^^ n) w w' \<and> heap w' p = Some c' \<and>
      io_fd (h_wev_recv c') = fd \<and> pending c' = [] \<and> recvd (hist w') fd = recvd (hist w) fd \<and>
      sent (hist w') fd = recvd (hist w) fd"
proof (induction "length (pending c)" arbitrary: c w rule: less_induct)
  case less
  show ?case
  proof (cases "pending c = []")
    case True
    have "recvd (hist w) fd = sent (hist w) fd @ pending c"
      using sh.cok_stream [OF sh.reach_cok [OF less.prems(1) ok less.prems(2)]] less.prems(3) by (simp add: h_fd_def)
    with True less.prems show ?thesis by (intro exI [of _ 0] exI [of _ w] exI [of _ c]) simp
  next
    case False
    from honest_ok_watchers [OF sh.reach_cok [OF less.prems(1) ok less.prems(2)]] obtain l
      where l: "pending c \<noteq> [] \<longrightarrow> active (hist w) l (Member (Heap p) Wev_send)"
        "\<forall>l' m. active (hist w) l' (Member (Heap p) m) \<longrightarrow>
           l' = l \<and> m \<in> {Wev_recv, Wev_send, Wev_timeout} \<and> registered (hist w) (Member (Heap p) m) = Some (cb_of m)"
      by (elim exE conjE) (rule that)
    from l(1) False have act: "active (hist w) l (Member (Heap p) Wev_send)" by simp
    from l(2) [rule_format, OF act] have reg: "registered (hist w) (Member (Heap p) Wev_send) = Some Wcb_send" by simp
    from some False obtain k where k: "0 < k" "e_send E (hist w) fd (pending c) = Inr k"
      unfolding takes_some_def by blast
    from sh_send [OF ok less.prems(1-3) act, of "{EV_WRITE}", unfolded k(2) sum.case] obtain w1 c1
      where run: "invoke_sh E Wcb_send l (Member (Heap p) Wev_send) {EV_WRITE} (w\<lparr>loop := l\<rparr>) = Some w1"
        and same: "recvd (hist w1) = recvd (hist w)" and c1: "heap w1 = (heap w)(p := Some c1)"
          "pending c1 = drop k (pending c)" "io_fd (h_wev_recv c1) = fd"
      by (elim exE conjE) (rule that)
    from act reg run have step: "ev_step (invoke_sh E) w w1" by (rule dispatch)
    have shorter: "length (pending c1) < length (pending c)" 
      unfolding c1(2) length_drop using k(1) False by (meson diff_less length_greater_0_conv)
    have at: "heap w1 p = Some c1" using c1(1) by simp
    from less.hyps [OF shorter reach_step [OF less.prems(1) step] at c1(3)] obtain n w' c'
      where n: "n \<le> length (pending c1)" "(ev_step (invoke_sh E) ^^ n) w1 w'" and w': "heap w' p = Some c'"
        "io_fd (h_wev_recv c') = fd" "pending c' = []" "recvd (hist w') fd = recvd (hist w1) fd"
        "sent (hist w') fd = recvd (hist w1) fd" by blast
    from step n(2) have "(ev_step (invoke_sh E) ^^ Suc n) w w'" by (rule relpowp_Suc_I2)
    with n(1) shorter w' same show ?thesis by (intro exI [of _ "Suc n"] exI [of _ w'] exI [of _ c']) simp
  qed
qed

text \<open>C9: nothing gets stuck in the buffer: from any state the server reaches, and for any
  connection, as many runs of its send callback as there are pending bytes, or fewer, bring
  the server into a state in which all that was received on the connection has been sent,
  provided the kernel takes at least one byte each time.\<close>

theorem drains_sh:
  assumes "env_ok E" and "takes_some E" and "reach_sh E w" and "heap w p = Some c" and "io_fd (h_wev_recv c) = fd"
  shows "\<exists>n w' c'. n \<le> length (pending c) \<and> (ev_step (invoke_sh E) ^^ n) w w' \<and> reach_sh E w' \<and>
    heap w' p = Some c' \<and> pending c' = [] \<and> recvd (hist w') fd = recvd (hist w) fd \<and>
    sent (hist w') fd = recvd (hist w) fd"
proof -
  have "reach_sh E w'" if "(ev_step (invoke_sh E) ^^ n) w w'" for n w'
    using that assms(3) by (induction n arbitrary: w') (auto intro: reach_step)
  with sh_drains [OF assms(1-5)] show ?thesis by blast
qed

theorem drains_sh_witness:
  "\<exists>n w'. n \<le> 1 \<and> (ev_step (invoke_sh (demo_env blank_h (deliver [104, 105]) (accept_at_most 1))) ^^ n)
     (demo_partial_sh [104, 105]) w' \<and> sent (hist w') 5 = recvd (hist (demo_partial_sh [104, 105])) 5"
proof -
  let ?E = "demo_env blank_h (deliver [104, 105]) (accept_at_most 1)"
  let ?c = "(demo_full_h [104, 105])\<lparr>to_send_beg := 1, to_send_size := word_of_nat (2 - 1)\<rparr>"
  have r: "reach_sh ?E (demo_partial_sh [104, 105])" by (rule demo_reach_partial_sh) simp_all
  have c: "heap (demo_partial_sh [104, 105]) 1 = Some ?c" "io_fd (h_wev_recv ?c) = 5"
    by (simp_all add: demo_full_h_def)
  have "length (pending ?c) = 1" by (simp add: demo_full_h_def pending_def)
  moreover have "takes_some ?E"
    unfolding takes_some_def by (auto simp: demo_env_def accept_at_most_def neq_Nil_conv)
  ultimately show ?thesis using drains_sh [OF demo_deliver_ok(1) _ r c] by auto
qed

text \<open>The timeout callback always returns: the connection is gone, its descriptor
  closed, none of its watchers active in any loop, every other watcher as before; bytes
  still pending are lost.\<close>

lemma timeout_callback_sh:
  assumes "env_ok E" and "reach_sh E w" and "heap w p = Some c" and "io_fd (h_wev_recv c) = fd"
    and "active (hist w) l (Member (Heap p) Wev_timeout)"
  shows "\<exists>w'. invoke_sh E Wcb_timeout l (Member (Heap p) Wev_timeout) tev (w\<lparr>loop := l\<rparr>) = Some w' \<and>
    heap w' = (heap w)(p := None) \<and> \<not> open_fd (hist w') fd \<and>
    (\<forall>l' m. \<not> active (hist w') l' (Member (Heap p) m)) \<and>
    (\<forall>l' wt. w_obj wt \<noteq> Heap p \<longrightarrow> active (hist w') l' wt = active (hist w) l' wt) \<and>
    recvd (hist w') fd = sent (hist w') fd @ pending c"
proof -
  let ?w = "w\<lparr>loop := l\<rparr>"
  have str: "h_stream (hist w) p l c"
    using sh.reach_cok [OF assms(2,1,3)] assms(5) by (rule honest_okD)
  then have wat: "watching (hist w) p l" by (simp add: h_stream_def)
  have "heap ?w p = Some c" using assms(3) by simp
  note del = del_sh_eq [OF this]
  let ?h = "Free p # Close fd # Ev_timer_stop l (Member (Heap p) Wev_timeout) #
     Ev_io_stop l (Member (Heap p) Wev_send) # Ev_io_stop l (Member (Heap p) Wev_recv) #
     Fprintf (ln ''client del'') [] # hist w"
  have "dead ?h p" using wat by (intro dead_deleted) simp
  then have "\<forall>l' m. \<not> active ?h l' (Member (Heap p) m)" by (simp add: dead_def)
  moreover have "recvd ?h fd = sent ?h fd @ pending c"
    using str assms(4) by (simp add: h_stream_def)
  moreover have "\<forall>l' wt. w_obj wt \<noteq> Heap p \<longrightarrow> active ?h l' wt = active (hist w) l' wt" by auto
  ultimately show ?thesis
    using del assms(4) by (simp add: invoke_sh_def echo_client_wcb_timeout_sh_def)
qed

section \<open>Listening and accepting\<close>

text \<open>The calls \<open>main\<close> makes before the event loop.\<close>

lemma main_sh_hist:
  assumes "env_ok E" and "fresh_world w0" and "main_sh E argv w0 = Some (Running w)"
  shows "\<exists>sd l r1 r2 r3 r4 pn. atoi (argv ! 2) = Some pn \<and>
    hist w = [Ev_run l, Ev_io_start l (Member (Stack 0) Wev_accept),
      Ev_io_init (Member (Stack 0) Wev_accept) Wcb_accept sd {EV_READ},
      Listen sd 4096 (Inr r1),
      Bind sd \<lparr>sin_family = AF_INET, sin_addr = inet_addr (argv ! 1), sin_port = htons pn\<rparr> (Inr r2),
      Setsockopt sd SOL_SOCKET SO_REUSEADDR 1 (Inr r3), Ioctl sd FIONBIO 1 (Inr r4),
      Socket AF_INET SOCK_STREAM 0 (Inr sd), Ev_new_loop l] \<and>
    (\<forall>l' wt. active (hist w) l' wt \<longleftrightarrow> l' = l \<and> wt = Member (Stack 0) Wev_accept) \<and>
    (\<forall>p. heap w p = None) \<and> 3 \<le> length argv"
proof -
  define w1 where "w1 = ev_new_loop E w0"
  from assms(3) obtain rc w2 where l: "server_listen E 0 (argv ! 1) (argv ! 2) w1 = Some (rc, w2)"
    and rc: "0 \<le> rc" and w: "w = ev_run w2" and argv: "3 \<le> length argv"
    by (auto simp: main_sh_def server_main_def w1_def Let_def bind_some split: if_splits)
  have fresh: "hist w1 = [Ev_new_loop (loop w1)]" "\<forall>p. heap w1 p = None" "\<forall>n. servers w1 n = None"
    using assms(2) by (simp_all add: w1_def fresh_world_def ev_new_loop_def emit_def)
  from server_listen_running [OF assms(1) this l rc] obtain sd s pn a b c d where
    s: "s = \<lparr>s_addr = \<lparr>sin_family = AF_INET, sin_addr = inet_addr (argv ! 1), sin_port = htons pn\<rparr>,
      s_wev_accept = \<lparr>io_cb = Wcb_accept, io_fd = sd, io_events = {EV_READ}\<rparr>\<rparr>"
    and pn: "atoi (argv ! 2) = Some pn" and hp: "heap w2 = heap w1" and lp: "loop w2 = loop w1"
    and h: "hist w2 = [Ev_io_start (loop w1) (Member (Stack 0) Wev_accept),
      Ev_io_init (Member (Stack 0) Wev_accept) Wcb_accept sd {EV_READ},
      Listen sd LISTEN_BACKLOG (Inr a), Bind sd (s_addr s) (Inr b),
      Setsockopt sd SOL_SOCKET SO_REUSEADDR 1 (Inr c), Ioctl sd FIONBIO 1 (Inr d),
      Socket AF_INET SOCK_STREAM 0 (Inr sd), Ev_new_loop (loop w1)]" by blast
  have hw: "hist w = Ev_run (loop w1) # hist w2" and hp': "heap w = heap w1"
    by (simp_all add: w ev_run_def emit_def lp hp)
  have "\<forall>l' wt. active (hist w) l' wt \<longleftrightarrow> l' = loop w1 \<and> wt = Member (Stack 0) Wev_accept"
    unfolding hw h by auto
  moreover have "\<forall>p. heap w p = None" unfolding hp' by (rule fresh(2))
  moreover note hist_w = hw [unfolded h s LISTEN_BACKLOG_def echo_server.select_convs]
  ultimately show ?thesis
    using pn argv
    by (intro exI [of _ sd] exI [of _ "loop w1"] exI [of _ a] exI [of _ b] exI [of _ c] exI [of _ d]
        exI [of _ pn] conjI)
qed

text \<open>Once \<open>main\<close> is in the event loop it has created one socket, made it non-blocking,
  allowed the address to be used again, bound it to the host and port of the command line
  and called \<open>listen\<close>, in this order and with every step successful; exactly its accept
  watcher is active.\<close>

lemma main_listens_sh:
  assumes "env_ok E" and "fresh_world w0" and "main_sh E argv w0 = Some (Running w)"
  shows "\<exists>sd l r1 r2 r3 r4 pn. atoi (argv ! 2) = Some pn \<and>
    hist w = [Ev_run l, Ev_io_start l (Member (Stack 0) Wev_accept),
      Ev_io_init (Member (Stack 0) Wev_accept) Wcb_accept sd {EV_READ},
      Listen sd 4096 (Inr r1),
      Bind sd \<lparr>sin_family = AF_INET, sin_addr = inet_addr (argv ! 1), sin_port = htons pn\<rparr> (Inr r2),
      Setsockopt sd SOL_SOCKET SO_REUSEADDR 1 (Inr r3), Ioctl sd FIONBIO 1 (Inr r4),
      Socket AF_INET SOCK_STREAM 0 (Inr sd), Ev_new_loop l] \<and>
    (\<forall>l' wt. active (hist w) l' wt \<longleftrightarrow> l' = l \<and> wt = Member (Stack 0) Wev_accept) \<and>
    (\<forall>p. heap w p = None) \<and> 3 \<le> length argv"
  using assms by (rule main_sh_hist)

text \<open>No call for a socket recorded in a history failed.\<close>

definition all_calls_succeed :: "history \<Rightarrow> bool" where
  "all_calls_succeed h \<longleftrightarrow> (\<forall>e \<in> set h. case e of
     Socket _ _ _ r \<Rightarrow> \<not> isl r | Ioctl _ _ _ r \<Rightarrow> \<not> isl r | Setsockopt _ _ _ _ r \<Rightarrow> \<not> isl r
   | Bind _ _ r \<Rightarrow> \<not> isl r | Listen _ _ r \<Rightarrow> \<not> isl r | _ \<Rightarrow> True)"

text \<open>\<open>main\<close> never gets stuck: with fewer than two arguments it prints its usage and
  returns -1 without a call to the kernel; with a port that is a number it either reaches
  the event loop or returns -1, the latter exactly when one of the five system calls fails.\<close>

lemma main_outcome_sh:
  assumes ok: "env_ok E" and "fresh_world w0"
  shows "(length argv < 3 \<longrightarrow> main_sh E argv w0 =
       Some (Exited (-1) (w0\<lparr>hist := [Fprintf (ln ''Usage: %s host port'') [A_str (argv ! 0)]]\<rparr>))) \<and>
    (3 \<le> length argv \<longrightarrow> atoi (argv ! 2) \<noteq> None \<longrightarrow>
       (\<exists>w. main_sh E argv w0 = Some (Running w) \<and> all_calls_succeed (hist w)) \<or>
       (\<exists>w. main_sh E argv w0 = Some (Exited (-1) w) \<and> \<not> all_calls_succeed (hist w)))"
proof (cases "atoi (argv ! 2)")
  case None
  then show ?thesis using assms(2) by (simp add: main_sh_def server_main_def c_fprintf_def emit_def fresh_world_def)
next
  case (Some pn)
  note dests = env_okD(3) [OF ok] env_okD(7) [OF ok] env_okD(9) [OF ok] env_okD(10) [OF ok] env_okD(11) [OF ok]
  from Some show ?thesis
    using assms(2)
    by (auto simp: main_sh_def server_main_def server_listen_def aux_set_nonblk_def aux_set_sckopt_def
        call_defs all_calls_succeed_def fresh_world_def Let_def split: sum.splits dest: dests)
qed

lemma sh_listener:
  assumes "env_ok E" and "reach_sh E w"
  shows "\<exists>s l. servers w 0 = Some s \<and> open_fd (hist w) (io_fd (s_wev_accept s)) \<and>
    registered (hist w) (Member (Stack 0) Wev_accept) = Some Wcb_accept \<and>
    (\<forall>l' n m. active (hist w) l' (Member (Stack n) m) \<longleftrightarrow> l' = l \<and> n = 0 \<and> m = Wev_accept) \<and>
    (\<forall>l' m. \<not> active (hist w) l' (Member Global m))"
proof -
  obtain w0 where w0: "start_sh E w0" and same: "servers w = servers w0"
    "\<And>l n m. active (hist w) l (Member (Stack n) m) = active (hist w0) l (Member (Stack n) m)"
    "\<And>n m. registered (hist w) (Member (Stack n) m) = registered (hist w0) (Member (Stack n) m)"
    using sh.reach_listeners [OF assms(2,1)] unfolding no_spawn_def by metis
  from w0 obtain v argv where "fresh_world v" "server_main E argv v = Some (Running w0)"
    by (auto simp: start_sh_def main_sh_def)
  from server_listener [OF assms(1) this sh.reach_ginv [OF assms(2,1)] same] show ?thesis .
qed

text \<open>The server never stops listening: in every state it reaches the listening socket is
  open, and the accept watcher in the frame of \<open>main\<close> is active with its callback in the one
  loop the program has; no other watcher is outside the heap.\<close>

lemma listener_sh:
  assumes "env_ok E" and "reach_sh E w"
  shows "\<exists>s l. servers w 0 = Some s \<and> open_fd (hist w) (io_fd (s_wev_accept s)) \<and>
    registered (hist w) (Member (Stack 0) Wev_accept) = Some Wcb_accept \<and>
    (\<forall>l' n m. active (hist w) l' (Member (Stack n) m) \<longleftrightarrow> l' = l \<and> n = 0 \<and> m = Wev_accept) \<and>
    (\<forall>l' m. \<not> active (hist w) l' (Member Global m))"
  by (rule sh_listener [OF assms])

text \<open>A client whose connection the kernel accepts and for which there is memory gets a
  new connection: its address, its descriptor, an empty buffer, its receive watcher and its
  timer running and nothing else; all other connections and watchers are as before.\<close>

lemma accept_new_sh:
  assumes "env_ok E" and "reach_sh E w" and "servers w n = Some s" and "EV_ERROR \<notin> tev"
    and "e_accept E (hist w) (io_fd (s_wev_accept s)) = Inr (sd, a)"
    and "h1 = Accept (io_fd (s_wev_accept s)) (Inr (sd, a)) # hist w"
    and "e_ioctl E h1 sd 1 = Inr 0"
    and "e_malloc E (Ioctl sd FIONBIO 1 (Inr 0) # h1) = Some (p, g)"
  shows "\<exists>w' c. invoke_sh E Wcb_accept l (Member (Stack n) Wev_accept) tev (w\<lparr>loop := l\<rparr>) = Some w' \<and>
    heap w p = None \<and> heap w' = (heap w)(p := Some c) \<and> h_addr c = a \<and> io_fd (h_wev_recv c) = sd \<and>
    pending c = [] \<and> open_fd (hist w') sd \<and>
    (\<forall>l' m. active (hist w') l' (Member (Heap p) m) \<longleftrightarrow> l' = l \<and> m \<in> {Wev_recv, Wev_timeout}) \<and>
    (\<forall>l' wt. w_obj wt \<noteq> Heap p \<longrightarrow> active (hist w') l' wt = active (hist w) l' wt)"
proof -
  note inv = sh.reach_ginv [OF assms(2,1)]
  have sd: "0 \<le> sd" using env_okD(4) [OF assms(1,5)] by simp
  have "\<not> allocated (hist w) p"
    using env_okD(5) [OF assms(1,8)] assms(6) by simp
  then have free: "heap w p = None"
    using ginv_allocated [OF inv, of p] by (cases "heap w p") auto
  then have dead: "\<not> active (hist w) l' (Member (Heap p) m)" for l' m
    using ginv_dead [OF inv] by (simp add: dead_def)
  let ?c = "\<lparr>h_addr = a, h_wev_recv = \<lparr>io_cb = Wcb_recv, io_fd = sd, io_events = {EV_READ}\<rparr>,
    h_wev_send = \<lparr>io_cb = Wcb_send, io_fd = sd, io_events = {EV_WRITE}\<rparr>,
    h_wev_timeout = \<lparr>tm_cb = Wcb_timeout, tm_after = 0, tm_repeat = SOCKET_TIMEOUT\<rparr>,
    to_send = to_send g, to_send_beg = 0, to_send_size = 0\<rparr>"
  let ?h = "Ev_io_start l (Member (Heap p) Wev_recv) #
    Ev_timer_again l (Member (Heap p) Wev_timeout) SOCKET_TIMEOUT #
    Ev_timer_init (Member (Heap p) Wev_timeout) Wcb_timeout 0 SOCKET_TIMEOUT #
    Ev_io_init (Member (Heap p) Wev_send) Wcb_send sd {EV_WRITE} #
    Ev_io_init (Member (Heap p) Wev_recv) Wcb_recv sd {EV_READ} #
    Malloc (Some p) # Ioctl sd FIONBIO 1 (Inr 0) # h1"
  have addr: "\<lparr>sin_family = sin_family a, sin_addr = sin_addr a, sin_port = sin_port a\<rparr> = a" by (cases a) simp
  have run: "invoke_sh E Wcb_accept l (Member (Stack n) Wev_accept) tev (w\<lparr>loop := l\<rparr>) =
      Some (w\<lparr>loop := l, hist := ?h, heap := (heap w)(p := Some ?c)\<rparr>)"
    using assms sd by (simp add: invoke_sh_def echo_server_wcb_accept_sh_def server_accept_def aux_set_nonblk_def
        c_accept_def c_ioctl_def status_def emit_def add_sh_eq addr)
  have "active ?h l' (Member (Heap p) m) \<longleftrightarrow> l' = l \<and> m \<in> {Wev_recv, Wev_timeout}" for l' m
    using dead assms(6) by auto
  moreover have "active ?h l' wt = active (hist w) l' wt" if "w_obj wt \<noteq> Heap p" for l' wt
    using that assms(6) by auto
  ultimately show ?thesis
    using run free assms(6) by (intro exI [of _ "w\<lparr>loop := l, hist := ?h, heap := (heap w)(p := Some ?c)\<rparr>"]
        exI [of _ ?c]) (simp add: pending_def)
qed

text \<open>C11: a connection that was accepted but cannot be made non-blocking, or for which there
  is no memory, is lost for good: its descriptor stays open in every later state while no
  connection has it, so the server never serves the client and never closes the socket.\<close>

theorem accept_lost_sh:
  assumes "env_ok E" and "reach_sh E w" and "active (hist w) l (Member (Stack n) Wev_accept)"
    and "servers w n = Some s" and "EV_ERROR \<notin> tev"
    and "e_accept E (hist w) (io_fd (s_wev_accept s)) = Inr (sd, a)"
    and "h1 = Accept (io_fd (s_wev_accept s)) (Inr (sd, a)) # hist w"
    and "(\<exists>e. e_ioctl E h1 sd 1 = Inl e) \<or>
      e_ioctl E h1 sd 1 = Inr 0 \<and> e_malloc E (Ioctl sd FIONBIO 1 (Inr 0) # h1) = None"
  shows "\<exists>w1. invoke_sh E Wcb_accept l (Member (Stack n) Wev_accept) tev (w\<lparr>loop := l\<rparr>) = Some w1 \<and>
    (\<forall>w2. (ev_step (invoke_sh E))\<^sup>*\<^sup>* w1 w2 \<longrightarrow> open_fd (hist w2) sd \<and>
       (\<forall>p c. heap w2 p = Some c \<longrightarrow> io_fd (h_wev_recv c) \<noteq> sd))"
proof -
  note inv = sh.reach_ginv [OF assms(2,1)]
  have sd: "0 \<le> sd" "\<not> open_fd (hist w) sd" using env_okD(4) [OF assms(1,6)] by simp_all
  obtain w1 where w1: "invoke_sh E Wcb_accept l (Member (Stack n) Wev_accept) tev (w\<lparr>loop := l\<rparr>) = Some w1"
    and opn: "open_fd (hist w1) sd" and hp: "heap w1 = heap w"
    using assms(4-8) sd by (auto simp: invoke_sh_def echo_server_wcb_accept_sh_def server_accept_def aux_set_nonblk_def
        c_accept_def c_ioctl_def status_def emit_def add_sh_eq)
  have "registered (hist w) (Member (Stack n) Wev_accept) = Some Wcb_accept"
    using sh_listener [OF assms(1,2)] assms(3) by auto
  with w1 assms(2,3) have "reach_sh E w1"
    by (blast intro: ev_reach.reach_step dispatch)
  moreover have "\<forall>p c. heap w1 p = Some c \<longrightarrow> h_fd c \<noteq> Some sd"
    using ginv_open [OF inv] sd(2) hp by auto
  ultimately show ?thesis
    using w1 opn sh.reach_lost [OF _ assms(1), of w1 _ sd] by (auto simp: h_fd_def no_spawn_def)
qed

theorem accept_lost_sh_witness:
  "\<exists>w1. invoke_sh ((demo_env blank_h (deliver [104]) (accept_at_most 1))\<lparr>e_malloc := \<lambda>_. None\<rparr>) Wcb_accept 0
       (Member (Stack 0) Wev_accept) {EV_READ} (demo_start_sh\<lparr>loop := 0\<rparr>) = Some w1 \<and> open_fd (hist w1) 5"
proof -
  let ?E = "(demo_env blank_h (deliver [104]) (accept_at_most 1))\<lparr>e_malloc := \<lambda>_. None\<rparr>"
  let ?a = "\<lparr>sin_family = AF_INET, sin_addr = [127, 0, 0, 1], sin_port = [4, 0]\<rparr>"
  let ?s = "\<lparr>s_addr = \<lparr>sin_family = AF_INET, sin_addr = inet_addr ''127.0.0.1'', sin_port = htons 7\<rparr>,
      s_wev_accept = \<lparr>io_cb = Wcb_accept, io_fd = 3, io_events = {EV_READ}\<rparr>\<rparr>"
  let ?h1 = "Accept 3 (Inr (5, ?a)) # hist demo_start_sh"
  have s: "servers demo_start_sh 0 = Some ?s" and act: "active (hist demo_start_sh) 0 (Member (Stack 0) Wev_accept)"
    by (simp_all add: demo_start_sh_def)
  have acc: "e_accept ?E (hist demo_start_sh) (io_fd (s_wev_accept ?s)) = Inr (5, ?a)"
    by (simp add: demo_env_def demo_start_sh_def)
  have io: "e_ioctl ?E ?h1 5 1 = Inr 0 \<and> e_malloc ?E (Ioctl 5 FIONBIO 1 (Inr 0) # ?h1) = None"
    by (simp add: demo_env_def)
  have ev: "EV_ERROR \<notin> {EV_READ}" by simp
  from accept_lost_sh [OF demo_no_memory_ok demo_reach_start_sh(2) act s ev acc _ disjI2 [OF io]]
  show ?thesis by auto
qed

end
