(* ===== verification/ThreadHonest.thy ===== *)
theory ThreadHonest
  imports HonestAccept ThreadCommon
begin

text \<open>
  \<^verbatim>\<open>c-bachan/thread-honest.c\<close>: the buffered echo server with one event loop per
  processor. It differs from \<^verbatim>\<open>server-honest.c\<close> in its threads, in what it prints, in the
  mutex around \<open>accept\<close>, and in that it does nothing at the end of a stream. Suffix \<open>_th\<close>.
\<close>

type_synonym world_th = "(echo_client_h, echo_server_t) world"

section \<open>The code\<close>

subsection \<open>The connections\<close>

definition echo_client_del_th :: "ptr \<Rightarrow> world_th \<Rightarrow> (int \<times> world_th) option" where
  "echo_client_del_th p w = do {
     let w = ev_io_stop (loop w) (Member (Heap p) Wev_recv) w;
     let w = ev_io_stop (loop w) (Member (Heap p) Wev_send) w;
     let w = ev_timer_stop (loop w) (Member (Heap p) Wev_timeout) w;
     c \<leftarrow> load p w;
     let w = c_close (io_fd (h_wev_recv c)) w;
     w \<leftarrow> c_free p w;
     Some (0, w)
   }"

definition echo_client_wcb_timeout_th ::
  "loop \<Rightarrow> watcher \<Rightarrow> revent set \<Rightarrow> world_th \<Rightarrow> world_th option" where
  "echo_client_wcb_timeout_th lp wt tev w = do {
     ob \<leftarrow> aux_memberof Wev_timeout wt;
     p \<leftarrow> heap_ptr ob;
     (_, w) \<leftarrow> echo_client_del_th p w;
     Some w
   }"

definition echo_client_wcb_send_th ::
  "echo_client_h env \<Rightarrow> loop \<Rightarrow> watcher \<Rightarrow> revent set \<Rightarrow> world_th \<Rightarrow> world_th option" where
  "echo_client_wcb_send_th = honest_send echo_client_del_th"

text \<open>Making room for at least 32 bytes: the two lines of output are commented out here.\<close>

definition recv_room_th ::
  "int \<Rightarrow> ptr \<Rightarrow> world_th \<Rightarrow> (int \<times> world_th) option" where
  "recv_room_th fd p w = do {
     c \<leftarrow> load p w;
     rem_size \<leftarrow> buf_rem_size c;
     if rem_size < 32 then do {
       c \<leftarrow> buf_compact c;
       w \<leftarrow> store p c w;
       Some (buf_rem_size_front c, w)
     } else Some (rem_size, w)
   }"

definition echo_client_wcb_recv_th ::
  "echo_client_h env \<Rightarrow> loop \<Rightarrow> watcher \<Rightarrow> revent set \<Rightarrow> world_th \<Rightarrow> world_th option" where
  "echo_client_wcb_recv_th E lp wt tev w = do {
     ob \<leftarrow> aux_memberof Wev_recv wt;
     p \<leftarrow> heap_ptr ob;
     c \<leftarrow> load p w;
     let fd = io_fd (h_wev_recv c);
     (rem_size, w) \<leftarrow> recv_room_th fd p w;
     c \<leftarrow> load p w;
     (nb, data, w) \<leftarrow> aux_unix_recv E fd (word_of_int rem_size) w;
     c \<leftarrow> buf_fill c data;
     w \<leftarrow> store p c w;
     if nb < 0 then
       if errno w = EAGAIN then
         Some (ev_timer_again lp (Member (Heap p) Wev_timeout) (h_wev_timeout c) w)
       else do {
         let w = c_fprintf (ln ''recv error fd=%d (%d: %s)'')
               [A_int fd, A_strerror (errno w), A_strerror (errno w)] w;
         (_, w) \<leftarrow> echo_client_del_th p w;
         Some w
       }
     else if nb = 0 then Some w
     else do {
       w \<leftarrow> store p (buf_grow c nb) w;
       honest_flush echo_client_del_th E lp fd p w
     }
   }"

definition echo_client_add_th ::
  "echo_client_h env \<Rightarrow> int \<Rightarrow> sockaddr_in \<Rightarrow> world_th \<Rightarrow> (int \<times> world_th) option" where
  "echo_client_add_th = honest_add"

definition echo_server_wcb_accept_th ::
  "echo_client_h env \<Rightarrow> loop \<Rightarrow> watcher \<Rightarrow> revent set \<Rightarrow> world_th \<Rightarrow> world_th option" where
  "echo_server_wcb_accept_th = thread_accept echo_client_add_th"

subsection \<open>The main program\<close>

text \<open>
  The number of threads is the third argument, if there are exactly three; the number of
  processors, a \<open>long\<close> converted to \<open>int\<close>, otherwise.
\<close>

definition main_th :: "echo_client_h env \<Rightarrow> string list \<Rightarrow> world_th \<Rightarrow> world_th process option" where
  "main_th E argv w =
     (if length argv < 3 then
        Some (Exited (-1) (c_fprintf (ln ''Usage: %s host port'') [A_str (argv ! 0)] w))
      else do {
        (sd, w) \<leftarrow> echo_socket_listen E (argv ! 1) (argv ! 2) w;
        if sd < 0 then Some (Exited (-1) w)
        else do {
          (num_cores, w) \<leftarrow>
            (if length argv = 4 then do { n \<leftarrow> atoi (argv ! 3); Some (n, w) }
             else let (n, w) = c_sysconf E w in Some (int32 n, w));
          run_threads E sd num_cores w
        }
      })"

definition invoke_th ::
  "echo_client_h env \<Rightarrow> callback \<Rightarrow> loop \<Rightarrow> watcher \<Rightarrow> revent set \<Rightarrow> world_th \<Rightarrow> world_th option" where
  "invoke_th E cb lp wt tev w = (case cb of
     Wcb_accept \<Rightarrow> echo_server_wcb_accept_th E lp wt tev w
   | Wcb_recv \<Rightarrow> echo_client_wcb_recv_th E lp wt tev w
   | Wcb_send \<Rightarrow> echo_client_wcb_send_th E lp wt tev w
   | Wcb_timeout \<Rightarrow> echo_client_wcb_timeout_th lp wt tev w
   | _ \<Rightarrow> None)"

definition start_th :: "echo_client_h env \<Rightarrow> world_th \<Rightarrow> bool" where
  "start_th E w \<longleftrightarrow> (\<exists>argv w0. fresh_world w0 \<and> main_th E argv w0 = Some (Running w))"

section \<open>Correctness of the callbacks\<close>

lemma del_th_eq:
  "heap w p = Some c \<Longrightarrow> echo_client_del_th p w = Some (0, w\<lparr>hist :=
     Free p # Close (io_fd (h_wev_recv c)) # Ev_timer_stop (loop w) (Member (Heap p) Wev_timeout) #
     Ev_io_stop (loop w) (Member (Heap p) Wev_send) # Ev_io_stop (loop w) (Member (Heap p) Wev_recv) #
     hist w, heap := (heap w)(p := None)\<rparr>)"
  by (simp add: echo_client_del_th_def call_defs)

interpretation th_del: honest_deleter echo_client_del_th lfd_t
proof unfold_locales
  fix w0 w :: world_th and p fd c0 c
  assume inv: "ginv h_fd lfd_t {} honest_ok w0" and c0: "heap w0 p = Some c0" "h_fd c0 = Some fd"
    and on: "on_conn p fd c w0 w" and fd: "io_fd (h_wev_recv c) = fd"
    and wat: "watching (hist w) p (loop w)"
  define h where "h = Free p # Close fd # Ev_timer_stop (loop w) (Member (Heap p) Wev_timeout) #
     Ev_io_stop (loop w) (Member (Heap p) Wev_send) # Ev_io_stop (loop w) (Member (Heap p) Wev_recv) # hist w"
  have "ext {Heap p} {fd} (hist w) h"
    unfolding h_def by (auto intro!: ext_Cons ext_refl simp: about_def ev_fd_def init_ok_def)
  moreover have "dead h p" and "\<not> open_fd h fd"
    unfolding h_def using wat by (auto intro: dead_deleted)
  ultimately have "local_step h_fd lfd_t honest_ok w0 (w\<lparr>hist := h, heap := (heap w)(p := None)\<rparr>)"
    by (rule on_conn_delete [OF inv c0 on])
  then show "\<exists>w'. echo_client_del_th p w = Some (0, w') \<and> local_step h_fd lfd_t honest_ok w0 w'"
    using del_th_eq [OF on_conn_heap [OF on]] by (simp add: h_def fd)
next
  fix w :: world_th and p c
  assume "heap w p = Some c"
  then show "\<exists>w'. echo_client_del_th p w = Some (0, w') \<and> deleted p (io_fd (h_wev_recv c)) w w'"
    by (simp add: del_th_eq deleted_def fun_eq_iff)
qed

lemma timeout_th_local:
  assumes inv: "ginv h_fd lfd_t {} honest_ok w"
    and act: "active (hist w) (loop w) (Member (Heap p) Wev_timeout)"
  shows "\<exists>w'. echo_client_wcb_timeout_th lp (Member (Heap p) Wev_timeout) tev w = Some w' \<and>
    local_step h_fd lfd_t honest_ok w w'"
proof -
  obtain c where c: "heap w p = Some c"
    using ginv_dead [OF inv, of p] act by (auto simp: dead_def)
  then have c0: "heap w p = Some c" "h_fd c = Some (io_fd (h_wev_recv c))"
    by (simp_all add: h_fd_def)
  have "h_stream (hist w) p (loop w) c"
    using ginv_cok [OF inv c] act by (rule honest_okD)
  then have "watching (hist w) p (loop w)"
    by (simp add: h_stream_def)
  from th_del.del_local [OF inv c0 on_conn_start [OF inv c0] refl this] show ?thesis
    by (auto simp: echo_client_wcb_timeout_th_def)
qed

lemma recv_room_th_stream:
  assumes on: "on_conn p fd c w0 w" and str: "h_stream (hist w) p l c" and fd: "io_fd (h_wev_recv c) = fd"
    and room: "recv_room_th fd p w = Some (rem, w1)"
  shows "\<exists>c1. on_conn p fd c1 w0 w1 \<and> h_stream (hist w1) p l c1 \<and> loop w1 = loop w \<and>
    io_fd (h_wev_recv c1) = fd \<and> pending c1 = pending c \<and> same_io (hist w) (hist w1) \<and>
    rem = int TO_SEND_SIZE - int (to_send_beg c1) - int (unat (to_send_size c1))"
proof -
  have b: "buf_ok c" using str by (simp add: h_stream_def)
  note run = recv_room_th_def load_def on_conn_heap [OF on] buf_rem_size_ok [OF b]
  show ?thesis
  proof (cases "16384 - int (to_send_beg c) - int (unat (to_send_size c)) < 32")
    case True
    with room obtain c1 where c1: "buf_compact c = Some c1" and w1: "w1 = w\<lparr>heap := (heap w)(p := Some c1)\<rparr>"
      and rem: "rem = buf_rem_size_front c1"
      by (auto simp: run bind_some store_def)
    note k = buf_compact_ok [OF b c1] and cp = stream_compact [OF on str fd c1]
    show ?thesis
      using cp k rem buf_rem_size_front_ok [OF k(1)]
      by (intro exI [of _ c1]) (simp add: w1 TO_SEND_SIZE_eq same_io_def)
  next
    case False
    with room have "w1 = w" "rem = 16384 - int (to_send_beg c) - int (unat (to_send_size c))"
      by (simp_all add: run)
    with on str fd show ?thesis
      by (intro exI [of _ c]) (simp add: TO_SEND_SIZE_eq same_io_def)
  qed
qed

text \<open>At the end of the stream nothing is done.\<close>

definition eof_th :: "int \<Rightarrow> ptr \<Rightarrow> world_th \<Rightarrow> world_th option" where
  "eof_th fd p w = Some w"

lemma recv_th_eq:
  "echo_client_wcb_recv_th E lp wt tev w = honest_recv recv_room_th eof_th echo_client_del_th E lp wt w"
  unfolding echo_client_wcb_recv_th_def honest_recv_def eof_th_def ..

interpretation th_rcv: honest_receiver echo_client_del_th lfd_t recv_room_th eof_th
proof unfold_locales
  fix w0 w w1 :: world_th and p fd l rem and c :: echo_client_h
  assume "on_conn p fd c w0 w" "h_stream (hist w) p l c" "io_fd (h_wev_recv c) = fd"
    "recv_room_th fd p w = Some (rem, w1)"
  then show "\<exists>c1. on_conn p fd c1 w0 w1 \<and> h_stream (hist w1) p l c1 \<and> loop w1 = loop w \<and>
      io_fd (h_wev_recv c1) = fd \<and> pending c1 = pending c \<and> same_io (hist w) (hist w1) \<and>
      rem = int TO_SEND_SIZE - int (to_send_beg c1) - int (unat (to_send_size c1))"
    by (rule recv_room_th_stream)
next
  fix w :: world_th and p fd and c :: echo_client_h
  assume c: "heap w p = Some c" and b: "buf_ok c"
  then show "recv_room_th fd p w = None \<longleftrightarrow>
      TO_SEND_SIZE < to_send_beg c + length (pending c) + 32 \<and>
      0 < to_send_beg c \<and> to_send_beg c < length (pending c)"
    by (auto simp: recv_room_th_def load_def buf_rem_size_ok bind_none buf_compact_None [symmetric]
        store_def TO_SEND_SIZE_eq)
next
  fix w0 w :: world_th and p fd and c0 c :: echo_client_h
  assume inv: "ginv h_fd lfd_t {} honest_ok w0" and c0: "heap w0 p = Some c0" "h_fd c0 = Some fd"
    and "on_conn p fd c w0 w" "io_fd (h_wev_recv c) = fd" and "honest_ok (hist w) p c"
  then have "local_step h_fd lfd_t honest_ok w0 w"
    by (intro on_conn_keep [OF inv c0]) (simp_all add: h_fd_def)
  then show "\<exists>w'. eof_th fd p w = Some w' \<and> local_step h_fd lfd_t honest_ok w0 w'"
    by (simp add: eof_th_def)
qed

lemmas add_th_eq = honest_add_eq [where ?'a = echo_server_t and ?'b = unit, folded echo_client_add_th_def]

interpretation th_acc: thread_acceptor h_fd honest_ok echo_client_add_th
  unfolding echo_client_add_th_def thread_acceptor_def by (rule honest_acceptor)

lemma accept_th_local:
  assumes "env_ok E" and "ginv h_fd lfd_t {} honest_ok w" and "servers w n = Some s"
  shows "\<exists>w'. echo_server_wcb_accept_th E lp (Member (Stack n) Wev_accept) tev w = Some w' \<and>
    local_step h_fd lfd_t honest_ok w w'"
  unfolding echo_server_wcb_accept_th_def by (rule th_acc.thread_accept_local [OF assms])

section \<open>The whole program\<close>

lemma main_th_started:
  assumes ok: "env_ok E" and fresh: "fresh_world w0" and m: "main_th E argv w0 = Some (Running w)"
  shows "\<exists>sd n. started sd n (argv ! 1) (argv ! 2) w \<and>
    (if length argv = 4 then atoi (argv ! 3) = Some n else \<exists>h. n = int32 (e_sysconf E h))"
proof -
  from m obtain sd w1 where l: "echo_socket_listen E (argv ! 1) (argv ! 2) w0 = Some (sd, w1)" and sd: "0 \<le> sd"
    by (auto simp: main_th_def bind_some split: if_splits)
  show ?thesis
  proof (cases "length argv = 4")
    case True
    with m l sd obtain n where n: "atoi (argv ! 3) = Some n" and "run_threads E sd n w1 = Some (Running w)"
      by (auto simp: main_th_def bind_some split: if_splits)
    with run_threads_started [OF ok fresh l sd, of "[]" n w] have "started sd n (argv ! 1) (argv ! 2) w"
      by simp
    with n True show ?thesis by auto
  next
    case False
    with m l sd have "run_threads E sd (int32 (e_sysconf E (hist w1)))
        (w1\<lparr>hist := [Sysconf (e_sysconf E (hist w1))] @ hist w1\<rparr>) = Some (Running w)"
      by (auto simp: main_th_def c_sysconf_def emit_def split: if_splits)
    from run_threads_started [OF ok fresh l sd _ _ this]
    have "started sd (int32 (e_sysconf E (hist w1))) (argv ! 1) (argv ! 2) w"
      by (simp add: startup_event_def)
    with False show ?thesis by auto
  qed
qed

lemma start_th_started:
  assumes ok: "env_ok E" and st: "start_th E w"
  shows "\<exists>sd cores host port. started sd cores host port w"
  using st main_th_started [OF ok] unfolding start_th_def by blast

lemma invoke_th_local:
  assumes ok: "env_ok E" and inv: "ginv h_fd lfd_t {} honest_ok w" and act: "active (hist w) l wt"
    and reg: "registered (hist w) wt = Some cb" and l: "loop w = l"
    and run: "invoke_th E cb l wt tev w = Some w'"
  shows "local_step h_fd lfd_t honest_ok w w'"
  using inv act reg
proof (cases rule: honest_watcher_cases)
  case (accept n s)
  with accept_th_local [OF ok inv, of n s l tev] run show ?thesis
    by (simp add: invoke_th_def)
next
  case (recv p c)
  then obtain rem w1 nb data w2 where
    "recv_room_th (io_fd (h_wev_recv c)) p w = Some (rem, w1)" and
    "aux_unix_recv E (io_fd (h_wev_recv c)) (word_of_int rem) w1 = Some (nb, data, w2)"
    using run by (auto simp: invoke_th_def echo_client_wcb_recv_th_def load_def bind_some Let_def)
  from th_rcv.recv_local [OF ok inv _ recv(3) this] recv act run l show ?thesis
    by (auto simp: invoke_th_def recv_th_eq)
next
  case (send p c)
  with th_del.send_local [OF ok inv, of p tev] act run l show ?thesis
    by (auto simp: invoke_th_def echo_client_wcb_send_th_def)
next
  case (timeout p c)
  with timeout_th_local [OF inv, of p l tev] act run l show ?thesis
    by (auto simp: invoke_th_def)
qed

interpretation th_conn: thread_connections h_fd honest_ok
  by unfold_locales

lemma add_th_only: "adds_only echo_client_add_th"
  unfolding echo_client_add_th_def by (rule honest_adds_only)

lemma invoke_th_gone:
  assumes ok: "env_ok E" and inv: "ginv h_fd lfd_t {} honest_ok w" and act: "active (hist w) l wt"
    and reg: "registered (hist w) wt = Some cb" and l: "loop w = l"
    and run: "invoke_th E cb l wt tev w = Some w'"
    and d: "heap w q = Some d" "h_fd d = Some fd" "heap w' q = None"
  shows "gone_as fd (hist w) (hist w')"
  using inv act reg
proof (cases rule: honest_watcher_cases)
  case (accept n s)
  with thread_accept_keeps [OF add_th_only, of E l n tev w w' q] run d show ?thesis
    by (simp add: invoke_th_def echo_server_wcb_accept_th_def)
next
  case (recv p c)
  have a: "active (hist w) (loop w) (Member (Heap p) Wev_recv)" using act l recv(1) by simp
  have r: "honest_recv recv_room_th eof_th echo_client_del_th E (loop w) (Member (Heap p) Wev_recv) w = Some w'"
    using run recv l by (simp add: invoke_th_def recv_th_eq)
  show ?thesis
    by (rule th_rcv.recv_gone [OF ok inv a recv(3) r _ d])
      (auto simp: eof_th_def del_th_eq c_fprintf_def emit_def fun_eq_iff)
next
  case (send p c)
  with th_rcv.send_gone [OF ok inv _ send(3) _ d, of l tev] run act l show ?thesis
    by (simp add: invoke_th_def echo_client_wcb_send_th_def)
next
  case (timeout p c)
  with run d show ?thesis
    by (auto simp: invoke_th_def echo_client_wcb_timeout_th_def del_th_eq gone_as_def split: if_splits)
qed

interpretation th: echo_reactor h_fd lfd_t honest_ok "{}" invoke_th spawn_thread start_th threads_inv pending
proof unfold_locales
  fix E and w :: world_th
  assume "env_ok E" and "start_th E w"
  from start_th_started [OF this] show "ginv h_fd lfd_t {} honest_ok w" "threads_inv w"
    using started_inv by blast+
next
  fix E and w :: world_th and l wt cb tev w'
  assume "env_ok E" and "ginv h_fd lfd_t {} honest_ok w" and "active (hist w) l wt"
    and "registered (hist w) wt = Some cb" and "loop w = l" and "invoke_th E cb l wt tev w = Some w'"
  then show "local_step h_fd lfd_t honest_ok w w'" by (rule invoke_th_local)
next
  fix w w' :: world_th and l
  assume "threads_inv w" and "local_step h_fd lfd_t honest_ok (w\<lparr>loop := l\<rparr>) w'"
  then show "threads_inv w'" by (rule local_threads_inv)
next
  fix E and w w' :: world_th
  assume ok: "env_ok E" and inv: "ginv h_fd lfd_t {} honest_ok w" "threads_inv w" and sp: "spawn_thread E w w'"
  from th_conn.spawn_ginv [OF inv sp] spawn_thread_inv [OF ok inv sp]
  show "ginv h_fd lfd_t {} honest_ok w' \<and> threads_inv w'" ..
next
  fix E and w w' :: world_th
  assume "spawn_thread E w w'"
  then show "heap w' = heap w \<and> open_fd (hist w') = open_fd (hist w) \<and>
      (\<forall>n s. servers w n = Some s \<longrightarrow> servers w' n = Some s)"
    by (rule spawn_thread_keeps)
next
  fix h :: history and p c
  show "\<exists>fd. h_fd c = Some fd" by (simp add: h_fd_def)
  show "recvd h fd = sent h fd @ pending c" if "honest_ok h p c" and "h_fd c = Some fd" for fd
    using that by (auto simp: honest_ok_def h_stream_def h_fd_def)
next
  fix E and w w' :: world_th and l wt cb tev p c fd
  assume "env_ok E" and "ginv h_fd lfd_t {} honest_ok w" and "active (hist w) l wt"
    and "registered (hist w) wt = Some cb" and "loop w = l" and "invoke_th E cb l wt tev w = Some w'"
    and "heap w p = Some c" and "h_fd c = Some fd" and "heap w' p = None"
  then show "gone_as fd (hist w) (hist w')" by (rule invoke_th_gone)
qed

abbreviation reach_th :: "echo_client_h env \<Rightarrow> world_th \<Rightarrow> bool" where
  "reach_th E \<equiv> ev_reach (invoke_th E) (spawn_thread E) (start_th E)"

end
