(* ===== verification/ThreadHonestProps.thy ===== *)
theory ThreadHonestProps
  imports ThreadHonest ServerHonestRuns
begin

text \<open>
  What holds of \<^verbatim>\<open>thread-honest\<close>: its threads and their event loops, the echo, and what it
  does at the end of a stream. First a run of the program on the environment of \<open>Demo\<close>,
  with two threads, the second of which accepts the client; its states are the inputs of
  the witnesses.
\<close>

section \<open>Runs on a concrete environment\<close>

definition demo_main_th :: world_th where
  "demo_main_th = \<lparr>hist = [Ev_run 0, Ev_io_start 0 (Member (Stack 0) Wev_accept),
      Ev_io_init (Member (Stack 0) Wev_accept) Wcb_accept 3 {EV_READ}, Ev_new_loop 0,
      Pthread_create 1 3 0, Fprintf (ln ''found %d cores'') [A_int 2],
      Listen 3 4096 (Inr 0), Bind 3 \<lparr>sin_family = AF_INET, sin_addr = inet_addr ''127.0.0.1'',
        sin_port = htons 7\<rparr> (Inr 0),
      Setsockopt 3 SOL_SOCKET SO_REUSEADDR 1 (Inr 0), Ioctl 3 FIONBIO 1 (Inr 0),
      Socket AF_INET SOCK_STREAM 0 (Inr 3)], errno = Errno 0, heap = \<lambda>_. None,
    servers = (\<lambda>_. None)(0 := Some \<lparr>t_wev_accept = \<lparr>io_cb = Wcb_accept, io_fd = 3, io_events = {EV_READ}\<rparr>\<rparr>),
    loop = 0\<rparr>"

definition demo_spawned_th :: world_th where
  "demo_spawned_th = demo_main_th\<lparr>hist := Ev_run 1 # Ev_io_start 1 (Member (Stack 1) Wev_accept) #
      Ev_io_init (Member (Stack 1) Wev_accept) Wcb_accept 3 {EV_READ} # Ev_new_loop 1 # hist demo_main_th,
    servers := (servers demo_main_th)(1 := Some \<lparr>t_wev_accept =
      \<lparr>io_cb = Wcb_accept, io_fd = 3, io_events = {EV_READ}\<rparr>\<rparr>), loop := 1\<rparr>"

definition demo_conn_th :: world_th where
  "demo_conn_th = demo_spawned_th\<lparr>hist :=
      Ev_io_start 1 (Member (Heap 1) Wev_recv) #
      Ev_timer_again 1 (Member (Heap 1) Wev_timeout) SOCKET_TIMEOUT #
      Ev_timer_init (Member (Heap 1) Wev_timeout) Wcb_timeout 0 SOCKET_TIMEOUT #
      Ev_io_init (Member (Heap 1) Wev_send) Wcb_send 5 {EV_WRITE} #
      Ev_io_init (Member (Heap 1) Wev_recv) Wcb_recv 5 {EV_READ} #
      Malloc (Some 1) # Ioctl 5 FIONBIO 1 (Inr 0) # Mutex_unlock #
      Accept 3 (Inr (5, \<lparr>sin_family = AF_INET, sin_addr = [127, 0, 0, 1], sin_port = [4, 0]\<rparr>)) #
      Mutex_lock # hist demo_spawned_th, heap := (\<lambda>_. None)(1 := Some demo_client_h)\<rparr>"

definition empty_world :: "(echo_client_h, echo_server_t) world" where
  "empty_world = \<lparr>hist = [], errno = Errno 0, heap = \<lambda>_. None, servers = \<lambda>_. None, loop = 0\<rparr>"

lemma fresh_empty_world: "fresh_world empty_world"
  by (simp add: fresh_world_def empty_world_def)

lemma atoi_2: "atoi ''2'' = Some 2"
  by (simp add: atoi_def is_space_def digit_val_def)

lemma demo_main_th_run:
  "main_th (demo_env blank_h rcv snt) [''thread'', ''127.0.0.1'', ''7'', ''2''] empty_world = Some (Running demo_main_th)"
  by (simp add: main_th_def echo_socket_listen_def aux_set_nonblk_def aux_set_sckopt_def call_defs
      demo_env_def Let_def atoi_7 atoi_2 LISTEN_BACKLOG_def run_threads_def thread_func_eq
      demo_main_th_def empty_world_def)

lemma demo_reach_main_th: "reach_th (demo_env blank_h rcv snt) demo_main_th"
  unfolding start_th_def using demo_main_th_run fresh_empty_world
  by (intro reach_start) blast

lemma demo_reach_spawned_th: "reach_th (demo_env blank_h rcv snt) demo_spawned_th"
proof -
  have "spawn_thread (demo_env blank_h rcv snt) demo_main_th demo_spawned_th"
    unfolding spawn_thread_def
    by (intro exI [of _ 1] exI [of _ 3] conjI)
       (simp_all add: thread_func_eq demo_env_def demo_main_th_def demo_spawned_th_def)
  then show ?thesis by (rule reach_spawn [OF demo_reach_main_th])
qed

lemma demo_conn_th_simps [simp]:
  "heap demo_conn_th = (\<lambda>_. None)(1 := Some demo_client_h)"
  "active (hist demo_conn_th) 1 (Member (Heap 1) Wev_recv)"
  "active (hist demo_conn_th) 1 (Member (Stack 1) Wev_accept)"
  "registered (hist demo_conn_th) (Member (Heap 1) Wev_recv) = Some Wcb_recv"
  by (simp_all add: demo_conn_th_def demo_spawned_th_def demo_main_th_def)

lemma demo_step_conn_th: "ev_step (invoke_th (demo_env blank_h rcv snt)) demo_spawned_th demo_conn_th"
proof -
  have "invoke_th (demo_env blank_h rcv snt) Wcb_accept 1 (Member (Stack 1) Wev_accept) {EV_READ}
      (demo_spawned_th\<lparr>loop := 1\<rparr>) = Some demo_conn_th"
    by (simp add: invoke_th_def echo_server_wcb_accept_th_def thread_accept_def aux_set_nonblk_def call_defs
        add_th_eq demo_env_def demo_main_th_def demo_spawned_th_def demo_conn_th_def demo_client_h_def
        blank_h_def Let_def)
  then show ?thesis
    by (intro dispatch [of _ 1 "Member (Stack 1) Wev_accept" Wcb_accept])
       (simp_all add: demo_spawned_th_def demo_main_th_def)
qed

lemma demo_reach_conn_th: "reach_th (demo_env blank_h rcv snt) demo_conn_th"
  by (rule reach_step [OF demo_reach_spawned_th demo_step_conn_th])

section \<open>The threads\<close>

text \<open>When \<open>main\<close> of thread-honest is in its event loop it has bound one socket to the host
  and port of the command line and listens on it, and has created exactly the threads 1 to
  n - 1, each given this socket; n is the third argument if there is one and the number of
  processors otherwise. With n below 1 no thread is created and \<open>main\<close> serves alone.\<close>

lemma main_threads_th:
  assumes "env_ok E" and "fresh_world w0" and "main_th E argv w0 = Some (Running w)"
  shows "\<exists>sd n pn. atoi (argv ! 2) = Some pn \<and> Listen sd 4096 (Inr 0) \<in> set (hist w) \<and>
    Bind sd \<lparr>sin_family = AF_INET, sin_addr = inet_addr (argv ! 1), sin_port = htons pn\<rparr> (Inr 0) \<in> set (hist w) \<and>
    (if length argv = 4 then atoi (argv ! 3) = Some n
     else \<exists>h. n = int32 (e_sysconf E h)) \<and>
    (\<forall>i. Pthread_create i sd 0 \<in> set (hist w) \<longleftrightarrow> 0 < i \<and> int i \<le> n - 1) \<and>
    {i. servers w i \<noteq> None} = {0} \<and> (\<forall>p. heap w p = None)"
proof -
  from main_th_started [OF assms] obtain sd n where st: "started sd n (argv ! 1) (argv ! 2) w"
    and n: "if length argv = 4 then atoi (argv ! 3) = Some n else \<exists>h. n = int32 (e_sysconf E h)" by blast
  from started_events [OF st] obtain pn where "atoi (argv ! 2) = Some pn" "Listen sd 4096 (Inr 0) \<in> set (hist w)"
    "Bind sd \<lparr>sin_family = AF_INET, sin_addr = inet_addr (argv ! 1), sin_port = htons pn\<rparr> (Inr 0) \<in> set (hist w)"
    "\<forall>i. Pthread_create i sd 0 \<in> set (hist w) \<longleftrightarrow> 0 < i \<and> int i \<le> n - 1"
    "\<forall>p. heap w p = None" "{i. servers w i \<noteq> None} = {0}"
    by (elim exE conjE) (rule that)
  with n show ?thesis by (intro exI [of _ sd] exI [of _ n] exI [of _ pn] conjI)
qed

text \<open>C14: in every state thread-honest reaches, all started threads watch one and the same
  open socket, thread 0 is started and every other was created with that socket; each
  thread's accept watcher is active in exactly one loop, no two threads share a loop, and
  outside the heap nothing else is watched.\<close>

theorem threads_th:
  assumes "env_ok E" and "reach_th E w"
  shows "\<exists>sd. open_fd (hist w) sd \<and> servers w 0 \<noteq> None \<and>
    (\<forall>n s. servers w n = Some s \<longrightarrow> io_fd (t_wev_accept s) = sd \<and>
       (n = 0 \<or> Pthread_create n sd 0 \<in> set (hist w)) \<and>
       (\<exists>l. \<forall>l'. active (hist w) l' (Member (Stack n) Wev_accept) \<longleftrightarrow> l' = l)) \<and>
    (\<forall>l m n. active (hist w) l (Member (Stack m) Wev_accept) \<longrightarrow>
       active (hist w) l (Member (Stack n) Wev_accept) \<longrightarrow> m = n) \<and>
    (\<forall>l n m. active (hist w) l (Member (Stack n) m) \<longrightarrow> m = Wev_accept \<and> servers w n \<noteq> None) \<and>
    (\<forall>l m. \<not> active (hist w) l (Member Global m))"
  by (rule threads_inv_listen [OF th.reach_inv [OF assms(2,1)]])

theorem threads_th_witness:
  "\<exists>sd. open_fd (hist demo_conn_th) sd \<and> Pthread_create 1 sd 0 \<in> set (hist demo_conn_th)"
proof -
  have "servers demo_conn_th 1 \<noteq> None" by (simp add: demo_conn_th_def demo_spawned_th_def)
  with threads_th [OF demo_deliver_ok(1) demo_reach_conn_th [of "deliver []" "accept_at_most 1"]]
  show ?thesis by fastforce
qed

section \<open>The connections\<close>

text \<open>C12: every callback of thread-honest, in whichever thread it runs, is one step of the
  abstract echo server, and so is, as a step on no connection, the start of a thread. On the
  connection of the step the queue takes in what the history of system calls shows as
  received and gives out what it shows as sent, in order, and on every other connection
  nothing is received or sent: bytes are echoed in order, none lost or added while a
  connection lasts, across all threads.\<close>

theorem echo_refines_th:
  assumes "env_ok E" and "reach_th E w" and "echo_sim h_fd pending w m"
    and "ev_step (invoke_th E) w w' \<or> spawn_thread E w w'"
  shows "\<exists>lab m'. echo_step lab m m' \<and> echo_sim h_fd pending w' m' \<and> echo_obs lab m (hist w) (hist w')"
proof (cases "ev_step (invoke_th E) w w'")
  case True
  then show ?thesis by (rule th.step_refines [OF assms(1,2) _ assms(3)])
next
  case False
  with assms(4) have sp: "spawn_thread E w w'" by blast
  then have "heap w' = heap w" using spawn_thread_keeps by blast
  with assms(3) show ?thesis
    by (intro exI [of _ Idle] exI [of _ m])
      (simp add: echo_step.idle echo_sim_def echo_obs_def spawn_thread_untouched [OF sp])
qed

theorem echo_refines_th_witness:
  "\<exists>lab m'. echo_step lab (\<lambda>_. None) m' \<and> echo_sim h_fd pending demo_conn_th m' \<and>
     echo_obs lab (\<lambda>_. None) (hist demo_spawned_th) (hist demo_conn_th)"
proof (rule echo_refines_th [OF demo_deliver_ok(1) demo_reach_spawned_th])
  show "echo_sim h_fd pending demo_spawned_th (\<lambda>_. None)"
    by (simp add: echo_sim_def demo_spawned_th_def demo_main_th_def)
  show "ev_step (invoke_th (demo_env blank_h (deliver [104]) (accept_at_most 1))) demo_spawned_th demo_conn_th \<or>
      spawn_thread (demo_env blank_h (deliver [104]) (accept_at_most 1)) demo_spawned_th demo_conn_th"
    by (rule disjI1, rule demo_step_conn_th)
qed

text \<open>The receive callback of thread-honest has the same undefined case as that of
  server-honest: it is defined unless fewer than 32 bytes are free behind the pending bytes
  and these, not at the front of the buffer, are longer than the gap in front of them.\<close>

lemma recv_undefined_th:
  assumes "env_ok E" and "recv_returns E" and "reach_th E w" and "heap w p = Some c"
    and "active (hist w) l (Member (Heap p) Wev_recv)"
  shows "invoke_th E Wcb_recv l (Member (Heap p) Wev_recv) tev (w\<lparr>loop := l\<rparr>) = None \<longleftrightarrow>
    TO_SEND_SIZE < to_send_beg c + length (pending c) + 32 \<and>
    0 < to_send_beg c \<and> to_send_beg c < length (pending c)"
  using th_rcv.recv_None [of E "w\<lparr>loop := l\<rparr>" p c] th.reach_ginv [OF assms(3,1)] assms
  by (simp add: invoke_th_def recv_th_eq)

text \<open>What one receive callback does to a connection with nothing pending after the peer has
  closed its side.\<close>

lemma eof_step_th:
  assumes ok: "env_ok E" and r: "reach_th E w" and c: "heap w p = Some c" and fd: "io_fd (h_wev_recv c) = fd"
    and pend: "pending c = []" and act: "active (hist w) l (Member (Heap p) Wev_recv)"
    and eof: "\<forall>h n. e_recv E h fd n = Inr []"
  obtains w' c' where "invoke_th E Wcb_recv l (Member (Heap p) Wev_recv) tev (w\<lparr>loop := l\<rparr>) = Some w'"
    and "reach_th E w'" and "heap w' p = Some c'" and "io_fd (h_wev_recv c') = fd" and "pending c' = []"
    and "active (hist w') = active (hist w)" and "open_fd (hist w') fd" and "rearms (hist w') = rearms (hist w)"
proof -
  let ?w = "w\<lparr>loop := l\<rparr>"
  have inv: "ginv h_fd lfd_t {} honest_ok ?w" and act': "active (hist ?w) (loop ?w) (Member (Heap p) Wev_recv)"
    and c': "heap ?w p = Some c"
    using th.reach_ginv [OF r ok] act c by simp_all
  have "buf_ok c"
    using honest_okD(1) [OF ginv_cok [OF inv c'] act'] by (simp add: h_stream_def)
  with pend obtain rem w1 where room: "recv_room_th fd p ?w = Some (rem, w1)"
    using th_rcv.room_None [OF c', of fd] by auto
  have "e_recv E (hist w1) fd (word_of_int rem) = Inr []" using eof by simp
  from th_rcv.recv_eof [OF inv act' c' fd room this] obtain c1 w2
    where run: "honest_recv recv_room_th eof_th echo_client_del_th E (loop ?w) (Member (Heap p) Wev_recv) ?w =
        eof_th fd p w2"
      and w2: "on_conn p fd c1 ?w w2" "io_fd (h_wev_recv c1) = fd" "pending c1 = pending c"
        "same_io (hist ?w) (hist w2)" .
  have i: "invoke_th E Wcb_recv l (Member (Heap p) Wev_recv) tev ?w = Some w2"
    using run by (simp add: invoke_th_def recv_th_eq eof_th_def)
  have "registered (hist w) (Member (Heap p) Wev_recv) = Some Wcb_recv"
    using honest_okD(1) [OF ginv_cok [OF inv c'] act'] by (simp add: h_stream_def watching_def)
  with act i have "reach_th E w2" by (blast intro: reach_step [OF r] dispatch)
  with i w2 pend show thesis
    by (intro that [of w2 c1]) (simp_all add: on_conn_def same_io_def)
qed

text \<open>C13: thread-honest does nothing at the end of a stream, so a client that closes its side
  after everything was echoed makes the server spin: the receive callback can be run any
  number of times, each time it returns with the connection, its open descriptor and the
  still active watcher in place and the timer not put off. Only the timeout ends this.\<close>

theorem eof_ignored_th:
  assumes "env_ok E" and "reach_th E w" and "heap w p = Some c" and "io_fd (h_wev_recv c) = fd"
    and "pending c = []" and "active (hist w) l (Member (Heap p) Wev_recv)"
    and "\<forall>h n. e_recv E h fd n = Inr []"
  shows "\<exists>w' c'. ((\<lambda>x. Option.bind x (\<lambda>w. invoke_th E Wcb_recv l (Member (Heap p) Wev_recv) {EV_READ}
      (w\<lparr>loop := l\<rparr>))) ^^ k) (Some w) = Some w' \<and> reach_th E w' \<and>
    heap w' p = Some c' \<and> io_fd (h_wev_recv c') = fd \<and> pending c' = [] \<and> open_fd (hist w') fd \<and>
    active (hist w') = active (hist w) \<and> rearms (hist w') = rearms (hist w)"
proof (induction k)
  case 0
  have "open_fd (hist w) fd"
    using th.reach_open [OF assms(2,1,3)] assms(4) by (simp add: h_fd_def)
  with assms show ?case by auto
next
  case (Suc k)
  then obtain w1 c1 where w1: "((\<lambda>x. Option.bind x (\<lambda>w. invoke_th E Wcb_recv l (Member (Heap p) Wev_recv) {EV_READ}
      (w\<lparr>loop := l\<rparr>))) ^^ k) (Some w) = Some w1" "reach_th E w1" "heap w1 p = Some c1"
    "io_fd (h_wev_recv c1) = fd" "pending c1 = []" "active (hist w1) = active (hist w)"
    "rearms (hist w1) = rearms (hist w)" by blast
  have act1: "active (hist w1) l (Member (Heap p) Wev_recv)" using w1(6) assms(6) by simp
  from eof_step_th [OF assms(1) w1(2-5) act1 assms(7), of "{EV_READ}"] obtain w2 c2
    where "invoke_th E Wcb_recv l (Member (Heap p) Wev_recv) {EV_READ} (w1\<lparr>loop := l\<rparr>) = Some w2"
      "reach_th E w2" "heap w2 p = Some c2" "io_fd (h_wev_recv c2) = fd" "pending c2 = []"
      "active (hist w2) = active (hist w1)" "open_fd (hist w2) fd" "rearms (hist w2) = rearms (hist w1)" .
  with w1 show ?case by (intro exI [of _ w2] exI [of _ c2]) simp
qed

theorem eof_ignored_th_witness:
  "\<exists>w' c'. ((\<lambda>x. Option.bind x (\<lambda>w. invoke_th (demo_env blank_h (deliver []) (accept_at_most 1)) Wcb_recv 1
      (Member (Heap 1) Wev_recv) {EV_READ} (w\<lparr>loop := 1\<rparr>))) ^^ 1000000) (Some demo_conn_th) = Some w' \<and>
    heap w' 1 = Some c' \<and> open_fd (hist w') 5 \<and> active (hist w') 1 (Member (Heap 1) Wev_recv)"
proof -
  let ?E = "demo_env blank_h (deliver []) (accept_at_most 1)"
  have c: "heap demo_conn_th 1 = Some demo_client_h" "io_fd (h_wev_recv demo_client_h) = 5"
    "pending demo_client_h = []"
    by (simp_all add: pending_def)
  have "\<forall>h n. e_recv ?E h 5 n = Inr []" by (simp add: demo_env_def deliver_def)
  from eof_ignored_th [OF demo_deliver_ok(1) demo_reach_conn_th c demo_conn_th_simps(2) this, of 1000000]
  show ?thesis using demo_conn_th_simps(2) by (elim exE conjE) (intro exI conjI, assumption+, simp del: One_nat_def)
qed

end
