(* ===== verification/Server.thy ===== *)
theory Server
  imports PlainClient ServerCommon
begin

text \<open>
  \<^verbatim>\<open>c-bachan/server.c\<close>: the single-threaded echo server without a buffer. Its functions
  are those of \<open>PlainClient\<close> and \<open>ServerCommon\<close>, under the suffix \<open>_s\<close>. The interpretation
  of \<open>safe_reactor\<close> discharges the absence of undefined behaviour.
\<close>

type_synonym world_s = "(echo_client_p, echo_server) world"

section \<open>The code\<close>

definition echo_client_del_s :: "ptr \<Rightarrow> world_s \<Rightarrow> (int \<times> world_s) option" where
  "echo_client_del_s = plain_del"

definition echo_client_wcb_timeout_s ::
  "loop \<Rightarrow> watcher \<Rightarrow> revent set \<Rightarrow> world_s \<Rightarrow> world_s option" where
  "echo_client_wcb_timeout_s = plain_timeout"

definition echo_client_wcb_recv_s ::
  "echo_client_p env \<Rightarrow> loop \<Rightarrow> watcher \<Rightarrow> revent set \<Rightarrow> world_s \<Rightarrow> world_s option" where
  "echo_client_wcb_recv_s = plain_recv"

definition echo_client_add_s ::
  "echo_client_p env \<Rightarrow> int \<Rightarrow> sockaddr_in \<Rightarrow> world_s \<Rightarrow> (int \<times> world_s) option" where
  "echo_client_add_s = plain_add"

definition echo_server_wcb_accept_s ::
  "echo_client_p env \<Rightarrow> loop \<Rightarrow> watcher \<Rightarrow> revent set \<Rightarrow> world_s \<Rightarrow> world_s option" where
  "echo_server_wcb_accept_s = server_accept echo_client_add_s"

definition echo_server_listen_s ::
  "echo_client_p env \<Rightarrow> nat \<Rightarrow> string \<Rightarrow> string \<Rightarrow> world_s \<Rightarrow> (int \<times> world_s) option" where
  "echo_server_listen_s = server_listen"

definition main_s :: "echo_client_p env \<Rightarrow> string list \<Rightarrow> world_s \<Rightarrow> world_s process option" where
  "main_s = server_main"

definition invoke_s ::
  "echo_client_p env \<Rightarrow> callback \<Rightarrow> loop \<Rightarrow> watcher \<Rightarrow> revent set \<Rightarrow> world_s \<Rightarrow> world_s option" where
  "invoke_s E cb lp wt tev w = (case cb of
     Wcb_accept \<Rightarrow> echo_server_wcb_accept_s E lp wt tev w
   | Wcb_recv \<Rightarrow> echo_client_wcb_recv_s E lp wt tev w
   | Wcb_timeout \<Rightarrow> echo_client_wcb_timeout_s lp wt tev w
   | _ \<Rightarrow> None)"

definition start_s :: "echo_client_p env \<Rightarrow> world_s \<Rightarrow> bool" where
  "start_s E w \<longleftrightarrow> (\<exists>argv w0. fresh_world w0 \<and> main_s E argv w0 = Some (Running w))"

section \<open>The whole program\<close>

lemmas invoke_s_defs = invoke_s_def echo_server_wcb_accept_s_def echo_client_wcb_recv_s_def
  echo_client_wcb_timeout_s_def

interpretation s_acc: server_acceptor p_fd "plain_ok subseq" echo_client_add_s
  unfolding echo_client_add_s_def server_acceptor_def by (rule plain_acceptor) simp

lemma accept_s_local:
  assumes "stream_rel R E" and "env_ok E" and "ginv p_fd lfd_s {} (plain_ok R) w" and "servers w n = Some s"
  shows "\<exists>w'. echo_server_wcb_accept_s E lp (Member (Stack n) Wev_accept) tev w = Some w' \<and>
    local_step p_fd lfd_s (plain_ok R) w w'"
proof -
  have "R [] []" using assms(1) by (simp add: stream_rel_def)
  then have "server_acceptor p_fd (plain_ok R) plain_add"
    unfolding server_acceptor_def by (rule plain_acceptor)
  from server_acceptor.server_accept_local [OF this assms(2-4)] show ?thesis
    by (simp add: echo_server_wcb_accept_s_def echo_client_add_s_def)
qed

lemma invoke_s_local:
  assumes R: "stream_rel R E" and ok: "env_ok E" and inv: "ginv p_fd lfd_s {} (plain_ok R) w"
    and act: "active (hist w) l wt"
    and reg: "registered (hist w) wt = Some cb" and l: "loop w = l"
    and run: "invoke_s E cb l wt tev w = Some w'"
  shows "local_step p_fd lfd_s (plain_ok R) w w'"
  using inv act reg
proof (cases rule: plain_watcher_cases)
  case (accept n s)
  with accept_s_local [OF R ok inv, of n s l tev] run show ?thesis
    by (simp add: invoke_s_def)
next
  case (recv p c)
  with run have run': "plain_recv E (loop w) (Member (Heap p) Wev_recv) tev w = Some w'"
    and act': "active (hist w) (loop w) (Member (Heap p) Wev_recv)"
    using act l by (simp_all add: invoke_s_defs)
  from plain_recv_result [OF run' recv(3)] obtain nb data w1
    where "aux_unix_recv E (io_fd (p_wev_recv c)) BUF_SIZE w = Some (nb, data, w1)" .
  from plain_recv_run [OF ok R inv act' recv(3) refl this, of tev] run' show ?thesis by auto
next
  case (timeout p c)
  with plain_timeout_run [OF inv, of p l tev] act run l show ?thesis
    by (auto simp: invoke_s_defs)
qed

lemma invoke_s_gone:
  assumes R: "stream_rel R E" and ok: "env_ok E" and inv: "ginv p_fd lfd_s {} (plain_ok R) w"
    and act: "active (hist w) l wt"
    and reg: "registered (hist w) wt = Some cb" and l: "loop w = l"
    and run: "invoke_s E cb l wt tev w = Some w'"
    and d: "heap w q = Some d" "p_fd d = Some fd" "heap w' q = None"
  shows "gone_as fd (hist w) (hist w')"
  using inv act reg
proof (cases rule: plain_watcher_cases)
  case (accept n s)
  have "adds_only echo_client_add_s" unfolding echo_client_add_s_def by (rule plain_adds_only)
  from server_accept_keeps [OF this, of E l n tev w w' q] accept run d show ?thesis
    by (simp add: invoke_s_defs)
next
  case (recv p c)
  with run have run': "plain_recv E (loop w) (Member (Heap p) Wev_recv) tev w = Some w'"
    and act': "active (hist w) (loop w) (Member (Heap p) Wev_recv)"
    using act l by (simp_all add: invoke_s_defs)
  from plain_recv_result [OF run' recv(3)] obtain nb data w1
    where "aux_unix_recv E (io_fd (p_wev_recv c)) BUF_SIZE w = Some (nb, data, w1)" .
  from plain_recv_run [OF ok R inv act' recv(3) refl this, of tev] run'
  have "plain_outcome E p (io_fd (p_wev_recv c)) w w'" by auto
  then show ?thesis using recv(3) d by (rule plain_recv_gone)
next
  case (timeout p c)
  with plain_timeout_run [OF inv, of p l tev] act run l d show ?thesis
    by (auto simp: invoke_s_defs gone_as_def split: if_splits)
qed

lemma invoke_s_defined:
  assumes ok: "env_ok E" "recv_returns E" and inv: "ginv p_fd lfd_s {} (plain_ok subseq) w"
    and act: "active (hist w) l wt" and reg: "registered (hist w) wt = Some cb" and l: "loop w = l"
  shows "invoke_s E cb l wt tev w \<noteq> None"
  using inv act reg
proof (cases rule: plain_watcher_cases)
  case (accept n s)
  with accept_s_local [OF stream_rel_subseq ok(1) inv, of n s l tev] show ?thesis
    by (auto simp: invoke_s_def)
next
  case (recv p c)
  with plain_recv_defined [OF ok stream_rel_subseq inv, of p tev] act l show ?thesis
    by (simp add: invoke_s_defs)
next
  case (timeout p c)
  with plain_timeout_run [OF inv, of p l tev] act l show ?thesis
    by (auto simp: invoke_s_defs)
qed

interpretation s: safe_reactor p_fd lfd_s "plain_ok subseq" "{}" invoke_s "\<lambda>_. no_spawn" start_s "\<lambda>_. True"
proof unfold_locales
  fix E :: "echo_client_p env" and w :: world_s
  assume ok: "env_ok E" and "start_s E w"
  then obtain argv v where v: "fresh_world v" "server_main E argv v = Some (Running w)"
    by (auto simp: start_s_def main_s_def)
  show "ginv p_fd lfd_s {} (plain_ok subseq) w" by (rule server_started_ginv [OF ok v])
next
  fix E :: "echo_client_p env" and w :: world_s and l wt cb tev w'
  assume "env_ok E" and "ginv p_fd lfd_s {} (plain_ok subseq) w" and "active (hist w) l wt"
    and "registered (hist w) wt = Some cb" and "loop w = l" and "invoke_s E cb l wt tev w = Some w'"
  then show "local_step p_fd lfd_s (plain_ok subseq) w w'" by (rule invoke_s_local [OF stream_rel_subseq])
next
  fix E :: "echo_client_p env" and w w' :: world_s
  assume "no_spawn w w'"
  then show "ginv p_fd lfd_s {} (plain_ok subseq) w' \<and> True" "heap w' = heap w \<and> open_fd (hist w') = open_fd (hist w) \<and>
      (\<forall>n s. servers w n = Some s \<longrightarrow> servers w' n = Some s)"
    by (simp_all add: no_spawn_def)
next
  fix E :: "echo_client_p env" and w :: world_s and l wt cb tev
  assume "env_ok E" and "recv_returns E" and "ginv p_fd lfd_s {} (plain_ok subseq) w" and "active (hist w) l wt"
    and "registered (hist w) wt = Some cb" and "loop w = l"
  then show "invoke_s E cb l wt tev w \<noteq> None" by (rule invoke_s_defined)
qed (rule TrueI)+

abbreviation reach_s :: "echo_client_p env \<Rightarrow> world_s \<Rightarrow> bool" where
  "reach_s E \<equiv> ev_reach (invoke_s E) no_spawn (start_s E)"

section \<open>The receive callback of a reachable state\<close>

lemma s_recv_outcome:
  assumes "env_ok E" and "reach_s E w" and "heap w p = Some c" and "io_fd (p_wev_recv c) = fd"
    and "active (hist w) l (Member (Heap p) Wev_recv)"
    and "invoke_s E Wcb_recv l (Member (Heap p) Wev_recv) tev (w\<lparr>loop := l\<rparr>) = Some w'"
  shows "plain_outcome E p fd w w'"
proof -
  let ?w = "w\<lparr>loop := l\<rparr>"
  have inv: "ginv p_fd lfd_s {} (plain_ok subseq) ?w" and act: "active (hist ?w) (loop ?w) (Member (Heap p) Wev_recv)"
    and c: "heap ?w p = Some c"
    using s.reach_ginv [OF assms(2,1)] assms(3,5) by simp_all
  have run: "plain_recv E (loop ?w) (Member (Heap p) Wev_recv) tev ?w = Some w'"
    using assms(6) by (simp add: invoke_s_defs)
  from plain_recv_result [OF run c] obtain nb data w1
    where "aux_unix_recv E fd BUF_SIZE ?w = Some (nb, data, w1)" using assms(4) by auto
  from plain_recv_run [OF assms(1) stream_rel_subseq inv act c assms(4) this, of tev] run show ?thesis
    by (simp add: plain_outcome_def)
qed

text \<open>A chunk is handed to \<open>send\<close> once.\<close>

lemma s_chunk:
  assumes "env_ok E" and "reach_s E w" and "heap w p = Some c" and "io_fd (p_wev_recv c) = fd"
    and "active (hist w) l (Member (Heap p) Wev_recv)"
    and "e_recv E (hist w) fd BUF_SIZE = Inr bs" and "bs \<noteq> []" and "h1 = Recv fd BUF_SIZE (Inr bs) # hist w"
  shows "\<exists>w'. invoke_s E Wcb_recv l (Member (Heap p) Wev_recv) tev (w\<lparr>loop := l\<rparr>) = Some w' \<and>
    recvd (hist w') fd = recvd (hist w) fd @ bs \<and>
    (case e_send E h1 fd bs of
       Inr k \<Rightarrow> heap w' = heap w \<and> sent (hist w') fd = sent (hist w) fd @ take k bs \<and>
         (\<forall>l'. \<not> active (hist w') l' (Member (Heap p) Wev_send))
     | Inl e \<Rightarrow> heap w' = (heap w)(p := None) \<and> \<not> open_fd (hist w') fd \<and>
         sent (hist w') fd = sent (hist w) fd)"
proof -
  let ?w = "w\<lparr>loop := l\<rparr>"
  have "plain_watched (hist w) p l c"
    using s.reach_cok [OF assms(2,1,3)] assms(5) by (rule plain_okD)
  then have none: "\<not> active (hist w) l' (Member (Heap p) Wev_send)" for l'
    by (simp add: plain_watched_def)
  have len: "length bs < 2 ^ 31"
    using env_okD(1) [OF assms(1,6)] by (simp add: BUF_SIZE_def)
  have rcv: "aux_unix_recv E fd BUF_SIZE ?w = Some (int (length bs), bs, ?w\<lparr>hist := h1\<rparr>)"
    using recv_data [of E ?w fd BUF_SIZE bs] assms(6,8) len by simp
  note run = invoke_s_defs plain_recv_def load_def assms(3,4,7) rcv Let_def
  have d: "\<exists>w2. plain_del p v = Some (0, w2) \<and> heap w2 = (heap v)(p := None) \<and>
      \<not> open_fd (hist w2) fd \<and> recvd (hist w2) = recvd (hist v) \<and> sent (hist w2) = sent (hist v)"
    if "heap v p = Some c" for v :: world_s
    using plain_del_eq [OF that] assms(4) by (simp add: fun_eq_iff)
  show ?thesis
    using assms(1) len
  proof (cases rule: aux_unix_send_cases [where w = "?w\<lparr>hist := h1\<rparr>" and fd = fd])
    case (error e)
    let ?v = "c_fprintf (ln ''send error fd=%d (%d: %s)'') [A_int fd, A_strerror e, A_strerror e]
        (?w\<lparr>hist := Send fd bs (Inl e) # h1, errno := e\<rparr>)"
    have "heap ?v p = Some c" using assms(3) by (simp add: c_fprintf_def emit_def)
    from d [OF this] obtain w2 where "plain_del p ?v = Some (0, w2)" "heap w2 = (heap ?v)(p := None)"
      "\<not> open_fd (hist w2) fd" "recvd (hist w2) = recvd (hist ?v)" "sent (hist w2) = sent (hist ?v)" by blast
    then show ?thesis
      using error assms(8) by (simp add: run c_fprintf_def emit_def)
  next
    case (sent k)
    then show ?thesis
      using none assms(8) by (simp add: run ev_timer_again_def emit_def)
  qed
qed

text \<open>
  The same program in an environment that takes all it is given: as a reactor of its own,
  in which every connection has sent exactly what it received.
\<close>

definition invoke_all_s ::
  "echo_client_p env \<Rightarrow> callback \<Rightarrow> loop \<Rightarrow> watcher \<Rightarrow> revent set \<Rightarrow> world_s \<Rightarrow> world_s option" where
  "invoke_all_s E cb lp wt tev w = (if takes_all E then invoke_s E cb lp wt tev w else None)"

definition start_all_s :: "echo_client_p env \<Rightarrow> world_s \<Rightarrow> bool" where
  "start_all_s E w \<longleftrightarrow> takes_all E \<and> start_s E w"

interpretation s_all: echo_reactor p_fd lfd_s "plain_ok (=)" "{}" invoke_all_s "\<lambda>_. no_spawn" start_all_s
  "\<lambda>_. True" "\<lambda>_. []"
proof unfold_locales
  fix h h' :: history and p c Os F
  assume "plain_ok (=) h p c" and "ext Os F h h'" and "Heap p \<notin> Os"
    and "\<And>fd. p_fd c = Some fd \<Longrightarrow> fd \<notin> F"
  then show "plain_ok (=) h' p c" by (rule plain_ok_ext)
next
  fix h p c l
  assume "plain_ok (=) h p c"
  then show "plain_ok (=) (Ev_new_loop l # h) p c" by (rule plain_ok_new_loop)
next
  fix E :: "echo_client_p env" and w :: world_s
  assume ok: "env_ok E" and "start_all_s E w"
  then obtain argv v where v: "fresh_world v" "server_main E argv v = Some (Running w)"
    by (auto simp: start_all_s_def start_s_def main_s_def)
  show "ginv p_fd lfd_s {} (plain_ok (=)) w" by (rule server_started_ginv [OF ok v])
next
  fix E :: "echo_client_p env" and w :: world_s and l wt cb tev w'
  assume "env_ok E" and "ginv p_fd lfd_s {} (plain_ok (=)) w" and "active (hist w) l wt"
    and "registered (hist w) wt = Some cb" and "loop w = l" and run: "invoke_all_s E cb l wt tev w = Some w'"
  moreover from run have "stream_rel (=) E" "invoke_s E cb l wt tev w = Some w'"
    by (auto simp: invoke_all_s_def stream_rel_eq split: if_splits)
  ultimately show "local_step p_fd lfd_s (plain_ok (=)) w w'" by (blast intro: invoke_s_local)
next
  fix E :: "echo_client_p env" and w w' :: world_s
  assume "no_spawn w w'"
  then show "ginv p_fd lfd_s {} (plain_ok (=)) w' \<and> True" "heap w' = heap w \<and> open_fd (hist w') = open_fd (hist w) \<and>
      (\<forall>n s. servers w n = Some s \<longrightarrow> servers w' n = Some s)"
    by (simp_all add: no_spawn_def)
next
  fix h :: history and p c
  show "\<exists>fd. p_fd c = Some fd" by (simp add: p_fd_def)
  show "recvd h fd = sent h fd @ []" if "plain_ok (=) h p c" and "p_fd c = Some fd" for fd
    using that by (auto simp: plain_ok_def p_fd_def)
next
  fix E and w w' :: world_s and l wt cb tev p c fd
  assume "env_ok E" and "ginv p_fd lfd_s {} (plain_ok (=)) w" and "active (hist w) l wt"
    and "registered (hist w) wt = Some cb" and "loop w = l" and run: "invoke_all_s E cb l wt tev w = Some w'"
    and "heap w p = Some c" and "p_fd c = Some fd" and "heap w' p = None"
  moreover from run have "stream_rel (=) E" "invoke_s E cb l wt tev w = Some w'"
    by (auto simp: invoke_all_s_def stream_rel_eq split: if_splits)
  ultimately show "gone_as fd (hist w) (hist w')" by (blast intro: invoke_s_gone)
qed (rule TrueI)+

lemma all_s_eq:
  "takes_all E \<Longrightarrow> invoke_all_s E = invoke_s E" "takes_all E \<Longrightarrow> start_all_s E = start_s E"
  by (simp_all add: fun_eq_iff invoke_all_s_def start_all_s_def)

lemma s_refines_all:
  assumes "takes_all E" and "env_ok E" and "reach_s E w" and "ev_step (invoke_s E) w w'"
    and "echo_sim p_fd (\<lambda>_. []) w m"
  shows "\<exists>lab m'. echo_step lab m m' \<and> echo_sim p_fd (\<lambda>_. []) w' m' \<and> echo_obs lab m (hist w) (hist w')"
  using s_all.step_refines [of E w w' m] assms by (simp add: all_s_eq)

lemma s_exact:
  assumes "takes_all E" and "env_ok E" and "reach_s E w" and "heap w p = Some c" and "p_fd c = Some fd"
  shows "sent (hist w) fd = recvd (hist w) fd"
  using s_all.reach_cok [of E w p c] assms by (auto simp: all_s_eq plain_ok_def p_fd_def)

end
