(* ===== verification/ServerProps.thy ===== *)
theory ServerProps
  imports Server Demo
begin

text \<open>
  What holds of \<^verbatim>\<open>server.c\<close>: it has no undefined behaviour, it echoes exactly while the
  kernel takes all it is given, and loses what the kernel does not take. First a run on the
  environment of \<open>Demo\<close>, whose states are the inputs of the witnesses.
\<close>

section \<open>Runs on a concrete environment\<close>

definition blank_p :: echo_client_p where
  "blank_p = \<lparr>p_addr = zero_addr, p_wev_recv = zero_io, p_wev_timeout = zero_timer\<rparr>"

definition demo_client_p :: echo_client_p where
  "demo_client_p = \<lparr>p_addr = \<lparr>sin_family = AF_INET, sin_addr = [127, 0, 0, 1], sin_port = [4, 0]\<rparr>,
     p_wev_recv = \<lparr>io_cb = Wcb_recv, io_fd = 5, io_events = {EV_READ}\<rparr>,
     p_wev_timeout = \<lparr>tm_cb = Wcb_timeout, tm_after = 0, tm_repeat = SOCKET_TIMEOUT\<rparr>\<rparr>"

definition demo_start_s :: world_s where
  "demo_start_s = \<lparr>hist = [Ev_run 0, Ev_io_start 0 (Member (Stack 0) Wev_accept),
      Ev_io_init (Member (Stack 0) Wev_accept) Wcb_accept 3 {EV_READ},
      Listen 3 4096 (Inr 0), Bind 3 \<lparr>sin_family = AF_INET, sin_addr = inet_addr ''127.0.0.1'',
        sin_port = htons 7\<rparr> (Inr 0),
      Setsockopt 3 SOL_SOCKET SO_REUSEADDR 1 (Inr 0), Ioctl 3 FIONBIO 1 (Inr 0),
      Socket AF_INET SOCK_STREAM 0 (Inr 3), Ev_new_loop 0], errno = Errno 0, heap = \<lambda>_. None,
    servers = (\<lambda>_. None)(0 := Some \<lparr>s_addr = \<lparr>sin_family = AF_INET,
        sin_addr = inet_addr ''127.0.0.1'', sin_port = htons 7\<rparr>,
      s_wev_accept = \<lparr>io_cb = Wcb_accept, io_fd = 3, io_events = {EV_READ}\<rparr>\<rparr>), loop = 0\<rparr>"

definition demo_conn_s :: world_s where
  "demo_conn_s = demo_start_s\<lparr>hist :=
      Ev_io_start 0 (Member (Heap 1) Wev_recv) #
      Ev_timer_again 0 (Member (Heap 1) Wev_timeout) SOCKET_TIMEOUT #
      Ev_timer_init (Member (Heap 1) Wev_timeout) Wcb_timeout 0 SOCKET_TIMEOUT #
      Ev_io_init (Member (Heap 1) Wev_recv) Wcb_recv 5 {EV_READ} #
      Malloc (Some 1) # Ioctl 5 FIONBIO 1 (Inr 0) #
      Accept 3 (Inr (5, \<lparr>sin_family = AF_INET, sin_addr = [127, 0, 0, 1], sin_port = [4, 0]\<rparr>)) #
      hist demo_start_s, heap := (\<lambda>_. None)(1 := Some demo_client_p)\<rparr>"

lemma demo_reach_start_s: "reach_s (demo_env blank_p rcv snt) demo_start_s"
proof -
  let ?w = "\<lparr>hist = [], errno = Errno 0, heap = \<lambda>_. None, servers = \<lambda>_. None, loop = 0\<rparr>"
  have "fresh_world ?w" by (simp add: fresh_world_def)
  moreover have "atoi ''7'' = Some 7" by (simp add: atoi_def is_space_def digit_val_def)
  then have "main_s (demo_env blank_p rcv snt) [''server'', ''127.0.0.1'', ''7''] ?w = Some (Running demo_start_s)"
    by (simp add: main_s_def server_main_def server_listen_def aux_set_nonblk_def aux_set_sckopt_def call_defs
        demo_env_def Let_def LISTEN_BACKLOG_def demo_start_s_def)
  ultimately show ?thesis
    unfolding start_s_def by (intro reach_start) blast
qed

lemma demo_step_conn_s: "ev_step (invoke_s (demo_env blank_p rcv snt)) demo_start_s demo_conn_s"
proof -
  have "invoke_s (demo_env blank_p rcv snt) Wcb_accept 0 (Member (Stack 0) Wev_accept) {EV_READ}
      (demo_start_s\<lparr>loop := 0\<rparr>) = Some demo_conn_s"
    by (simp add: invoke_s_def echo_server_wcb_accept_s_def server_accept_def aux_set_nonblk_def call_defs
        echo_client_add_s_def plain_add_eq demo_env_def demo_start_s_def demo_conn_s_def demo_client_p_def Let_def)
  then show ?thesis
    by (intro dispatch [of _ 0 "Member (Stack 0) Wev_accept" Wcb_accept]) (simp_all add: demo_start_s_def)
qed

lemma demo_reach_conn_s: "reach_s (demo_env blank_p rcv snt) demo_conn_s"
  by (rule reach_step [OF demo_reach_start_s demo_step_conn_s])

lemma demo_conn_s_simps [simp]:
  "heap demo_conn_s = (\<lambda>_. None)(1 := Some demo_client_p)"
  "active (hist demo_conn_s) 0 (Member (Heap 1) Wev_recv)"
  "registered (hist demo_conn_s) (Member (Heap 1) Wev_recv) = Some Wcb_recv"
  "recvd (hist demo_conn_s) 5 = []" "sent (hist demo_conn_s) 5 = []"
  "io_fd (p_wev_recv demo_client_p) = 5"
  by (simp_all add: demo_conn_s_def demo_start_s_def demo_client_p_def)

section \<open>No undefined behaviour\<close>

text \<open>C19: as long as no call of \<open>recv\<close> is interrupted for ever, every callback libev can make
  in a state server.c reaches is defined and returns: no use of freed memory, no pointer to a
  wrong structure, no loop that does not end.\<close>

theorem callbacks_defined_s:
  assumes "env_ok E" and "recv_returns E" and "reach_s E w"
    and "active (hist w) l wt" and "registered (hist w) wt = Some cb"
  shows "\<exists>w'. invoke_s E cb l wt tev (w\<lparr>loop := l\<rparr>) = Some w'"
  by (rule s.reach_defined [OF assms])

theorem callbacks_defined_s_witness:
  "\<exists>w'. invoke_s (demo_env blank_p (deliver [104]) would_block) Wcb_recv 0 (Member (Heap 1) Wev_recv)
     {EV_READ} (demo_conn_s\<lparr>loop := 0\<rparr>) = Some w'"
  by (rule callbacks_defined_s [OF demo_deliver_ok(2,3) demo_reach_conn_s demo_conn_s_simps(2,3)])

text \<open>Libev holds no watcher of freed memory of server.c: an active watcher of a heap
  block is the receive watcher or the timer of an allocated connection whose descriptor is
  open, registered with the callback for that member.\<close>

lemma no_dangling_s:
  assumes "env_ok E" and "reach_s E w" and "active (hist w) l (Member (Heap p) m)"
  shows "\<exists>c. heap w p = Some c \<and> allocated (hist w) p \<and> open_fd (hist w) (io_fd (p_wev_recv c)) \<and>
    m \<in> {Wev_recv, Wev_timeout} \<and> registered (hist w) (Member (Heap p) m) = Some (cb_of m)"
proof -
  note inv = s.reach_ginv [OF assms(2,1)]
  obtain c where c: "heap w p = Some c"
    using s.reach_no_dangling [OF assms(2,1,3)] by blast
  have "plain_watched (hist w) p l c"
    using ginv_cok [OF inv c] assms(3) by (rule plain_okD)
  from plain_members [OF this assms(3)] have "m \<in> {Wev_recv, Wev_timeout}"
    "registered (hist w) (Member (Heap p) m) = Some (cb_of m)" by simp_all
  with c show ?thesis
    using ginv_allocated [OF inv c] ginv_open [OF inv c] by (simp add: p_fd_def)
qed

section \<open>The echo\<close>

text \<open>What one receive callback of server.c does: it closes the connection, sending
  nothing; or the connection is unchanged, the timer starts its interval anew, and either
  nothing arrived or a non-empty chunk did, of which a prefix was sent.\<close>

lemma recv_callback_s:
  assumes "env_ok E" and "reach_s E w" and "heap w p = Some c" and "io_fd (p_wev_recv c) = fd"
    and "active (hist w) l (Member (Heap p) Wev_recv)"
    and "invoke_s E Wcb_recv l (Member (Heap p) Wev_recv) tev (w\<lparr>loop := l\<rparr>) = Some w'"
  shows "(heap w' = (heap w)(p := None) \<and> \<not> open_fd (hist w') fd \<and> sent (hist w') fd = sent (hist w) fd) \<or>
    (heap w' = heap w \<and>
      rearms (hist w') (Member (Heap p) Wev_timeout) = Suc (rearms (hist w) (Member (Heap p) Wev_timeout)) \<and>
      (\<exists>inp k. k \<le> length inp \<and> (inp = [] \<longrightarrow> errno w' = EAGAIN) \<and>
         recvd (hist w') fd = recvd (hist w) fd @ inp \<and> sent (hist w') fd = sent (hist w) fd @ take k inp))"
  using s_recv_outcome [OF assms] unfolding plain_outcome_def gone_as_def by fastforce

text \<open>C21: on every connection of server.c the bytes sent are a subsequence of the bytes
  received: bytes can be lost, but none is invented, repeated or reordered.\<close>

theorem sent_subseq_s:
  assumes "env_ok E" and "reach_s E w" and "heap w p = Some c"
  shows "subseq (sent (hist w) (io_fd (p_wev_recv c))) (recvd (hist w) (io_fd (p_wev_recv c)))"
  by (rule plain_ok_stream [OF s.reach_cok [OF assms(2,1,3)] refl])

theorem sent_subseq_s_witness:
  "reach_s (demo_env blank_p (deliver [104]) would_block) demo_conn_s \<and>
   subseq (sent (hist demo_conn_s) 5) (recvd (hist demo_conn_s) 5)"
  using sent_subseq_s [OF demo_deliver_ok(2) demo_reach_conn_s, of 1 demo_client_p] demo_reach_conn_s
  by simp

text \<open>While the kernel takes whatever \<open>send\<close> is given, server.c echoes exactly: on every
  connection, in every state, all that was received has been sent.\<close>

lemma exact_echo_s:
  assumes "env_ok E" and "reach_s E w" and "heap w p = Some c"
    and "takes_all E"
  shows "sent (hist w) (io_fd (p_wev_recv c)) = recvd (hist w) (io_fd (p_wev_recv c))"
  by (rule s_exact [OF assms(4,1-3)]) (simp add: p_fd_def)

text \<open>C20: what server.c does with a chunk it received: whatever the kernel does not take is
  lost. After a partial \<open>send\<close> the connection goes on, nothing of the rest is kept and no
  watcher waits to send it; if the descriptor is not writable at all, or on any other error,
  the connection is closed with the whole chunk unsent.\<close>

theorem unsent_lost_s:
  assumes "env_ok E" and "reach_s E w" and "heap w p = Some c" and "io_fd (p_wev_recv c) = fd"
    and "active (hist w) l (Member (Heap p) Wev_recv)"
    and "e_recv E (hist w) fd BUF_SIZE = Inr bs" and "bs \<noteq> []" and "h1 = Recv fd BUF_SIZE (Inr bs) # hist w"
  shows "\<exists>w'. invoke_s E Wcb_recv l (Member (Heap p) Wev_recv) tev (w\<lparr>loop := l\<rparr>) = Some w' \<and>
    recvd (hist w') fd = recvd (hist w) fd @ bs \<and>
    (case e_send E h1 fd bs of
       Inr k \<Rightarrow> heap w' = heap w \<and> sent (hist w') fd = sent (hist w) fd @ take k bs \<and>
         (\<forall>l'. \<not> active (hist w') l' (Member (Heap p) Wev_send))
     | Inl e \<Rightarrow> heap w' = (heap w)(p := None) \<and> \<not> open_fd (hist w') fd \<and>
         sent (hist w') fd = sent (hist w) fd)"
  using s_chunk [OF assms] .

theorem unsent_lost_s_witness:
  "\<exists>w'. invoke_s (demo_env blank_p (deliver [104, 105]) would_block) Wcb_recv 0
       (Member (Heap 1) Wev_recv) {EV_READ} (demo_conn_s\<lparr>loop := 0\<rparr>) = Some w' \<and>
     recvd (hist w') 5 = [104, 105] \<and> sent (hist w') 5 = [] \<and> \<not> open_fd (hist w') 5"
proof -
  let ?E = "demo_env blank_p (deliver [104, 105]) would_block"
  have c: "heap demo_conn_s 1 = Some demo_client_p" by simp
  have r: "e_recv ?E (hist demo_conn_s) 5 BUF_SIZE = Inr [104, 105]"
    by (simp add: demo_env_def deliver_def BUF_SIZE_def)
  have s: "e_send ?E h 5 [104, 105] = Inl EAGAIN" for h by (simp add: demo_env_def would_block_def)
  from unsent_lost_s [OF demo_deliver_ok(2) demo_reach_conn_s c demo_conn_s_simps(6,2) r _ refl, of "{EV_READ}",
      unfolded s sum.case] show ?thesis by fastforce
qed

text \<open>C22: in such an environment server.c meets the specification of the buffered servers
  with queues that stay empty: each callback is one step of the abstract echo server, in
  which every connection holds no byte before and after. So either nothing is received or sent
  on any connection, or on one connection the history shows the same bytes received and sent,
  or one opens or closes, and the others are left alone.\<close>

theorem echo_refines_s:
  assumes "env_ok E" and "reach_s E w" and "takes_all E" and "ev_step (invoke_s E) w w'"
    and "echo_sim p_fd (\<lambda>_. []) w m"
  shows "\<exists>lab m'. echo_step lab m m' \<and> echo_sim p_fd (\<lambda>_. []) w' m' \<and> echo_obs lab m (hist w) (hist w')"
  by (rule s_refines_all [OF assms(3,1,2,4,5)])

theorem echo_refines_s_witness:
  "\<exists>lab m'. echo_step lab (\<lambda>_. None) m' \<and> echo_sim p_fd (\<lambda>_. []) demo_conn_s m' \<and>
     echo_obs lab (\<lambda>_. None) (hist demo_start_s) (hist demo_conn_s)"
proof (rule echo_refines_s [OF demo_deliver_ok(2) demo_reach_start_s])
  show "takes_all (demo_env blank_p (deliver [104]) would_block)"
    by (simp add: takes_all_def demo_env_def would_block_def)
  show "echo_sim p_fd (\<lambda>_. []) demo_start_s (\<lambda>_. None)" by (simp add: echo_sim_def demo_start_s_def)
qed (rule demo_step_conn_s)

section \<open>Listening\<close>

text \<open>Server.c never stops listening: in every state it reaches the listening socket is
  open and its accept watcher is active with its callback in the one loop there is.\<close>

lemma listener_s:
  assumes "env_ok E" and "reach_s E w"
  shows "\<exists>s l. servers w 0 = Some s \<and> open_fd (hist w) (io_fd (s_wev_accept s)) \<and>
    registered (hist w) (Member (Stack 0) Wev_accept) = Some Wcb_accept \<and>
    (\<forall>l' n m. active (hist w) l' (Member (Stack n) m) \<longleftrightarrow> l' = l \<and> n = 0 \<and> m = Wev_accept) \<and>
    (\<forall>l' m. \<not> active (hist w) l' (Member Global m))"
proof -
  obtain w0 where w0: "start_s E w0" and same: "servers w = servers w0"
    "\<And>l n m. active (hist w) l (Member (Stack n) m) = active (hist w0) l (Member (Stack n) m)"
    "\<And>n m. registered (hist w) (Member (Stack n) m) = registered (hist w0) (Member (Stack n) m)"
    using s.reach_listeners [OF assms(2,1)] unfolding no_spawn_def by metis
  from w0 obtain v argv where "fresh_world v" "server_main E argv v = Some (Running w0)"
    by (auto simp: start_s_def main_s_def)
  from server_listener [OF assms(1) this s.reach_ginv [OF assms(2,1)] same] show ?thesis .
qed

end
