(* ===== verification/Thread.thy ===== *)
theory Thread
  imports PlainClient ThreadCommon
begin

text \<open>
  \<^verbatim>\<open>c-bachan/thread.c\<close>: the echo server without a buffer, with one event loop per
  processor. Its functions are those of \<open>PlainClient\<close> and \<open>ThreadCommon\<close>, under the suffix
  \<open>_t\<close>; only \<open>main\<close> differs from \<^verbatim>\<open>thread-honest.c\<close>, which also takes a number of threads.
\<close>

type_synonym world_t = "(echo_client_p, echo_server_t) world"

section \<open>The code\<close>

definition echo_client_del_t :: "ptr \<Rightarrow> world_t \<Rightarrow> (int \<times> world_t) option" where
  "echo_client_del_t = plain_del"

definition echo_client_wcb_timeout_t ::
  "loop \<Rightarrow> watcher \<Rightarrow> revent set \<Rightarrow> world_t \<Rightarrow> world_t option" where
  "echo_client_wcb_timeout_t = plain_timeout"

definition echo_client_wcb_recv_t ::
  "echo_client_p env \<Rightarrow> loop \<Rightarrow> watcher \<Rightarrow> revent set \<Rightarrow> world_t \<Rightarrow> world_t option" where
  "echo_client_wcb_recv_t = plain_recv"

definition echo_client_add_t ::
  "echo_client_p env \<Rightarrow> int \<Rightarrow> sockaddr_in \<Rightarrow> world_t \<Rightarrow> (int \<times> world_t) option" where
  "echo_client_add_t = plain_add"

definition echo_server_wcb_accept_t ::
  "echo_client_p env \<Rightarrow> loop \<Rightarrow> watcher \<Rightarrow> revent set \<Rightarrow> world_t \<Rightarrow> world_t option" where
  "echo_server_wcb_accept_t = thread_accept echo_client_add_t"

definition echo_socket_listen_t ::
  "echo_client_p env \<Rightarrow> string \<Rightarrow> string \<Rightarrow> world_t \<Rightarrow> (int \<times> world_t) option" where
  "echo_socket_listen_t = echo_socket_listen"

definition thread_func_t :: "echo_client_p env \<Rightarrow> nat \<Rightarrow> int \<Rightarrow> world_t \<Rightarrow> world_t" where
  "thread_func_t = thread_func"

definition main_t :: "echo_client_p env \<Rightarrow> string list \<Rightarrow> world_t \<Rightarrow> world_t process option" where
  "main_t E argv w =
     (if length argv < 3 then
        Some (Exited (-1) (c_fprintf (ln ''Usage: %s host port'') [A_str (argv ! 0)] w))
      else do {
        (sd, w) \<leftarrow> echo_socket_listen_t E (argv ! 1) (argv ! 2) w;
        if sd < 0 then Some (Exited (-1) w)
        else do {
          let (n, w) = c_sysconf E w;
          run_threads E sd (int32 n) w
        }
      })"

definition invoke_t ::
  "echo_client_p env \<Rightarrow> callback \<Rightarrow> loop \<Rightarrow> watcher \<Rightarrow> revent set \<Rightarrow> world_t \<Rightarrow> world_t option" where
  "invoke_t E cb lp wt tev w = (case cb of
     Wcb_accept \<Rightarrow> echo_server_wcb_accept_t E lp wt tev w
   | Wcb_recv \<Rightarrow> echo_client_wcb_recv_t E lp wt tev w
   | Wcb_timeout \<Rightarrow> echo_client_wcb_timeout_t lp wt tev w
   | _ \<Rightarrow> None)"

definition start_t :: "echo_client_p env \<Rightarrow> world_t \<Rightarrow> bool" where
  "start_t E w \<longleftrightarrow> (\<exists>argv w0. fresh_world w0 \<and> main_t E argv w0 = Some (Running w))"

section \<open>The whole program\<close>

interpretation t_acc: thread_acceptor p_fd "plain_ok subseq" echo_client_add_t
  unfolding echo_client_add_t_def thread_acceptor_def by (rule plain_acceptor) simp

lemmas invoke_t_defs = invoke_t_def echo_server_wcb_accept_t_def echo_client_wcb_recv_t_def
  echo_client_wcb_timeout_t_def

lemma main_t_started:
  assumes ok: "env_ok E" and fresh: "fresh_world w0" and m: "main_t E argv w0 = Some (Running w)"
  shows "\<exists>sd h. started sd (int32 (e_sysconf E h)) (argv ! 1) (argv ! 2) w"
proof -
  from m obtain sd w1 where l: "echo_socket_listen E (argv ! 1) (argv ! 2) w0 = Some (sd, w1)" and sd: "0 \<le> sd"
    by (auto simp: main_t_def echo_socket_listen_t_def bind_some split: if_splits)
  with m have "run_threads E sd (int32 (e_sysconf E (hist w1)))
      (w1\<lparr>hist := [Sysconf (e_sysconf E (hist w1))] @ hist w1\<rparr>) = Some (Running w)"
    by (auto simp: main_t_def echo_socket_listen_t_def c_sysconf_def emit_def split: if_splits)
  from run_threads_started [OF ok fresh l sd _ _ this]
  have "started sd (int32 (e_sysconf E (hist w1))) (argv ! 1) (argv ! 2) w"
    by (simp add: startup_event_def)
  then show ?thesis by blast
qed

lemma start_t_started:
  assumes ok: "env_ok E" and st: "start_t E w"
  shows "\<exists>sd cores host port. started sd cores host port w"
  using st main_t_started [OF ok] unfolding start_t_def by blast

lemma accept_t_local:
  assumes "stream_rel R E" and "env_ok E" and "ginv p_fd lfd_t {} (plain_ok R) w" and "servers w n = Some s"
  shows "\<exists>w'. echo_server_wcb_accept_t E lp (Member (Stack n) Wev_accept) tev w = Some w' \<and>
    local_step p_fd lfd_t (plain_ok R) w w'"
proof -
  have "R [] []" using assms(1) by (simp add: stream_rel_def)
  then have "thread_acceptor p_fd (plain_ok R) plain_add"
    unfolding thread_acceptor_def by (rule plain_acceptor)
  from thread_acceptor.thread_accept_local [OF this assms(2-4)] show ?thesis
    by (simp add: echo_server_wcb_accept_t_def echo_client_add_t_def)
qed

lemma invoke_t_local:
  assumes R: "stream_rel R E" and ok: "env_ok E" and inv: "ginv p_fd lfd_t {} (plain_ok R) w"
    and act: "active (hist w) l wt"
    and reg: "registered (hist w) wt = Some cb" and l: "loop w = l"
    and run: "invoke_t E cb l wt tev w = Some w'"
  shows "local_step p_fd lfd_t (plain_ok R) w w'"
  using inv act reg
proof (cases rule: plain_watcher_cases)
  case (accept n s)
  with accept_t_local [OF R ok inv, of n s l tev] run show ?thesis
    by (simp add: invoke_t_def)
next
  case (recv p c)
  with run have run': "plain_recv E (loop w) (Member (Heap p) Wev_recv) tev w = Some w'"
    and act': "active (hist w) (loop w) (Member (Heap p) Wev_recv)"
    using act l by (simp_all add: invoke_t_defs)
  from plain_recv_result [OF run' recv(3)] obtain nb data w1
    where "aux_unix_recv E (io_fd (p_wev_recv c)) BUF_SIZE w = Some (nb, data, w1)" .
  from plain_recv_run [OF ok R inv act' recv(3) refl this, of tev] run' show ?thesis by auto
next
  case (timeout p c)
  with plain_timeout_run [OF inv, of p l tev] act run l show ?thesis
    by (auto simp: invoke_t_defs)
qed

lemma invoke_t_gone:
  assumes R: "stream_rel R E" and ok: "env_ok E" and inv: "ginv p_fd lfd_t {} (plain_ok R) w"
    and act: "active (hist w) l wt"
    and reg: "registered (hist w) wt = Some cb" and l: "loop w = l"
    and run: "invoke_t E cb l wt tev w = Some w'"
    and d: "heap w q = Some d" "p_fd d = Some fd" "heap w' q = None"
  shows "gone_as fd (hist w) (hist w')"
  using inv act reg
proof (cases rule: plain_watcher_cases)
  case (accept n s)
  have "adds_only echo_client_add_t" unfolding echo_client_add_t_def by (rule plain_adds_only)
  from thread_accept_keeps [OF this, of E l n tev w w' q] accept run d show ?thesis
    by (simp add: invoke_t_defs)
next
  case (recv p c)
  with run have run': "plain_recv E (loop w) (Member (Heap p) Wev_recv) tev w = Some w'"
    and act': "active (hist w) (loop w) (Member (Heap p) Wev_recv)"
    using act l by (simp_all add: invoke_t_defs)
  from plain_recv_result [OF run' recv(3)] obtain nb data w1
    where "aux_unix_recv E (io_fd (p_wev_recv c)) BUF_SIZE w = Some (nb, data, w1)" .
  from plain_recv_run [OF ok R inv act' recv(3) refl this, of tev] run'
  have "plain_outcome E p (io_fd (p_wev_recv c)) w w'" by auto
  then show ?thesis using recv(3) d by (rule plain_recv_gone)
next
  case (timeout p c)
  with plain_timeout_run [OF inv, of p l tev] act run l d show ?thesis
    by (auto simp: invoke_t_defs gone_as_def split: if_splits)
qed

lemma invoke_t_defined:
  assumes ok: "env_ok E" "recv_returns E" and inv: "ginv p_fd lfd_t {} (plain_ok subseq) w"
    and act: "active (hist w) l wt" and reg: "registered (hist w) wt = Some cb" and l: "loop w = l"
  shows "invoke_t E cb l wt tev w \<noteq> None"
  using inv act reg
proof (cases rule: plain_watcher_cases)
  case (accept n s)
  with t_acc.thread_accept_local [OF ok(1) inv, of n s l tev] show ?thesis
    by (auto simp: invoke_t_defs)
next
  case (recv p c)
  with plain_recv_defined [OF ok stream_rel_subseq inv, of p tev] act l show ?thesis
    by (simp add: invoke_t_defs)
next
  case (timeout p c)
  with plain_timeout_run [OF inv, of p l tev] act l show ?thesis
    by (auto simp: invoke_t_defs)
qed

interpretation t_conn: thread_connections p_fd "plain_ok R"
  by unfold_locales (fact plain_ok_ext plain_ok_new_loop)+

interpretation t: safe_reactor p_fd lfd_t "plain_ok subseq" "{}" invoke_t spawn_thread start_t threads_inv
proof unfold_locales
  fix E :: "echo_client_p env" and w :: world_t
  assume "env_ok E" and "start_t E w"
  from start_t_started [OF this] show "ginv p_fd lfd_t {} (plain_ok subseq) w" "threads_inv w"
    using started_inv by blast+
next
  fix E :: "echo_client_p env" and w :: world_t and l wt cb tev w'
  assume "env_ok E" and "ginv p_fd lfd_t {} (plain_ok subseq) w" and "active (hist w) l wt"
    and "registered (hist w) wt = Some cb" and "loop w = l" and "invoke_t E cb l wt tev w = Some w'"
  then show "local_step p_fd lfd_t (plain_ok subseq) w w'" by (rule invoke_t_local [OF stream_rel_subseq])
next
  fix w w' :: world_t and l
  assume "threads_inv w" and "local_step p_fd lfd_t (plain_ok subseq) (w\<lparr>loop := l\<rparr>) w'"
  then show "threads_inv w'" by (rule local_threads_inv)
next
  fix E :: "echo_client_p env" and w w' :: world_t
  assume ok: "env_ok E" and inv: "ginv p_fd lfd_t {} (plain_ok subseq) w" "threads_inv w" and sp: "spawn_thread E w w'"
  from t_conn.spawn_ginv [OF inv sp] spawn_thread_inv [OF ok inv sp]
  show "ginv p_fd lfd_t {} (plain_ok subseq) w' \<and> threads_inv w'" ..
next
  fix E :: "echo_client_p env" and w w' :: world_t
  assume "spawn_thread E w w'"
  then show "heap w' = heap w \<and> open_fd (hist w') = open_fd (hist w) \<and>
      (\<forall>n s. servers w n = Some s \<longrightarrow> servers w' n = Some s)"
    by (rule spawn_thread_keeps)
next
  fix E :: "echo_client_p env" and w :: world_t and l wt cb tev
  assume "env_ok E" and "recv_returns E" and "ginv p_fd lfd_t {} (plain_ok subseq) w" and "active (hist w) l wt"
    and "registered (hist w) wt = Some cb" and "loop w = l"
  then show "invoke_t E cb l wt tev w \<noteq> None" by (rule invoke_t_defined)
qed

abbreviation reach_t :: "echo_client_p env \<Rightarrow> world_t \<Rightarrow> bool" where
  "reach_t E \<equiv> ev_reach (invoke_t E) (spawn_thread E) (start_t E)"

text \<open>The same program where the kernel takes all it is given, as for \<^verbatim>\<open>server.c\<close>.\<close>

definition invoke_all_t ::
  "echo_client_p env \<Rightarrow> callback \<Rightarrow> loop \<Rightarrow> watcher \<Rightarrow> revent set \<Rightarrow> world_t \<Rightarrow> world_t option" where
  "invoke_all_t E cb lp wt tev w = (if takes_all E then invoke_t E cb lp wt tev w else None)"

definition start_all_t :: "echo_client_p env \<Rightarrow> world_t \<Rightarrow> bool" where
  "start_all_t E w \<longleftrightarrow> takes_all E \<and> start_t E w"

interpretation t_all: echo_reactor p_fd lfd_t "plain_ok (=)" "{}" invoke_all_t spawn_thread start_all_t threads_inv "\<lambda>_. []"
proof unfold_locales
  fix E :: "echo_client_p env" and w :: world_t
  assume "env_ok E" and "start_all_t E w"
  then have "env_ok E" "start_t E w" by (simp_all add: start_all_t_def)
  from start_t_started [OF this] show "ginv p_fd lfd_t {} (plain_ok (=)) w" "threads_inv w"
    using started_inv by blast+
next
  fix E :: "echo_client_p env" and w :: world_t and l wt cb tev w'
  assume "env_ok E" and "ginv p_fd lfd_t {} (plain_ok (=)) w" and "active (hist w) l wt"
    and "registered (hist w) wt = Some cb" and "loop w = l" and run: "invoke_all_t E cb l wt tev w = Some w'"
  moreover from run have "stream_rel (=) E" "invoke_t E cb l wt tev w = Some w'"
    by (auto simp: invoke_all_t_def stream_rel_eq split: if_splits)
  ultimately show "local_step p_fd lfd_t (plain_ok (=)) w w'" by (blast intro: invoke_t_local)
next
  fix w w' :: world_t and l
  assume "threads_inv w" and "local_step p_fd lfd_t (plain_ok (=)) (w\<lparr>loop := l\<rparr>) w'"
  then show "threads_inv w'" by (rule local_threads_inv)
next
  fix E :: "echo_client_p env" and w w' :: world_t
  assume ok: "env_ok E" and inv: "ginv p_fd lfd_t {} (plain_ok (=)) w" "threads_inv w" and sp: "spawn_thread E w w'"
  from t_conn.spawn_ginv [OF inv sp] spawn_thread_inv [OF ok inv sp]
  show "ginv p_fd lfd_t {} (plain_ok (=)) w' \<and> threads_inv w'" ..
next
  fix E :: "echo_client_p env" and w w' :: world_t
  assume "spawn_thread E w w'"
  then show "heap w' = heap w \<and> open_fd (hist w') = open_fd (hist w) \<and>
      (\<forall>n s. servers w n = Some s \<longrightarrow> servers w' n = Some s)"
    by (rule spawn_thread_keeps)
next
  fix h :: history and p c
  show "\<exists>fd. p_fd c = Some fd" by (simp add: p_fd_def)
  show "recvd h fd = sent h fd @ []" if "plain_ok (=) h p c" and "p_fd c = Some fd" for fd
    using that by (auto simp: plain_ok_def p_fd_def)
next
  fix E and w w' :: world_t and l wt cb tev p c fd
  assume "env_ok E" and "ginv p_fd lfd_t {} (plain_ok (=)) w" and "active (hist w) l wt"
    and "registered (hist w) wt = Some cb" and "loop w = l" and run: "invoke_all_t E cb l wt tev w = Some w'"
    and "heap w p = Some c" and "p_fd c = Some fd" and "heap w' p = None"
  moreover from run have "stream_rel (=) E" "invoke_t E cb l wt tev w = Some w'"
    by (auto simp: invoke_all_t_def stream_rel_eq split: if_splits)
  ultimately show "gone_as fd (hist w) (hist w')" by (blast intro: invoke_t_gone)
qed

lemma all_t_eq:
  "takes_all E \<Longrightarrow> invoke_all_t E = invoke_t E" "takes_all E \<Longrightarrow> start_all_t E = start_t E"
  by (simp_all add: fun_eq_iff invoke_all_t_def start_all_t_def)

lemma t_refines_all:
  assumes "takes_all E" and "env_ok E" and "reach_t E w" and "ev_step (invoke_t E) w w'"
    and "echo_sim p_fd (\<lambda>_. []) w m"
  shows "\<exists>lab m'. echo_step lab m m' \<and> echo_sim p_fd (\<lambda>_. []) w' m' \<and> echo_obs lab m (hist w) (hist w')"
  using t_all.step_refines [of E w w' m] assms by (simp add: all_t_eq)

lemma t_exact:
  assumes "takes_all E" and "env_ok E" and "reach_t E w" and "heap w p = Some c" and "p_fd c = Some fd"
  shows "sent (hist w) fd = recvd (hist w) fd"
  using t_all.reach_cok [of E w p c] assms by (auto simp: all_t_eq plain_ok_def p_fd_def)

end
