(* ===== verification/ThreadProps.thy ===== *)
theory ThreadProps
  imports Thread ServerProps
begin

text \<open>
  What holds of \<^verbatim>\<open>thread.c\<close>: its threads, the absence of undefined behaviour, and that its
  functions on connections are those of \<^verbatim>\<open>server.c\<close>.
\<close>

section \<open>The same process with other listeners\<close>

text \<open>
  The two programs keep different server structures; \<open>with_servers\<close> exchanges them and
  leaves the history, \<open>errno\<close>, the heap and the variable \<open>loop\<close> as they are.
\<close>

definition with_servers :: "(nat \<Rightarrow> 's option) \<Rightarrow> ('c, 't) world \<Rightarrow> ('c, 's) world" where
  "with_servers sv w = \<lparr>hist = hist w, errno = errno w, heap = heap w, servers = sv, loop = loop w\<rparr>"

lemma with_servers_sel [simp]:
  "hist (with_servers sv w) = hist w" "errno (with_servers sv w) = errno w"
  "heap (with_servers sv w) = heap w" "loop (with_servers sv w) = loop w"
  "load p (with_servers sv w) = load p w"
  by (simp_all add: with_servers_def load_def)

lemma with_servers_upd [simp]:
  "(with_servers sv w)\<lparr>hist := h\<rparr> = with_servers sv (w\<lparr>hist := h\<rparr>)"
  "(with_servers sv w)\<lparr>errno := e\<rparr> = with_servers sv (w\<lparr>errno := e\<rparr>)"
  "(with_servers sv w)\<lparr>heap := m\<rparr> = with_servers sv (w\<lparr>heap := m\<rparr>)"
  "(with_servers sv w)\<lparr>loop := l\<rparr> = with_servers sv (w\<lparr>loop := l\<rparr>)"
  by (simp_all add: with_servers_def)

lemma with_servers_recv_once:
  assumes "env_ok E" and "unat n < 2 ^ 31" and "e_recv E (hist w) fd n \<noteq> Inl EINTR"
  shows "aux_unix_recv E fd n (with_servers sv w) =
     map_option (\<lambda>(rc, data, w). (rc, data, with_servers sv w)) (aux_unix_recv E fd n w)"
proof (cases "e_recv E (hist w) fd n")
  case (Inl e)
  with assms show ?thesis by (simp add: recv_error)
next
  case (Inr bs)
  then have "length bs < 2 ^ 31"
    using env_okD(1) [OF assms(1) Inr] assms(2) by simp
  with Inr show ?thesis by (simp add: recv_data)
qed

lemma with_servers_recv:
  assumes ok: "env_ok E" "unat n < 2 ^ 31"
  shows "aux_unix_recv E fd n (with_servers sv w) =
     map_option (\<lambda>(rc, data, w). (rc, data, with_servers sv w)) (aux_unix_recv E fd n w)"
proof (cases "\<exists>k. e_recv E (interrupted k fd n (hist w)) fd n \<noteq> Inl EINTR")
  case False
  then have "aux_unix_recv E fd n w = None" "aux_unix_recv E fd n (with_servers sv w) = None"
    using recv_not_interrupted [of E fd n w] recv_not_interrupted [of E fd n "with_servers sv w"]
    by (cases "aux_unix_recv E fd n w"; cases "aux_unix_recv E fd n (with_servers sv w)"; simp)+
  then show ?thesis by simp
next
  case True
  define k where "k = (LEAST k. e_recv E (interrupted k fd n (hist w)) fd n \<noteq> Inl EINTR)"
  have k: "e_recv E (interrupted k fd n (hist w)) fd n \<noteq> Inl EINTR"
    unfolding k_def using True by (rule LeastI_ex)
  have less: "\<forall>j<k. e_recv E (interrupted j fd n (hist w)) fd n = Inl EINTR"
    unfolding k_def by (auto dest: not_less_Least)
  define v where "v = w\<lparr>hist := interrupted k fd n (hist w), errno := (if k = 0 then errno w else EINTR)\<rparr>"
  have 1: "aux_unix_recv E fd n w = aux_unix_recv E fd n v"
    unfolding v_def by (rule recv_interrupted [OF less])
  have "\<forall>j<k. e_recv E (interrupted j fd n (hist (with_servers sv w))) fd n = Inl EINTR"
    using less by simp
  from recv_interrupted [OF this]
  have 2: "aux_unix_recv E fd n (with_servers sv w) = aux_unix_recv E fd n (with_servers sv v)"
    by (simp only: v_def with_servers_sel with_servers_upd)
  have "e_recv E (hist v) fd n \<noteq> Inl EINTR" using k by (simp add: v_def)
  from with_servers_recv_once [OF ok this] show ?thesis unfolding 1 2 .
qed

lemma with_servers_send:
  "aux_unix_send E fd bs (with_servers sv w) = map_prod id (with_servers sv) (aux_unix_send E fd bs w)"
  by (simp add: aux_unix_send_def c_send_def emit_def split: sum.split)

lemma with_servers_del:
  "plain_del p (with_servers sv w) = map_option (map_prod id (with_servers sv)) (plain_del p w)"
  by (simp add: plain_del_def call_defs split: Option.bind_split)

lemma with_servers_again [simp]:
  "ev_timer_again l wt tm (with_servers sv w) = with_servers sv (ev_timer_again l wt tm w)"
  "c_fprintf f as (with_servers sv w) = with_servers sv (c_fprintf f as w)"
  by (simp_all add: ev_timer_again_def c_fprintf_def emit_def)

lemma BUF_SIZE_int: "unat BUF_SIZE < 2 ^ 31"
  by (simp add: BUF_SIZE_def)

lemma with_servers_plain_recv:
  assumes ok: "env_ok E"
  shows "plain_recv E lp wt tev (with_servers sv w) = map_option (with_servers sv) (plain_recv E lp wt tev w)"
proof (cases "\<exists>p. wt = Member (Heap p) Wev_recv \<and> load p w \<noteq> None")
  case False
  then show ?thesis
    by (cases wt; cases "w_obj wt") (auto simp: plain_recv_def aux_memberof_def heap_ptr_def bind_none
        split: Option.bind_split)
next
  case True
  then obtain p c where wt: "wt = Member (Heap p) Wev_recv" and c: "load p w = Some c" by blast
  let ?fd = "io_fd (p_wev_recv c)"
  show ?thesis
  proof (cases "aux_unix_recv E ?fd BUF_SIZE w")
    case None
    then show ?thesis by (simp add: plain_recv_def wt c with_servers_recv [OF ok BUF_SIZE_int])
  next
    case (Some r)
    obtain nb bs w1 where r: "r = (nb, bs, w1)" by (cases r)
    obtain sb w2 where snd: "aux_unix_send E ?fd bs w1 = (sb, w2)" by force
    show ?thesis
      using Some r
      by (simp add: plain_recv_def wt c with_servers_recv [OF ok BUF_SIZE_int] with_servers_send snd with_servers_del Let_def
          split: Option.bind_split prod.split)
  qed
qed

lemma with_servers_plain_timeout:
  "plain_timeout lp wt tev (with_servers sv w) = map_option (with_servers sv) (plain_timeout lp wt tev w)"
  by (simp add: plain_timeout_def with_servers_del split: Option.bind_split)

lemma with_servers_plain_add:
  "plain_add E sd a (with_servers sv w) = map_option (map_prod id (with_servers sv)) (plain_add E sd a w)"
  by (simp add: plain_add_eq split: option.split)

section \<open>A run on a concrete environment\<close>

definition demo_world_t :: world_t where
  "demo_world_t = \<lparr>hist = [], errno = Errno 0, heap = \<lambda>_. None, servers = \<lambda>_. None, loop = 0\<rparr>"

definition demo_main_t :: world_t where
  "demo_main_t = \<lparr>hist = [Ev_run 0, Ev_io_start 0 (Member (Stack 0) Wev_accept),
      Ev_io_init (Member (Stack 0) Wev_accept) Wcb_accept 3 {EV_READ}, Ev_new_loop 0,
      Pthread_create 3 3 0, Pthread_create 2 3 0, Pthread_create 1 3 0,
      Fprintf (ln ''found %d cores'') [A_int 4], Sysconf 4,
      Listen 3 4096 (Inr 0), Bind 3 \<lparr>sin_family = AF_INET, sin_addr = inet_addr ''127.0.0.1'',
        sin_port = htons 7\<rparr> (Inr 0),
      Setsockopt 3 SOL_SOCKET SO_REUSEADDR 1 (Inr 0), Ioctl 3 FIONBIO 1 (Inr 0),
      Socket AF_INET SOCK_STREAM 0 (Inr 3)], errno = Errno 0, heap = \<lambda>_. None,
    servers = (\<lambda>_. None)(0 := Some \<lparr>t_wev_accept = \<lparr>io_cb = Wcb_accept, io_fd = 3, io_events = {EV_READ}\<rparr>\<rparr>),
    loop = 0\<rparr>"

definition demo_spawned_t :: world_t where
  "demo_spawned_t = demo_main_t\<lparr>hist := Ev_run 1 # Ev_io_start 1 (Member (Stack 2) Wev_accept) #
      Ev_io_init (Member (Stack 2) Wev_accept) Wcb_accept 3 {EV_READ} # Ev_new_loop 1 # hist demo_main_t,
    servers := (servers demo_main_t)(2 := Some \<lparr>t_wev_accept =
      \<lparr>io_cb = Wcb_accept, io_fd = 3, io_events = {EV_READ}\<rparr>\<rparr>), loop := 1\<rparr>"

lemma demo_main_t_run:
  "fresh_world demo_world_t"
  "main_t (demo_env blank_p rcv snt) [''thread'', ''127.0.0.1'', ''7''] demo_world_t = Some (Running demo_main_t)"
proof -
  have [simp]: "atoi ''7'' = Some 7" by (simp add: atoi_def is_space_def digit_val_def)
  have four: "int32 4 = 4" by (simp add: int32_id)
  have "nat (4 - 1) = Suc (Suc (Suc 0))" by simp
  then show "main_t (demo_env blank_p rcv snt) [''thread'', ''127.0.0.1'', ''7''] demo_world_t = Some (Running demo_main_t)"
    by (simp add: main_t_def echo_socket_listen_t_def echo_socket_listen_def aux_set_nonblk_def
        aux_set_sckopt_def call_defs demo_env_def Let_def LISTEN_BACKLOG_def run_threads_def thread_func_eq four
        demo_main_t_def demo_world_t_def eval_nat_numeral)
qed (simp add: fresh_world_def demo_world_t_def)

lemma demo_reach_main_t: "reach_t (demo_env blank_p rcv snt) demo_main_t"
  unfolding start_t_def using demo_main_t_run by (intro reach_start) blast

lemma demo_reach_spawned_t: "reach_t (demo_env blank_p rcv snt) demo_spawned_t"
proof -
  have "spawn_thread (demo_env blank_p rcv snt) demo_main_t demo_spawned_t"
    unfolding spawn_thread_def
    by (intro exI [of _ 2] exI [of _ 3] conjI)
       (simp_all add: thread_func_eq demo_env_def demo_main_t_def demo_spawned_t_def)
  then show ?thesis by (rule reach_spawn [OF demo_reach_main_t])
qed

section \<open>The threads\<close>

text \<open>When \<open>main\<close> of thread.c is in its event loop it has bound one socket to the host and
  port of the command line and listens on it, and has created exactly the threads 1 to n - 1,
  each given this socket, where n is the number of processors converted to \<open>int\<close>.\<close>

lemma main_threads_t:
  assumes "env_ok E" and "fresh_world w0" and "main_t E argv w0 = Some (Running w)"
  shows "\<exists>sd h pn. atoi (argv ! 2) = Some pn \<and> Listen sd 4096 (Inr 0) \<in> set (hist w) \<and>
    Bind sd \<lparr>sin_family = AF_INET, sin_addr = inet_addr (argv ! 1), sin_port = htons pn\<rparr> (Inr 0) \<in> set (hist w) \<and>
    (\<forall>i. Pthread_create i sd 0 \<in> set (hist w) \<longleftrightarrow> 0 < i \<and> int i \<le> int32 (e_sysconf E h) - 1) \<and>
    {i. servers w i \<noteq> None} = {0} \<and> (\<forall>p. heap w p = None)"
proof -
  from main_t_started [OF assms] obtain sd h where "started sd (int32 (e_sysconf E h)) (argv ! 1) (argv ! 2) w"
    by blast
  from started_events [OF this] obtain pn where "atoi (argv ! 2) = Some pn" "Listen sd 4096 (Inr 0) \<in> set (hist w)"
    "Bind sd \<lparr>sin_family = AF_INET, sin_addr = inet_addr (argv ! 1), sin_port = htons pn\<rparr> (Inr 0) \<in> set (hist w)"
    "\<forall>i. Pthread_create i sd 0 \<in> set (hist w) \<longleftrightarrow> 0 < i \<and> int i \<le> int32 (e_sysconf E h) - 1"
    "\<forall>p. heap w p = None" "{i. servers w i \<noteq> None} = {0}"
    by (elim exE conjE) (rule that)
  then show ?thesis by (intro exI [of _ sd] exI [of _ h] exI [of _ pn] conjI)
qed

text \<open>In every state thread.c reaches, all started threads watch one and the same open
  socket, thread 0 is started and every other was created with that socket; each thread's
  accept watcher is active in exactly one loop, no two threads share a loop, and outside the
  heap nothing else is watched.\<close>

lemma threads_t:
  assumes "env_ok E" and "reach_t E w"
  shows "\<exists>sd. open_fd (hist w) sd \<and> servers w 0 \<noteq> None \<and>
    (\<forall>n s. servers w n = Some s \<longrightarrow> io_fd (t_wev_accept s) = sd \<and>
       (n = 0 \<or> Pthread_create n sd 0 \<in> set (hist w)) \<and>
       (\<exists>l. \<forall>l'. active (hist w) l' (Member (Stack n) Wev_accept) \<longleftrightarrow> l' = l)) \<and>
    (\<forall>l m n. active (hist w) l (Member (Stack m) Wev_accept) \<longrightarrow>
       active (hist w) l (Member (Stack n) Wev_accept) \<longrightarrow> m = n) \<and>
    (\<forall>l n m. active (hist w) l (Member (Stack n) m) \<longrightarrow> m = Wev_accept \<and> servers w n \<noteq> None) \<and>
    (\<forall>l m. \<not> active (hist w) l (Member Global m))"
  by (rule threads_inv_listen [OF t.reach_inv [OF assms(2,1)]])

text \<open>As long as no call of \<open>recv\<close> is interrupted for ever, every callback libev can make
  in any thread of thread.c is defined and returns.\<close>

lemma callbacks_defined_t:
  assumes "env_ok E" and "recv_returns E" and "reach_t E w"
    and "active (hist w) l wt" and "registered (hist w) wt = Some cb"
  shows "\<exists>w'. invoke_t E cb l wt tev (w\<lparr>loop := l\<rparr>) = Some w'"
  by (rule t.reach_defined [OF assms])

text \<open>C23: while the kernel takes whatever \<open>send\<close> is given, thread.c refines the abstract echo
  server, in which every connection holds no byte: in each callback of each thread, either
  nothing is received or sent on any connection, or on one connection the history shows the
  same bytes received and sent, or one opens or closes, the others left alone; the start of a
  thread touches none.\<close>

theorem echo_refines_t:
  assumes "env_ok E" and "reach_t E w" and "takes_all E" and "echo_sim p_fd (\<lambda>_. []) w m"
  shows "(ev_step (invoke_t E) w w' \<longrightarrow>
      (\<exists>lab m'. echo_step lab m m' \<and> echo_sim p_fd (\<lambda>_. []) w' m' \<and> echo_obs lab m (hist w) (hist w'))) \<and>
    (spawn_thread E w w' \<longrightarrow> echo_sim p_fd (\<lambda>_. []) w' m \<and> echo_obs Idle m (hist w) (hist w'))"
proof (intro conjI impI)
  assume "ev_step (invoke_t E) w w'"
  from t_refines_all [OF assms(3,1,2) this assms(4)]
  show "\<exists>lab m'. echo_step lab m m' \<and> echo_sim p_fd (\<lambda>_. []) w' m' \<and> echo_obs lab m (hist w) (hist w')" .
next
  assume sp: "spawn_thread E w w'"
  then have "heap w' = heap w" using spawn_thread_keeps by blast
  with assms(4) show "echo_sim p_fd (\<lambda>_. []) w' m" by (simp add: echo_sim_def)
  show "echo_obs Idle m (hist w) (hist w')" by (simp add: echo_obs_def spawn_thread_untouched [OF sp])
qed

theorem echo_refines_t_witness:
  "\<exists>w' lab m'. ev_step (invoke_t (demo_env blank_p (deliver [104]) would_block)) demo_spawned_t w' \<and>
     echo_step lab (\<lambda>_. None) m' \<and> echo_sim p_fd (\<lambda>_. []) w' m' \<and> echo_obs lab (\<lambda>_. None) (hist demo_spawned_t) (hist w')"
proof -
  let ?E = "demo_env blank_p (deliver [104]) would_block"
  have act: "active (hist demo_spawned_t) 1 (Member (Stack 2) Wev_accept)"
    "registered (hist demo_spawned_t) (Member (Stack 2) Wev_accept) = Some Wcb_accept"
    by (simp_all add: demo_spawned_t_def demo_main_t_def)
  from t.reach_defined [OF demo_deliver_ok(2,3) demo_reach_spawned_t act, where tev = "{EV_READ}"]
  obtain w' where "ev_step (invoke_t ?E) demo_spawned_t w'" using dispatch [OF act] by blast
  moreover have "takes_all ?E" by (simp add: takes_all_def demo_env_def would_block_def)
  moreover have "echo_sim p_fd (\<lambda>_. []) demo_spawned_t (\<lambda>_. None)"
    by (simp add: echo_sim_def demo_spawned_t_def demo_main_t_def)
  ultimately show ?thesis
    using echo_refines_t [OF demo_deliver_ok(2) demo_reach_spawned_t] by blast
qed

section \<open>The connections\<close>

text \<open>The functions of thread.c on connections are those of server.c, whatever the
  listeners and threads are: started from processes that differ in their listeners only, they
  make the same calls, return the same and leave processes that differ in the same way.\<close>

lemma same_handlers_t:
  assumes "env_ok E"
  shows "map_option (with_servers sv) (echo_client_wcb_recv_t E lp wt tev w) =
      echo_client_wcb_recv_s E lp wt tev (with_servers sv w) \<and>
    map_option (with_servers sv) (echo_client_wcb_timeout_t lp wt tev w) =
      echo_client_wcb_timeout_s lp wt tev (with_servers sv w) \<and>
    map_option (map_prod id (with_servers sv)) (echo_client_del_t p w) = echo_client_del_s p (with_servers sv w) \<and>
    map_option (map_prod id (with_servers sv)) (echo_client_add_t E sd a w) =
      echo_client_add_s E sd a (with_servers sv w)"
  unfolding echo_client_wcb_recv_t_def echo_client_wcb_recv_s_def echo_client_wcb_timeout_t_def
    echo_client_wcb_timeout_s_def echo_client_del_t_def echo_client_del_s_def echo_client_add_t_def
    echo_client_add_s_def
  by (simp only: with_servers_plain_recv [OF assms] with_servers_plain_timeout with_servers_del
      with_servers_plain_add)

end
