(* ===== verification/Client.thy ===== *)
theory Client
  imports Reactor
begin

text \<open>
  \<^verbatim>\<open>c-bachan/client.c\<close>: the load generator. It opens up to 10000 connections, one each
  millisecond, sends \<open>123\<close> on each every 10 ms and measures how long answers take; after a
  minute it prints what it measured. One definition for each function, with the names of
  the file; \<open>main\<close> is \<open>main_c\<close> up to \<open>ev_run\<close> and \<open>main_report\<close> after it.
\<close>

section \<open>The code\<close>

subsection \<open>Constants and data\<close>

definition SILENT_TIMEOUT :: double where
  "SILENT_TIMEOUT = round_ratio False 1 1000"

definition MAX_CLIENTS :: int where
  "MAX_CLIENTS = 10000"

definition RESEND_INTERVAL :: double where
  "RESEND_INTERVAL = round_ratio False 1 100"

definition EXECUTION_TIME :: double where
  "EXECUTION_TIME = round_ratio False 60 1"

text \<open>The string literal \<open>123\<close> without its final zero byte.\<close>

definition REQUEST :: "byte list" where
  "REQUEST = [49, 50, 51]"

record client =
  c_wev_recv :: ev_io
  c_wev_send :: ev_io
  c_wev_connect :: ev_io
  c_wev_timeout :: ev_timer
  c_ts :: double
  c_to_send :: "32 word"

definition zero_client :: client where
  "zero_client = \<lparr>c_wev_recv = zero_io, c_wev_send = zero_io, c_wev_connect = zero_io,
     c_wev_timeout = zero_timer, c_ts = 0, c_to_send = 0\<rparr>"

text \<open>The process with the global variables of the file; there is no server structure.\<close>

record client_world = "(client, unit) world" +
  g_addr :: sockaddr_in
  number_of_clients :: int
  g_wev_exit :: ev_timer
  g_wev_silent :: ev_timer
  times_sum :: double
  times_count :: size_t
  times_max :: double
  times_min :: double

subsection \<open>Connections\<close>

definition client_del :: "ptr \<Rightarrow> client_world \<Rightarrow> (int \<times> client_world) option" where
  "client_del p w = do {
     c \<leftarrow> load p w;
     let w = c_fprintf (ln ''del client to_send=%d'') [A_int (int32 (int (unat (c_to_send c))))] w;
     let w = ev_io_stop (loop w) (Member (Heap p) Wev_recv) w;
     let w = ev_io_stop (loop w) (Member (Heap p) Wev_send) w;
     let w = ev_io_stop (loop w) (Member (Heap p) Wev_connect) w;
     let w = ev_timer_stop (loop w) (Member (Heap p) Wev_timeout) w;
     let w = c_close (io_fd (c_wev_recv c)) w;
     w \<leftarrow> c_free p w;
     Some (0, w)
   }"

definition client_send :: "client env \<Rightarrow> ptr \<Rightarrow> client_world \<Rightarrow> (int \<times> client_world) option" where
  "client_send E p w = do {
     c \<leftarrow> load p w;
     let fd = io_fd (c_wev_recv c);
     let (nb, w) = aux_unix_send E fd REQUEST w;
     let (now, w) = ev_now E (loop w) w;
     w \<leftarrow> store p (c\<lparr>c_ts := now\<rparr>) w;
     if nb < 0 then do {
       let w = c_fprintf (ln ''send error fd=%d (%d: %s)'')
             [A_int fd, A_strerror (errno w), A_strerror (errno w)] w;
       (_, w) \<leftarrow> client_del p w;
       Some (-1, w)
     } else Some (0, w)
   }"

definition client_add :: "client env \<Rightarrow> client_world \<Rightarrow> (int \<times> client_world) option" where
  "client_add E w = (case c_calloc E zero_client w of
     (None, w) \<Rightarrow> Some (-1, w)
   | (Some p, w) \<Rightarrow> do {
       let (sd, w) = c_socket E w;
       if sd < 0 then Some (-1, c_fprintf (ln ''sock error'') [] w)
       else do {
         let (rc, w) = aux_set_nonblk E sd 1 w;
         if rc < 0 then Some (-1, c_close sd w)
         else do {
           let (rc, w) = c_connect E sd (g_addr w) w;
           if rc < 0 \<and> errno w \<noteq> EINPROGRESS then do {
             let w = c_fprintf (ln ''conn error fd=%d'') [A_int sd] w;
             Some (-1, c_close sd w)
           } else do {
             c \<leftarrow> load p w;
             let (io, w) = ev_io_init (Member (Heap p) Wev_recv) Wcb_recv sd {EV_READ} w;
             let c = c\<lparr>c_wev_recv := io\<rparr>;
             let (io, w) = ev_io_init (Member (Heap p) Wev_send) Wcb_send sd {EV_WRITE} w;
             let c = c\<lparr>c_wev_send := io\<rparr>;
             let (io, w) = ev_io_init (Member (Heap p) Wev_connect) Wcb_connect sd {EV_READ, EV_WRITE} w;
             let c = c\<lparr>c_wev_connect := io\<rparr>;
             let (tm, w) = ev_timer_init (Member (Heap p) Wev_timeout) Wcb_timeout 0 RESEND_INTERVAL w;
             w \<leftarrow> store p (c\<lparr>c_wev_timeout := tm\<rparr>) w;
             let w = ev_timer_again (loop w) (Member (Heap p) Wev_timeout) tm w;
             let w = ev_io_start (loop w) (Member (Heap p) Wev_connect) w;
             Some (0, w)
           }
         }
       }
     })"

subsection \<open>The callbacks of a connection\<close>

text \<open>The counter is an \<open>unsigned\<close>: it wraps.\<close>

definition wcb_timeout ::
  "loop \<Rightarrow> watcher \<Rightarrow> revent set \<Rightarrow> client_world \<Rightarrow> client_world option" where
  "wcb_timeout lp wt tev w = do {
     ob \<leftarrow> aux_memberof Wev_timeout wt;
     p \<leftarrow> heap_ptr ob;
     c \<leftarrow> load p w;
     w \<leftarrow> store p (c\<lparr>c_to_send := c_to_send c + 1\<rparr>) w;
     Some (ev_io_start lp (Member (Heap p) Wev_send) w)
   }"

definition wcb_connect ::
  "loop \<Rightarrow> watcher \<Rightarrow> revent set \<Rightarrow> client_world \<Rightarrow> client_world option" where
  "wcb_connect lp wt tev w = do {
     ob \<leftarrow> aux_memberof Wev_connect wt;
     p \<leftarrow> heap_ptr ob;
     c \<leftarrow> load p w;
     if EV_READ \<in> tev then do {
       let w = c_fprintf (ln ''conn error fd=%d'') [A_int (io_fd (c_wev_connect c))] w;
       (_, w) \<leftarrow> client_del p w;
       Some w
     } else do {
       w \<leftarrow> store p (c\<lparr>c_to_send := 1\<rparr>) w;
       let w = ev_io_stop lp (Member (Heap p) Wev_connect) w;
       let w = ev_io_start lp (Member (Heap p) Wev_send) w;
       Some (ev_io_start lp (Member (Heap p) Wev_recv) w)
     }
   }"

text \<open>
  The loop of \<open>wcb_send\<close>: a negative result of \<open>client_send\<close> means that the structure is
  gone, and the callback returns at once. The result tells whether the loop came to its end.
\<close>

partial_function (option) send_loop ::
  "client env \<Rightarrow> ptr \<Rightarrow> client_world \<Rightarrow> (bool \<times> client_world) option" where
  "send_loop E p w = do {
     c \<leftarrow> load p w;
     if c_to_send c = 0 then Some (True, w)
     else do {
       (rc, w) \<leftarrow> client_send E p w;
       if rc < 0 then Some (False, w)
       else do {
         c \<leftarrow> load p w;
         w \<leftarrow> store p (c\<lparr>c_to_send := c_to_send c - 1\<rparr>) w;
         send_loop E p w
       }
     }
   }"

definition wcb_send ::
  "client env \<Rightarrow> loop \<Rightarrow> watcher \<Rightarrow> revent set \<Rightarrow> client_world \<Rightarrow> client_world option" where
  "wcb_send E lp wt tev w = do {
     ob \<leftarrow> aux_memberof Wev_send wt;
     p \<leftarrow> heap_ptr ob;
     (ended, w) \<leftarrow> send_loop E p w;
     if \<not> ended then Some w
     else Some (ev_io_stop lp (Member (Heap p) Wev_send) w)
   }"

definition wcb_recv ::
  "client env \<Rightarrow> loop \<Rightarrow> watcher \<Rightarrow> revent set \<Rightarrow> client_world \<Rightarrow> client_world option" where
  "wcb_recv E lp wt tev w = do {
     ob \<leftarrow> aux_memberof Wev_recv wt;
     p \<leftarrow> heap_ptr ob;
     c \<leftarrow> load p w;
     let fd = io_fd (c_wev_recv c);
     (nb, buf, w) \<leftarrow> aux_unix_recv E fd 4096 w;
     let (now, w) = ev_now E lp w;
     let time = now - c_ts c;
     let w = w\<lparr>times_sum := times_sum w + time\<rparr>;
     let w = w\<lparr>times_count := times_count w + 1\<rparr>;
     let w = (if times_max w < time then w\<lparr>times_max := time\<rparr> else w);
     let w = (if time < times_min w then w\<lparr>times_min := time\<rparr> else w);
     if nb < 0 then
       if errno w = EAGAIN then Some w
       else do {
         let w = c_fprintf (ln ''recv error fd=%d (%d: %s)'')
               [A_int fd, A_strerror (errno w), A_strerror (errno w)] w;
         (_, w) \<leftarrow> client_del p w;
         Some w
       }
     else Some w
   }"

subsection \<open>The timers and the main program\<close>

definition wcb_exit ::
  "loop \<Rightarrow> watcher \<Rightarrow> revent set \<Rightarrow> client_world \<Rightarrow> client_world option" where
  "wcb_exit lp wt tev w = Some (ev_break lp w)"

text \<open>An overflow of the \<open>int\<close> counter is undefined.\<close>

definition wcb_silent ::
  "client env \<Rightarrow> loop \<Rightarrow> watcher \<Rightarrow> revent set \<Rightarrow> client_world \<Rightarrow> client_world option" where
  "wcb_silent E lp wt tev w = (
     let n = number_of_clients w in
     if 2 ^ 31 \<le> n + 1 then None
     else let w = w\<lparr>number_of_clients := n + 1\<rparr> in
       if MAX_CLIENTS \<le> n then Some (ev_timer_stop lp wt w)
       else do {
         (_, w) \<leftarrow> client_add E w;
         Some w
       })"

definition main_c :: "client env \<Rightarrow> string list \<Rightarrow> client_world \<Rightarrow> client_world process option" where
  "main_c E argv w =
     (if length argv < 3 then
        Some (Exited (-1) (c_fprintf (ln ''Usage: %s host port'') [A_str (argv ! 0)] w))
      else do {
        pn \<leftarrow> atoi (argv ! 2);
        let w = w\<lparr>g_addr := \<lparr>sin_family = AF_INET, sin_addr = inet_addr (argv ! 1), sin_port = htons pn\<rparr>,
              number_of_clients := 0, times_sum := 0, times_count := 0, times_max := 0,
              times_min := round_ratio False 100 1\<rparr>;
        let w = ev_new_loop E w;
        let (tm, w) = ev_timer_init (Member Global Wev_exit) Wcb_exit 0 EXECUTION_TIME w;
        let w = w\<lparr>g_wev_exit := tm\<rparr>;
        let w = ev_timer_again (loop w) (Member Global Wev_exit) tm w;
        let (tm, w) = ev_timer_init (Member Global Wev_silent) Wcb_silent 0 SILENT_TIMEOUT w;
        let w = w\<lparr>g_wev_silent := tm\<rparr>;
        let w = ev_timer_again (loop w) (Member Global Wev_silent) tm w;
        Some (Running (ev_run w))
      })"

text \<open>The end of \<open>main\<close>, once \<open>ev_run\<close> has returned.\<close>

definition main_report :: "client_world \<Rightarrow> client_world process" where
  "main_report w = Exited 0 (c_fprintf (ln ''times_sum=%f times_count=%u avg=%f min=%f max=%f'')
     [A_double (times_sum w), A_int (int (unat (times_count w)) mod 2 ^ 32),
      A_double (d_div (times_sum w) (double_of_nat (unat (times_count w)))),
      A_double (times_min w), A_double (times_max w)] w)"

definition invoke_c ::
  "client env \<Rightarrow> callback \<Rightarrow> loop \<Rightarrow> watcher \<Rightarrow> revent set \<Rightarrow> client_world \<Rightarrow> client_world option" where
  "invoke_c E cb lp wt tev w = (case cb of
     Wcb_recv \<Rightarrow> wcb_recv E lp wt tev w
   | Wcb_send \<Rightarrow> wcb_send E lp wt tev w
   | Wcb_timeout \<Rightarrow> wcb_timeout lp wt tev w
   | Wcb_connect \<Rightarrow> wcb_connect lp wt tev w
   | Wcb_exit \<Rightarrow> wcb_exit lp wt tev w
   | Wcb_silent \<Rightarrow> wcb_silent E lp wt tev w
   | _ \<Rightarrow> None)"

definition start_c :: "client env \<Rightarrow> client_world \<Rightarrow> bool" where
  "start_c E w \<longleftrightarrow> (\<exists>argv w0. fresh_world w0 \<and> main_c E argv w0 = Some (Running w))"

end
