(* ===== verification/ClientConn.thy ===== *)
theory ClientConn
  imports Client
begin

text \<open>
  The connections of the load generator: the invariant of a \<open>client_t\<close>, what each callback
  does to the one it is called for, and the contract \<open>reactor\<close> for the whole program.
\<close>

section \<open>The invariant of a connection\<close>

text \<open>
  A structure that \<open>client_add\<close> gave up on is all zero and never watched. Any other has one
  descriptor in its three watchers and lives in one loop: its timer is active there, and
  exactly one of the watchers for connecting and for receiving; the one for sending may be.
\<close>

definition c_fd :: "client \<Rightarrow> int option" where
  "c_fd c = (if io_cb (c_wev_recv c) = Wcb_null then None else Some (io_fd (c_wev_recv c)))"

definition client_shape :: "int \<Rightarrow> client \<Rightarrow> bool" where
  "client_shape fd c \<longleftrightarrow>
     c_wev_recv c = \<lparr>io_cb = Wcb_recv, io_fd = fd, io_events = {EV_READ}\<rparr> \<and>
     c_wev_send c = \<lparr>io_cb = Wcb_send, io_fd = fd, io_events = {EV_WRITE}\<rparr> \<and>
     c_wev_connect c = \<lparr>io_cb = Wcb_connect, io_fd = fd, io_events = {EV_READ, EV_WRITE}\<rparr>"

definition client_watched :: "history \<Rightarrow> ptr \<Rightarrow> loop \<Rightarrow> bool" where
  "client_watched h p l \<longleftrightarrow>
     (\<forall>l' m. active h l' (Member (Heap p) m) \<longrightarrow> l' = l \<and> m \<in> {Wev_recv, Wev_send, Wev_connect, Wev_timeout}) \<and>
     active h l (Member (Heap p) Wev_timeout) \<and>
     (active h l (Member (Heap p) Wev_connect) \<longleftrightarrow> \<not> active h l (Member (Heap p) Wev_recv)) \<and>
     (\<forall>m \<in> {Wev_recv, Wev_send, Wev_connect, Wev_timeout}. registered h (Member (Heap p) m) = Some (cb_of m))"

definition client_ok :: "history \<Rightarrow> ptr \<Rightarrow> client \<Rightarrow> bool" where
  "client_ok h p c \<longleftrightarrow>
     (c = zero_client \<and> (\<forall>l m. \<not> active h l (Member (Heap p) m))) \<or>
     (\<exists>fd l. client_shape fd c \<and> client_watched h p l)"

lemma c_fd_zero [simp]: "c_fd zero_client = None"
  by (simp add: c_fd_def zero_client_def zero_io_def)

lemma c_fd_shape: "client_shape fd c \<Longrightarrow> c_fd c = Some fd"
  by (simp add: c_fd_def client_shape_def)

lemma client_shape_upd [simp]:
  "client_shape fd (c\<lparr>c_to_send := n\<rparr>) = client_shape fd c"
  "client_shape fd (c\<lparr>c_ts := t\<rparr>) = client_shape fd c"
  by (simp_all add: client_shape_def)

lemma client_watchedD:
  "client_watched h p l \<Longrightarrow> active h l' (Member (Heap p) m) \<Longrightarrow>
     l' = l \<and> m \<in> {Wev_recv, Wev_send, Wev_connect, Wev_timeout}"
  unfolding client_watched_def by blast

lemma client_watched_cong:
  assumes "\<And>l m. active h' l (Member (Heap p) m) = active h l (Member (Heap p) m)"
    and "\<And>m. registered h' (Member (Heap p) m) = registered h (Member (Heap p) m)"
  shows "client_watched h' p l = client_watched h p l"
  using assms by (simp add: client_watched_def)

lemma client_ok_cong:
  assumes "\<And>l m. active h' l (Member (Heap p) m) = active h l (Member (Heap p) m)"
    and "\<And>m. registered h' (Member (Heap p) m) = registered h (Member (Heap p) m)"
  shows "client_ok h' p c = client_ok h p c"
  using assms by (simp add: client_ok_def client_watched_cong [OF assms])

lemma client_ok_ext:
  assumes "client_ok h p c" and x: "ext Os F h h'" and "Heap p \<notin> Os"
  shows "client_ok h' p c"
proof -
  have "client_ok h' p c = client_ok h p c"
    using assms(3) by (intro client_ok_cong) (auto intro!: active_ext [OF x] registered_ext [OF x])
  with assms(1) show ?thesis by simp
qed

lemma client_ok_active:
  assumes "client_ok h p c" and "active h l (Member (Heap p) m)"
  obtains fd where "client_shape fd c" and "client_watched h p l"
    and "m \<in> {Wev_recv, Wev_send, Wev_connect, Wev_timeout}"
proof -
  from assms obtain fd l' where s: "client_shape fd c" and wat: "client_watched h p l'"
    unfolding client_ok_def by blast
  with client_watchedD [OF wat assms(2)] that show thesis by blast
qed

lemma client_watched_quiet [simp]:
  "ev_obj e = None \<Longrightarrow> client_watched (e # h) p l = client_watched h p l"
  by (intro client_watched_cong; cases e) simp_all

lemma client_watched_interrupted [simp]:
  "client_watched (interrupted k fd n h) p l = client_watched h p l"
  by (intro client_watched_cong) simp_all

lemma client_watched_send:
  assumes "client_watched h p l"
  shows "client_watched (Ev_io_start l (Member (Heap p) Wev_send) # h) p l"
    and "client_watched (Ev_io_stop l (Member (Heap p) Wev_send) # h) p l"
  using assms unfolding client_watched_def by auto

lemma client_watched_connected:
  assumes "client_watched h p l"
  shows "client_watched (Ev_io_start l (Member (Heap p) Wev_recv) # Ev_io_start l (Member (Heap p) Wev_send) #
     Ev_io_stop l (Member (Heap p) Wev_connect) # h) p l"
  using assms unfolding client_watched_def by auto

lemma RESEND_INTERVAL_pos [simp]: "0 < RESEND_INTERVAL"
  by (simp add: RESEND_INTERVAL_def double_ops round_ratio_def ilog2_def bit_len.simps
      scale_num_def scale_den_def rne_def Let_def d_zero_def d_scaled_def)

lemma client_watched_new:
  assumes "\<forall>l m. \<not> active h l (Member (Heap p) m)"
  shows "client_watched (Ev_io_start l (Member (Heap p) Wev_connect) #
       Ev_timer_again l (Member (Heap p) Wev_timeout) RESEND_INTERVAL #
       Ev_timer_init (Member (Heap p) Wev_timeout) Wcb_timeout 0 RESEND_INTERVAL #
       Ev_io_init (Member (Heap p) Wev_connect) Wcb_connect fd e3 #
       Ev_io_init (Member (Heap p) Wev_send) Wcb_send fd e2 #
       Ev_io_init (Member (Heap p) Wev_recv) Wcb_recv fd e1 # h) p l"
  using assms unfolding client_watched_def by auto

lemma client_dead:
  assumes "client_watched h p l"
  shows "dead (Free p # Close fd # Ev_timer_stop l (Member (Heap p) Wev_timeout) #
     Ev_io_stop l (Member (Heap p) Wev_connect) # Ev_io_stop l (Member (Heap p) Wev_send) #
     Ev_io_stop l (Member (Heap p) Wev_recv) # h) p"
  using client_watchedD [OF assms] by (auto simp: dead_def)

section \<open>What the callbacks count\<close>

primrec callocs :: "history \<Rightarrow> nat" where
  "callocs [] = 0"
| "callocs (e # h) = (case e of Calloc r \<Rightarrow> 1 | _ \<Rightarrow> 0) + callocs h"

text \<open>How often the request was handed to the kernel on a descriptor.\<close>

primrec requests :: "history \<Rightarrow> int \<Rightarrow> nat" where
  "requests [] fd = 0"
| "requests (e # h) fd = (case e of Send f bs r \<Rightarrow> if f = fd \<and> bs = REQUEST then 1 else 0 | _ \<Rightarrow> 0) + requests h fd"

lemma counts_interrupted [simp]:
  "callocs (interrupted k fd n h) = callocs h" "requests (interrupted k fd n h) f = requests h f"
  unfolding interrupted_def by (induction k) simp_all

text \<open>Neither a new attempt, nor a change of the global watchers, nor a new measurement.\<close>

definition same_counts :: "client_world \<Rightarrow> client_world \<Rightarrow> bool" where
  "same_counts w w' \<longleftrightarrow> number_of_clients w' = number_of_clients w \<and> callocs (hist w') = callocs (hist w) \<and>
     (\<forall>l m. active (hist w') l (Member Global m) = active (hist w) l (Member Global m)) \<and>
     (\<forall>m. registered (hist w') (Member Global m) = registered (hist w) (Member Global m))"

definition same_times :: "client_world \<Rightarrow> client_world \<Rightarrow> bool" where
  "same_times w w' \<longleftrightarrow> times_sum w' = times_sum w \<and> times_count w' = times_count w \<and>
     times_max w' = times_max w \<and> times_min w' = times_min w"

section \<open>Deleting\<close>

definition lfd_c :: "unit \<Rightarrow> int" where
  "lfd_c s = 0"

lemma client_del_eq:
  "heap w p = Some c \<Longrightarrow> client_del p w = Some (0, w\<lparr>hist :=
     Free p # Close (io_fd (c_wev_recv c)) # Ev_timer_stop (loop w) (Member (Heap p) Wev_timeout) #
     Ev_io_stop (loop w) (Member (Heap p) Wev_connect) # Ev_io_stop (loop w) (Member (Heap p) Wev_send) #
     Ev_io_stop (loop w) (Member (Heap p) Wev_recv) #
     Fprintf (ln ''del client to_send=%d'') [A_int (int32 (int (unat (c_to_send c))))] # hist w,
     heap := (heap w)(p := None)\<rparr>)"
  by (simp add: client_del_def call_defs)

lemma client_print:
  assumes "on_conn p fd c w0 w"
  shows "on_conn p fd c w0 (c_fprintf f as w)"
  using on_conn_call [OF assms, of "Fprintf f as"]
  by (simp add: c_fprintf_def emit_def quiet_def about_def ev_fd_def init_ok_def)

text \<open>Deleting at the end of a callback, after a line of output.\<close>

definition client_gone :: "ptr \<Rightarrow> int \<Rightarrow> client_world \<Rightarrow> client_world \<Rightarrow> bool" where
  "client_gone p fd w w' \<longleftrightarrow> heap w' = (heap w)(p := None) \<and> \<not> open_fd (hist w') fd \<and>
     requests (hist w') = requests (hist w) \<and> recvd (hist w') = recvd (hist w) \<and>
     same_counts w w' \<and> same_times w w'"

lemma client_del_tail:
  assumes inv: "ginv c_fd lfd_c G client_ok w0" and c0: "heap w0 p = Some c0" "c_fd c0 = Some fd"
    and on: "on_conn p fd c w0 w" and sh: "client_shape fd c" and wat: "client_watched (hist w) p (loop w)"
  shows "\<exists>w'. client_del p (c_fprintf f as w) = Some (0, w') \<and> local_step c_fd lfd_c client_ok w0 w' \<and>
    client_gone p fd w w'"
proof -
  let ?v = "c_fprintf f as w"
  let ?g = "Fprintf (ln ''del client to_send=%d'') [A_int (int32 (int (unat (c_to_send c))))] # hist ?v"
  define h where "h = Free p # Close fd # Ev_timer_stop (loop w) (Member (Heap p) Wev_timeout) #
     Ev_io_stop (loop w) (Member (Heap p) Wev_connect) # Ev_io_stop (loop w) (Member (Heap p) Wev_send) #
     Ev_io_stop (loop w) (Member (Heap p) Wev_recv) # ?g"
  have on': "on_conn p fd c w0 ?v" using on by (rule client_print)
  have "ext {Heap p} {fd} (hist ?v) h"
    unfolding h_def by (auto intro!: ext_Cons ext_refl simp: about_def ev_fd_def init_ok_def)
  moreover have "dead h p"
    unfolding h_def using wat by (intro client_dead) (simp add: c_fprintf_def emit_def)
  moreover have "\<not> open_fd h fd" by (simp add: h_def)
  ultimately have "local_step c_fd lfd_c client_ok w0 (?v\<lparr>hist := h, heap := (heap ?v)(p := None)\<rparr>)"
    by (rule on_conn_delete [OF inv c0 on'])
  moreover have "client_del p ?v = Some (0, ?v\<lparr>hist := h, heap := (heap ?v)(p := None)\<rparr>)"
    using client_del_eq [OF on_conn_heap [OF on']] sh
    by (simp add: h_def client_shape_def c_fprintf_def emit_def)
  ultimately show ?thesis
    by (auto simp: client_gone_def h_def c_fprintf_def emit_def same_counts_def same_times_def fun_eq_iff)
qed

lemma client_gone_after:
  assumes "client_gone p fd w w'" and "heap w = (heap w0)(p := Some c)" and "requests (hist w) = requests (hist w0)"
    and "recvd (hist w) = recvd (hist w0)" and "same_counts w0 w" and "same_times w0 w"
  shows "client_gone p fd w0 w'"
  using assms by (simp add: client_gone_def same_counts_def same_times_def)

section \<open>Sending\<close>

text \<open>
  One call of \<open>client_send\<close>, in a callback that started in \<open>w0\<close>: the request is handed to
  the kernel once; if that fails the connection is gone.
\<close>

lemma client_send_run:
  assumes ok: "env_ok E" and inv: "ginv c_fd lfd_c G client_ok w0" and c0: "heap w0 p = Some c0" "c_fd c0 = Some fd"
    and on: "on_conn p fd c w0 w" and sh: "client_shape fd c" and wat: "client_watched (hist w) p (loop w)"
  shows "(\<exists>w' now. client_send E p w = Some (0, w') \<and> on_conn p fd (c\<lparr>c_ts := now\<rparr>) w0 w' \<and>
      client_watched (hist w') p (loop w') \<and> active (hist w') = active (hist w) \<and>
      requests (hist w') fd = Suc (requests (hist w) fd) \<and> same_counts w w' \<and> same_times w w') \<or>
    (\<exists>w'. client_send E p w = Some (-1, w') \<and> local_step c_fd lfd_c client_ok w0 w' \<and>
      heap w' = (heap w0)(p := None) \<and> \<not> open_fd (hist w') fd \<and>
      requests (hist w') fd = Suc (requests (hist w) fd) \<and> same_counts w w' \<and> same_times w w')"
proof -
  have fd: "io_fd (c_wev_recv c) = fd" using sh by (simp add: client_shape_def)
  have len: "length REQUEST < 2 ^ 31" by (simp add: REQUEST_def)
  note run = client_send_def load_def on_conn_heap [OF on] fd Let_def ev_now_def emit_def store_def
  have hp: "heap w = (heap w0)(p := Some c)" using on by (simp add: on_conn_def)
  show ?thesis
    using ok len
  proof (cases rule: aux_unix_send_cases [where w = w and fd = fd])
    case (error e)
    let ?now = "e_ev_now E (Send fd REQUEST (Inl e) # hist w) (loop w)"
    let ?w1 = "w\<lparr>errno := e, hist := Ev_now (loop w) ?now # Send fd REQUEST (Inl e) # hist w,
      heap := (heap w)(p := Some (c\<lparr>c_ts := ?now\<rparr>))\<rparr>"
    have "on_conn p fd c w0 (w\<lparr>hist := Send fd REQUEST (Inl e) # hist w\<rparr>)"
      using on by (rule on_conn_call) (simp_all add: quiet_def about_def ev_fd_def init_ok_def)
    from on_conn_call [OF this, of "Ev_now (loop w) ?now"]
    have "on_conn p fd c w0 (w\<lparr>hist := Ev_now (loop w) ?now # Send fd REQUEST (Inl e) # hist w\<rparr>)"
      by (simp add: quiet_def about_def ev_fd_def init_ok_def)
    from on_conn_store [OF this, of "c\<lparr>c_ts := ?now\<rparr>"]
    have on1: "on_conn p fd (c\<lparr>c_ts := ?now\<rparr>) w0 ?w1" unfolding on_conn_def by (elim conjE) simp
    have wat1: "client_watched (hist ?w1) p (loop ?w1)" using wat by simp
    have sh1: "client_shape fd (c\<lparr>c_ts := ?now\<rparr>)" using sh by simp
    from client_del_tail [OF inv c0 on1 sh1 wat1, of "ln ''send error fd=%d (%d: %s)''"
        "[A_int fd, A_strerror e, A_strerror e]"] obtain w'
      where "client_del p (c_fprintf (ln ''send error fd=%d (%d: %s)'') [A_int fd, A_strerror e, A_strerror e] ?w1) =
        Some (0, w')" "local_step c_fd lfd_c client_ok w0 w'" "client_gone p fd ?w1 w'" by blast
    with error on_conn_heap [OF on] show ?thesis
      by (intro disjI2 exI [of _ w']) (simp add: run client_gone_def hp same_counts_def same_times_def fun_eq_iff)
  next
    case (sent k)
    let ?now = "e_ev_now E (Send fd REQUEST (Inr k) # hist w) (loop w)"
    let ?w1 = "w\<lparr>hist := Ev_now (loop w) ?now # Send fd REQUEST (Inr k) # hist w,
      heap := (heap w)(p := Some (c\<lparr>c_ts := ?now\<rparr>))\<rparr>"
    have "on_conn p fd c w0 (w\<lparr>hist := Send fd REQUEST (Inr k) # hist w\<rparr>)"
      using on by (rule on_conn_call) (simp_all add: quiet_def about_def ev_fd_def init_ok_def)
    from on_conn_call [OF this, of "Ev_now (loop w) ?now"]
    have "on_conn p fd c w0 (w\<lparr>hist := Ev_now (loop w) ?now # Send fd REQUEST (Inr k) # hist w\<rparr>)"
      by (simp add: quiet_def about_def ev_fd_def init_ok_def)
    from on_conn_store [OF this, of "c\<lparr>c_ts := ?now\<rparr>"]
    have on1: "on_conn p fd (c\<lparr>c_ts := ?now\<rparr>) w0 ?w1" unfolding on_conn_def by (elim conjE) simp
    with sent on_conn_heap [OF on] wat show ?thesis
      by (intro disjI1 exI [of _ ?w1] exI [of _ ?now])
         (simp add: run same_counts_def same_times_def fun_eq_iff)
  qed
qed

lemma send_loop_run:
  assumes ok: "env_ok E" and inv: "ginv c_fd lfd_c G client_ok w0" and c0: "heap w0 p = Some c0" "c_fd c0 = Some fd"
    and "on_conn p fd c w0 w" and "client_shape fd c" and "client_watched (hist w) p (loop w)"
  shows "(\<exists>w' c'. send_loop E p w = Some (True, w') \<and> on_conn p fd c' w0 w' \<and> client_shape fd c' \<and>
      c_to_send c' = 0 \<and> client_watched (hist w') p (loop w') \<and> active (hist w') = active (hist w) \<and>
      requests (hist w') fd = requests (hist w) fd + unat (c_to_send c) \<and> same_counts w w' \<and> same_times w w') \<or>
    (\<exists>w' k. send_loop E p w = Some (False, w') \<and> local_step c_fd lfd_c client_ok w0 w' \<and>
      heap w' = (heap w0)(p := None) \<and> \<not> open_fd (hist w') fd \<and> 0 < k \<and> k \<le> unat (c_to_send c) \<and>
      requests (hist w') fd = requests (hist w) fd + k \<and> same_counts w w' \<and> same_times w w')"
  using assms(5-7)
proof (induction "unat (c_to_send c)" arbitrary: c w)
  case 0
  then have z: "c_to_send c = 0" by (simp add: unat_eq_zero)
  have "send_loop E p w = Some (True, w)"
    by (subst send_loop.simps) (simp add: load_def on_conn_heap [OF "0.prems"(1)] z)
  with 0 z show ?case
    by (intro disjI1 exI [of _ w] exI [of _ c]) (simp add: same_counts_def same_times_def)
next
  case (Suc n)
  then have nz: "c_to_send c \<noteq> 0" by auto
  have step: "send_loop E p w = do {
       (rc, w) \<leftarrow> client_send E p w;
       if rc < 0 then Some (False, w)
       else do {
         c \<leftarrow> load p w;
         w \<leftarrow> store p (c\<lparr>c_to_send := c_to_send c - 1\<rparr>) w;
         send_loop E p w
       }
     }"
    by (subst send_loop.simps) (simp add: load_def on_conn_heap [OF Suc.prems(1)] nz)
  from client_send_run [OF ok inv c0 Suc.prems] show ?case
  proof (elim disjE exE conjE)
    fix w1 now
    assume s: "client_send E p w = Some (0, w1)" and on: "on_conn p fd (c\<lparr>c_ts := now\<rparr>) w0 w1"
      and w1: "client_watched (hist w1) p (loop w1)" "active (hist w1) = active (hist w)"
        "requests (hist w1) fd = Suc (requests (hist w) fd)" "same_counts w w1" "same_times w w1"
    let ?c = "c\<lparr>c_ts := now, c_to_send := c_to_send c - 1\<rparr>"
    let ?w = "w1\<lparr>heap := (heap w1)(p := Some ?c)\<rparr>"
    have run: "send_loop E p w = send_loop E p ?w"
      using s on_conn_heap [OF on] by (simp add: step load_def store_def)
    have n: "n = unat (c_to_send ?c)" and u: "unat (c_to_send c) = Suc n"
      using Suc.hyps(2) nz by (simp_all add: unat_minus_one)
    have "client_shape fd ?c" "client_watched (hist ?w) p (loop ?w)"
      using Suc.prems(2) w1(1) by (simp_all add: client_shape_def)
    from Suc.hyps(1) [OF n on_conn_store [OF on, of ?c] this] show ?thesis
    proof (elim disjE exE conjE)
      fix w2 c2
      assume "send_loop E p ?w = Some (True, w2)" "on_conn p fd c2 w0 w2" "client_shape fd c2" "c_to_send c2 = 0"
        "client_watched (hist w2) p (loop w2)" "active (hist w2) = active (hist ?w)"
        "requests (hist w2) fd = requests (hist ?w) fd + unat (c_to_send ?c)" "same_counts ?w w2" "same_times ?w w2"
      then show ?thesis
        using run w1 n u by (intro disjI1 exI [of _ w2] exI [of _ c2]) (simp add: same_counts_def same_times_def)
    next
      fix w2 k
      assume "send_loop E p ?w = Some (False, w2)" "local_step c_fd lfd_c client_ok w0 w2"
        "heap w2 = (heap w0)(p := None)" "\<not> open_fd (hist w2) fd" "0 < k" "k \<le> unat (c_to_send ?c)"
        "requests (hist w2) fd = requests (hist ?w) fd + k" "same_counts ?w w2" "same_times ?w w2"
      then show ?thesis
        using run w1 n u by (intro disjI2 exI [of _ w2] exI [of _ "Suc k"]) (simp add: same_counts_def same_times_def)
    qed
  next
    fix w1
    assume "client_send E p w = Some (-1, w1)" "local_step c_fd lfd_c client_ok w0 w1"
      "heap w1 = (heap w0)(p := None)" "\<not> open_fd (hist w1) fd"
      "requests (hist w1) fd = Suc (requests (hist w) fd)" "same_counts w w1" "same_times w w1"
    then show ?thesis
      using Suc.hyps(2) by (intro disjI2 exI [of _ w1] exI [of _ 1]) (simp add: step)
  qed
qed

section \<open>The callbacks of a connection\<close>

lemma client_active:
  assumes inv: "ginv c_fd lfd_c G client_ok w" and act: "active (hist w) l (Member (Heap p) m)"
  obtains c fd where "heap w p = Some c" and "client_shape fd c" and "c_fd c = Some fd"
    and "client_watched (hist w) p l" and "m \<in> {Wev_recv, Wev_send, Wev_connect, Wev_timeout}"
proof -
  obtain c where c: "heap w p = Some c"
    using ginv_dead [OF inv, of p] act by (auto simp: dead_def)
  from client_ok_active [OF ginv_cok [OF inv c] act] obtain fd where "client_shape fd c"
    "client_watched (hist w) p l" "m \<in> {Wev_recv, Wev_send, Wev_connect, Wev_timeout}" .
  with c c_fd_shape show thesis by (intro that) auto
qed

lemma client_active_fd:
  assumes inv: "ginv c_fd lfd_c G client_ok w" and c: "heap w p = Some c" and fd: "c_fd c = Some fd"
    and act: "active (hist w) l (Member (Heap p) m)"
  shows "client_shape fd c" and "client_watched (hist w) p l"
proof -
  from client_active [OF inv act] obtain d f where d: "heap w p = Some d" "client_shape f d" "c_fd d = Some f"
    "client_watched (hist w) p l" .
  then have "d = c" "f = fd" using c fd by simp_all
  with d show "client_shape fd c" "client_watched (hist w) p l" by simp_all
qed

lemma client_keep:
  assumes inv: "ginv c_fd lfd_c G client_ok w" and c0: "heap w p = Some c0" "c_fd c0 = Some fd"
    and on: "on_conn p fd c w w'" and sh: "client_shape fd c" and wat: "client_watched (hist w') p l"
  shows "local_step c_fd lfd_c client_ok w w'"
proof (rule on_conn_keep [OF inv c0 on c_fd_shape [OF sh]])
  show "client_ok (hist w') p c" using sh wat unfolding client_ok_def by blast
qed

lemma timeout_c_run:
  assumes inv: "ginv c_fd lfd_c G client_ok w" and c: "heap w p = Some c" and fd: "c_fd c = Some fd"
    and act: "active (hist w) (loop w) (Member (Heap p) Wev_timeout)"
  shows "\<exists>w'. wcb_timeout (loop w) (Member (Heap p) Wev_timeout) tev w = Some w' \<and>
    local_step c_fd lfd_c client_ok w w' \<and> heap w' = (heap w)(p := Some (c\<lparr>c_to_send := c_to_send c + 1\<rparr>)) \<and>
    (\<forall>l wt. active (hist w') l wt \<longleftrightarrow> (l = loop w \<and> wt = Member (Heap p) Wev_send) \<or> active (hist w) l wt) \<and>
    same_counts w w' \<and> same_times w w'"
proof -
  note sh = client_active_fd(1) [OF inv c fd act] and wat = client_active_fd(2) [OF inv c fd act]
  let ?c = "c\<lparr>c_to_send := c_to_send c + 1\<rparr>"
  let ?w = "w\<lparr>heap := (heap w)(p := Some ?c), hist := Ev_io_start (loop w) (Member (Heap p) Wev_send) # hist w\<rparr>"
  have "on_conn p fd ?c w (w\<lparr>heap := (heap w)(p := Some ?c)\<rparr>)"
    by (rule on_conn_store [OF on_conn_start [OF inv c fd]])
  from on_conn_call [OF this, of "Ev_io_start (loop w) (Member (Heap p) Wev_send)"]
  have "on_conn p fd ?c w ?w" by (simp add: quiet_def about_def ev_fd_def init_ok_def)
  then have "local_step c_fd lfd_c client_ok w ?w"
    using sh client_watched_send(1) [OF wat] by (intro client_keep [OF inv c fd, of ?c ?w "loop w"]) simp_all
  moreover have "\<forall>l wt. active (hist ?w) l wt \<longleftrightarrow>
      (l = loop w \<and> wt = Member (Heap p) Wev_send) \<or> active (hist w) l wt" by auto
  moreover have "wcb_timeout (loop w) (Member (Heap p) Wev_timeout) tev w = Some ?w"
    using c by (simp add: wcb_timeout_def load_def store_def ev_io_start_def emit_def)
  moreover have "same_counts w ?w" "same_times w ?w" by (simp_all add: same_counts_def same_times_def)
  ultimately show ?thesis by (intro exI [of _ ?w] conjI) simp_all
qed

lemma connect_c_run:
  assumes inv: "ginv c_fd lfd_c G client_ok w" and c: "heap w p = Some c" and fd: "c_fd c = Some fd"
    and act: "active (hist w) (loop w) (Member (Heap p) Wev_connect)"
  shows "\<exists>w'. wcb_connect (loop w) (Member (Heap p) Wev_connect) tev w = Some w' \<and>
    local_step c_fd lfd_c client_ok w w' \<and> same_counts w w' \<and> same_times w w' \<and>
    (if EV_READ \<in> tev then heap w' = (heap w)(p := None) \<and> \<not> open_fd (hist w') fd
     else heap w' = (heap w)(p := Some (c\<lparr>c_to_send := 1\<rparr>)) \<and> open_fd (hist w') fd \<and>
       (\<forall>l m. active (hist w') l (Member (Heap p) m) \<longleftrightarrow> l = loop w \<and> m \<in> {Wev_recv, Wev_send, Wev_timeout}))"
proof -
  note sh = client_active_fd(1) [OF inv c fd act] and wat = client_active_fd(2) [OF inv c fd act]
  note on = on_conn_start [OF inv c fd]
  have fd': "io_fd (c_wev_connect c) = fd" using sh by (simp add: client_shape_def)
  show ?thesis
  proof (cases "EV_READ \<in> tev")
    case True
    from client_del_tail [OF inv c fd on sh wat, of "ln ''conn error fd=%d''" "[A_int fd]"] obtain w'
      where "client_del p (c_fprintf (ln ''conn error fd=%d'') [A_int fd] w) = Some (0, w')"
        "local_step c_fd lfd_c client_ok w w'" "client_gone p fd w w'" by blast
    with True c fd' show ?thesis
      by (intro exI [of _ w']) (simp add: wcb_connect_def load_def client_gone_def)
  next
    case False
    let ?c = "c\<lparr>c_to_send := 1\<rparr>"
    let ?h = "Ev_io_start (loop w) (Member (Heap p) Wev_recv) # Ev_io_start (loop w) (Member (Heap p) Wev_send) #
      Ev_io_stop (loop w) (Member (Heap p) Wev_connect) # hist w"
    let ?w = "w\<lparr>heap := (heap w)(p := Some ?c), hist := ?h\<rparr>"
    have "on_conn p fd ?c w (w\<lparr>heap := (heap w)(p := Some ?c)\<rparr>)" by (rule on_conn_store [OF on])
    from on_conn_call [OF this, of "Ev_io_stop (loop w) (Member (Heap p) Wev_connect)"]
    have "on_conn p fd ?c w (w\<lparr>heap := (heap w)(p := Some ?c),
        hist := Ev_io_stop (loop w) (Member (Heap p) Wev_connect) # hist w\<rparr>)"
      by (simp add: quiet_def about_def ev_fd_def init_ok_def)
    from on_conn_call [OF this, of "Ev_io_start (loop w) (Member (Heap p) Wev_send)"]
    have "on_conn p fd ?c w (w\<lparr>heap := (heap w)(p := Some ?c),
        hist := Ev_io_start (loop w) (Member (Heap p) Wev_send) #
          Ev_io_stop (loop w) (Member (Heap p) Wev_connect) # hist w\<rparr>)"
      by (simp add: quiet_def about_def ev_fd_def init_ok_def)
    from on_conn_call [OF this, of "Ev_io_start (loop w) (Member (Heap p) Wev_recv)"]
    have on': "on_conn p fd ?c w ?w" by (simp add: quiet_def about_def ev_fd_def init_ok_def)
    have wat': "client_watched ?h p (loop w)" using wat by (rule client_watched_connected)
    have "local_step c_fd lfd_c client_ok w ?w"
      using on' sh wat' by (intro client_keep [OF inv c fd, of ?c ?w "loop w"]) simp_all
    moreover have "active ?h l (Member (Heap p) m) \<longleftrightarrow> l = loop w \<and> m \<in> {Wev_recv, Wev_send, Wev_timeout}" for l m
    proof
      assume a: "active ?h l (Member (Heap p) m)"
      then have "l = loop w \<and> m \<in> {Wev_recv, Wev_send, Wev_connect, Wev_timeout}"
        using client_watchedD [OF wat'] by blast
      with a show "l = loop w \<and> m \<in> {Wev_recv, Wev_send, Wev_timeout}" by auto
    next
      assume "l = loop w \<and> m \<in> {Wev_recv, Wev_send, Wev_timeout}"
      moreover have "active (hist w) (loop w) (Member (Heap p) Wev_timeout)" using wat by (simp add: client_watched_def)
      ultimately show "active ?h l (Member (Heap p) m)" by auto
    qed
    moreover have "open_fd (hist w) fd" using on by (simp add: on_conn_def)
    ultimately show ?thesis
      using False c by (intro exI [of _ ?w]) (simp add: wcb_connect_def load_def store_def ev_io_start_def
          ev_io_stop_def emit_def same_counts_def same_times_def)
  qed
qed

lemma send_c_run:
  assumes ok: "env_ok E" and inv: "ginv c_fd lfd_c G client_ok w" and c: "heap w p = Some c" and fd: "c_fd c = Some fd"
    and act: "active (hist w) (loop w) (Member (Heap p) Wev_send)"
  shows "\<exists>w'. wcb_send E (loop w) (Member (Heap p) Wev_send) tev w = Some w' \<and>
    local_step c_fd lfd_c client_ok w w' \<and> same_counts w w' \<and> same_times w w' \<and>
    ((\<exists>c'. heap w' = (heap w)(p := Some c') \<and> c_to_send c' = 0 \<and>
        requests (hist w') fd = requests (hist w) fd + unat (c_to_send c) \<and>
        (\<forall>l wt. active (hist w') l wt \<longleftrightarrow>
           \<not> (l = loop w \<and> wt = Member (Heap p) Wev_send) \<and> active (hist w) l wt)) \<or>
     (\<exists>k. heap w' = (heap w)(p := None) \<and> \<not> open_fd (hist w') fd \<and> 0 < k \<and> k \<le> unat (c_to_send c) \<and>
        requests (hist w') fd = requests (hist w) fd + k))"
proof -
  note sh = client_active_fd(1) [OF inv c fd act] and wat = client_active_fd(2) [OF inv c fd act]
  from send_loop_run [OF ok inv c fd on_conn_start [OF inv c fd] sh wat] show ?thesis
  proof (elim disjE exE conjE)
    fix w1 c1
    assume l: "send_loop E p w = Some (True, w1)" and on: "on_conn p fd c1 w w1" and sh1: "client_shape fd c1"
      and w1: "c_to_send c1 = 0" "client_watched (hist w1) p (loop w1)" "active (hist w1) = active (hist w)"
        "requests (hist w1) fd = requests (hist w) fd + unat (c_to_send c)" "same_counts w w1" "same_times w w1"
    let ?w = "w1\<lparr>hist := Ev_io_stop (loop w) (Member (Heap p) Wev_send) # hist w1\<rparr>"
    have lp: "loop w1 = loop w" "heap w1 = (heap w)(p := Some c1)" using on by (simp_all add: on_conn_def)
    have "on_conn p fd c1 w ?w"
      using on by (rule on_conn_call) (simp_all add: quiet_def about_def ev_fd_def init_ok_def)
    then have "local_step c_fd lfd_c client_ok w ?w"
      using sh1 client_watched_send(2) [OF w1(2)] lp
      by (intro client_keep [OF inv c fd, of c1 ?w "loop w"]) simp_all
    with l w1 lp show ?thesis
      by (intro exI [of _ ?w]) (auto simp: wcb_send_def ev_io_stop_def emit_def same_counts_def same_times_def)
  next
    fix w1 k
    assume "send_loop E p w = Some (False, w1)" "local_step c_fd lfd_c client_ok w w1"
      "heap w1 = (heap w)(p := None)" "\<not> open_fd (hist w1) fd" "0 < k" "k \<le> unat (c_to_send c)"
      "requests (hist w1) fd = requests (hist w) fd + k" "same_counts w w1" "same_times w w1"
    then show ?thesis by (intro exI [of _ w1]) (auto simp: wcb_send_def)
  qed
qed

text \<open>The statistics after one more measurement of \<open>t\<close> seconds.\<close>

definition measured :: "double \<Rightarrow> client_world \<Rightarrow> client_world \<Rightarrow> bool" where
  "measured t w w' \<longleftrightarrow> times_sum w' = times_sum w + t \<and> times_count w' = times_count w + 1 \<and>
     times_max w' = (if times_max w < t then t else times_max w) \<and>
     times_min w' = (if t < times_min w then t else times_min w)"

lemma recv_c_run:
  assumes ok: "env_ok E" and inv: "ginv c_fd lfd_c G client_ok w" and c: "heap w p = Some c" and fd: "c_fd c = Some fd"
    and act: "active (hist w) (loop w) (Member (Heap p) Wev_recv)"
    and rcv: "aux_unix_recv E fd 4096 w = Some (nb, data, w1)"
  shows "\<exists>w'. wcb_recv E (loop w) (Member (Heap p) Wev_recv) tev w = Some w' \<and>
    local_step c_fd lfd_c client_ok w w' \<and> same_counts w w' \<and>
    measured (e_ev_now E (hist w1) (loop w) - c_ts c) w w' \<and>
    recvd (hist w') fd = recvd (hist w) fd @ data \<and>
    (if nb < 0 \<and> errno w1 \<noteq> EAGAIN then heap w' = (heap w)(p := None) \<and> \<not> open_fd (hist w') fd
     else heap w' = heap w \<and> open_fd (hist w') fd \<and> active (hist w') = active (hist w))"
proof -
  note sh = client_active_fd(1) [OF inv c fd act] and wat = client_active_fd(2) [OF inv c fd act]
  have fd': "io_fd (c_wev_recv c) = fd" using sh by (simp add: client_shape_def)
  define t where "t = e_ev_now E (hist w1) (loop w) - c_ts c"
  define w2 where "w2 = w1\<lparr>hist := Ev_now (loop w) (e_ev_now E (hist w1) (loop w)) # hist w1,
     times_sum := times_sum w1 + t, times_count := times_count w1 + 1,
     times_max := (if times_max w1 < t then t else times_max w1),
     times_min := (if t < times_min w1 then t else times_min w1)\<rparr>"
  have run: "wcb_recv E (loop w) (Member (Heap p) Wev_recv) tev w =
     (if nb < 0 then
       if errno w1 = EAGAIN then Some w2
       else do {
         (_, w) \<leftarrow> client_del p (c_fprintf (ln ''recv error fd=%d (%d: %s)'')
               [A_int fd, A_strerror (errno w1), A_strerror (errno w1)] w2);
         Some w
       }
     else Some w2)"
    by (simp add: wcb_recv_def load_def c fd' rcv Let_def ev_now_def emit_def t_def w2_def)
  have lt: "unat (4096 :: size_t) < 2 ^ 31" by simp
  obtain r k e where w1: "w1 = w\<lparr>hist := Recv fd 4096 r # interrupted k fd 4096 (hist w), errno := e\<rparr>"
    and r: "case r of Inl _ \<Rightarrow> data = [] | Inr bs \<Rightarrow> data = bs"
    using ok lt rcv
  proof (cases rule: aux_unix_recv_cases)
    case (error k e)
    show thesis by (rule that, rule error(6)) (simp add: error(5))
  next
    case (data k e)
    show thesis by (rule that, rule data(5)) simp
  qed
  have "on_conn p fd c w w1" unfolding w1 by (rule on_conn_recv [OF on_conn_start [OF inv c fd]])
  from on_conn_call [OF this, of "Ev_now (loop w) (e_ev_now E (hist w1) (loop w))"]
  have on: "on_conn p fd c w w2"
    by (simp add: w2_def on_conn_def quiet_def about_def ev_fd_def init_ok_def)
  have lp: "loop w2 = loop w" and hp: "heap w2 = heap w" by (simp_all add: w2_def w1)
  have wat2: "client_watched (hist w2) p (loop w2)" using wat by (simp add: w2_def w1)
  have opn: "open_fd (hist w2) fd" using on by (simp add: on_conn_def)
  have act2: "active (hist w2) = active (hist w)" by (simp add: w2_def w1 fun_eq_iff)
  have rc2: "recvd (hist w2) fd = recvd (hist w) fd @ data"
    using r by (cases r) (simp_all add: w2_def w1)
  have cnt: "same_counts w w2" "measured t w w2"
    by (simp_all add: w2_def w1 same_counts_def measured_def)
  show ?thesis
  proof (cases "nb < 0 \<and> errno w1 \<noteq> EAGAIN")
    case True
    from client_del_tail [OF inv c fd on sh wat2, of "ln ''recv error fd=%d (%d: %s)''"
        "[A_int fd, A_strerror (errno w1), A_strerror (errno w1)]"] obtain w'
      where "client_del p (c_fprintf (ln ''recv error fd=%d (%d: %s)'')
               [A_int fd, A_strerror (errno w1), A_strerror (errno w1)] w2) = Some (0, w')"
        "local_step c_fd lfd_c client_ok w w'" "client_gone p fd w2 w'" by blast
    with True cnt rc2 hp show ?thesis
      unfolding run t_def [symmetric]
      by (intro exI [of _ w']) (simp add: client_gone_def same_counts_def same_times_def measured_def)
  next
    case False
    have "local_step c_fd lfd_c client_ok w w2"
      by (rule client_keep [OF inv c fd on sh wat2])
    with False cnt rc2 hp opn act2 show ?thesis
      unfolding run t_def [symmetric] by (intro exI [of _ w2]) auto
  qed
qed

end
