(* ===== verification/ClientLoop.thy ===== *)
theory ClientLoop
  imports ClientConn
begin

text \<open>
  The load generator as a whole: \<open>client_add\<close>, the two global timers, the contract
  \<open>reactor\<close>, and the counter that bounds the number of attempts.
\<close>

section \<open>New connections\<close>

text \<open>
  A failed attempt leaves the block it allocated behind, all zero and unwatched, but no
  open descriptor.
\<close>

definition attempt_failed :: "client_world \<Rightarrow> client_world \<Rightarrow> bool" where
  "attempt_failed w w' \<longleftrightarrow>
     (heap w' = heap w \<or> (\<exists>p. heap w p = None \<and> heap w' = (heap w)(p := Some zero_client) \<and> allocated (hist w') p)) \<and>
     (\<forall>fd. open_fd (hist w') fd \<longleftrightarrow> open_fd (hist w) fd)"

definition attempt_started :: "client_world \<Rightarrow> client_world \<Rightarrow> bool" where
  "attempt_started w w' \<longleftrightarrow> (\<exists>p c fd. heap w p = None \<and> heap w' = (heap w)(p := Some c) \<and>
     client_shape fd c \<and> c_to_send c = 0 \<and> \<not> open_fd (hist w) fd \<and> open_fd (hist w') fd \<and>
     (\<forall>l m. active (hist w') l (Member (Heap p) m) \<longleftrightarrow> l = loop w \<and> m \<in> {Wev_connect, Wev_timeout}))"

definition same_glob :: "client_world \<Rightarrow> client_world \<Rightarrow> bool" where
  "same_glob w w' \<longleftrightarrow>
     (\<forall>l m. active (hist w') l (Member Global m) = active (hist w) l (Member Global m)) \<and>
     (\<forall>m. registered (hist w') (Member Global m) = registered (hist w) (Member Global m))"

lemma client_add_run:
  assumes ok: "env_ok E" and inv: "ginv c_fd lfd_c G client_ok w"
  shows "\<exists>rc w'. client_add E w = Some (rc, w') \<and> local_step c_fd lfd_c client_ok w w' \<and>
    number_of_clients w' = number_of_clients w \<and> callocs (hist w') = Suc (callocs (hist w)) \<and>
    same_glob w w' \<and> same_times w w' \<and>
    (if rc < 0 then attempt_failed w w' else attempt_started w w')"
proof (cases "e_calloc E (hist w)")
  case None
  let ?w = "w\<lparr>hist := Calloc None # hist w\<rparr>"
  have "local_step c_fd lfd_c client_ok w ?w"
    by (rule local_step_none [OF inv, of "{}"])
       (auto intro!: ext_Cons ext_refl simp: about_def ev_fd_def init_ok_def)
  with None show ?thesis
    by (intro exI [of _ "-1"] exI [of _ ?w])
       (simp add: client_add_def c_calloc_def emit_def same_times_def same_glob_def attempt_failed_def)
next
  case (Some p)
  note side = about_def ev_fd_def init_ok_def
  have "\<not> allocated (hist w) p" using env_okD(6) [OF ok Some] .
  then have free: "heap w p = None" using ginv_allocated [OF inv, of p] by (cases "heap w p") auto
  have idle: "\<not> active (hist w) l (Member (Heap p) m)" for l m
    using ginv_dead [OF inv free] by (simp add: dead_def)
  define h where "h = Calloc (Some p) # hist w"
  define v where "v = w\<lparr>hist := h, heap := (heap w)(p := Some zero_client)\<rparr>"
  have cal: "c_calloc E zero_client w = (Some p, v)"
    using Some by (simp add: c_calloc_def emit_def h_def v_def)
  have blank: "\<exists>rc w'. Some (-1 :: int, v\<lparr>hist := h', errno := e\<rparr>) = Some (rc, w') \<and> local_step c_fd lfd_c client_ok w w' \<and>
      number_of_clients w' = number_of_clients w \<and> callocs (hist w') = Suc (callocs (hist w)) \<and>
    same_glob w w' \<and> same_times w w' \<and>
      (if rc < 0 then attempt_failed w w' else attempt_started w w')"
    if x: "ext {Heap p} F (hist w) h'" and F: "\<forall>fd \<in> F. \<not> open_fd (hist w) fd"
      and a: "\<And>l m. \<not> active h' l (Member (Heap p) m)" and al: "allocated h' p"
      and cc: "callocs h' = Suc (callocs (hist w))" and op: "\<And>fd. open_fd h' fd = open_fd (hist w) fd"
      and gl: "same_glob w (v\<lparr>hist := h'\<rparr>)"
    for h' e F
  proof (intro exI conjI, rule refl)
    show "local_step c_fd lfd_c client_ok w (v\<lparr>hist := h', errno := e\<rparr>)"
      using x F free a al
      by (intro local_step_blank [OF inv F free, where c = zero_client]) (simp_all add: v_def client_ok_def)
  qed (use free al cc op gl in \<open>auto simp: v_def same_times_def same_glob_def attempt_failed_def\<close>)
  show ?thesis
  proof (cases "e_socket E h")
    case (Inl e)
    let ?h = "Fprintf (ln ''sock error'') [] # Socket AF_INET SOCK_STREAM 0 (Inl e) # h"
    have "client_add E w = Some (-1, v\<lparr>hist := ?h, errno := e\<rparr>)"
      using Inl by (simp add: client_add_def cal c_socket_def status_def c_fprintf_def emit_def v_def)
    moreover have "ext {Heap p} {} (hist w) ?h"
      unfolding h_def by (auto intro!: ext_Cons ext_refl simp: side)
    ultimately show ?thesis
      using blank [of "{}" ?h e] idle by (simp add: h_def v_def same_glob_def)
  next
    case (Inr sd)
    note sd = env_okD(3) [OF ok Inr]
    have new: "\<not> open_fd (hist w) sd" using sd by (simp add: h_def)
    let ?h1 = "Socket AF_INET SOCK_STREAM 0 (Inr sd) # h"
    have sk: "c_socket E v = (sd, v\<lparr>hist := ?h1\<rparr>)"
      using Inr by (simp add: c_socket_def status_def emit_def v_def)
    show ?thesis
    proof (cases "e_ioctl E ?h1 sd 1")
      case (Inl e)
      let ?h = "Close sd # Ioctl sd FIONBIO 1 (Inl e) # ?h1"
      have "client_add E w = Some (-1, v\<lparr>hist := ?h, errno := e\<rparr>)"
        using Inl sd by (simp add: client_add_def cal sk aux_set_nonblk_def c_ioctl_def status_def c_close_def emit_def)
      moreover have "ext {Heap p} {sd} (hist w) ?h"
        unfolding h_def by (auto intro!: ext_Cons ext_refl simp: side)
      ultimately show ?thesis
        using blank [of "{sd}" ?h e] idle new by (auto simp: h_def v_def same_glob_def)
    next
      case (Inr r)
      then have io: "aux_set_nonblk E sd 1 (v\<lparr>hist := ?h1\<rparr>) = (0, v\<lparr>hist := Ioctl sd FIONBIO 1 (Inr 0) # ?h1\<rparr>)"
        using env_okD(7) [OF ok Inr] by (simp add: aux_set_nonblk_def c_ioctl_def status_def emit_def)
      let ?h2 = "Ioctl sd FIONBIO 1 (Inr 0) # ?h1"
      define u where "u = v\<lparr>hist := ?h2\<rparr>"
      define c where "c = \<lparr>c_wev_recv = \<lparr>io_cb = Wcb_recv, io_fd = sd, io_events = {EV_READ}\<rparr>,
        c_wev_send = \<lparr>io_cb = Wcb_send, io_fd = sd, io_events = {EV_WRITE}\<rparr>,
        c_wev_connect = \<lparr>io_cb = Wcb_connect, io_fd = sd, io_events = {EV_READ, EV_WRITE}\<rparr>,
        c_wev_timeout = \<lparr>tm_cb = Wcb_timeout, tm_after = 0, tm_repeat = RESEND_INTERVAL\<rparr>,
        c_ts = 0, c_to_send = 0\<rparr>"
      let ?h3 = "\<lambda>h'. Ev_io_start (loop w) (Member (Heap p) Wev_connect) #
        Ev_timer_again (loop w) (Member (Heap p) Wev_timeout) RESEND_INTERVAL #
        Ev_timer_init (Member (Heap p) Wev_timeout) Wcb_timeout 0 RESEND_INTERVAL #
        Ev_io_init (Member (Heap p) Wev_connect) Wcb_connect sd {EV_READ, EV_WRITE} #
        Ev_io_init (Member (Heap p) Wev_send) Wcb_send sd {EV_WRITE} #
        Ev_io_init (Member (Heap p) Wev_recv) Wcb_recv sd {EV_READ} # h'"
      define y where "y r e = v\<lparr>errno := e, hist := ?h3 (Connect sd (g_addr w) r # ?h2),
        heap := (heap v)(p := Some c)\<rparr>" for r e
      have cz: "zero_client\<lparr>c_wev_recv := \<lparr>io_cb = Wcb_recv, io_fd = sd, io_events = {EV_READ}\<rparr>,
        c_wev_send := \<lparr>io_cb = Wcb_send, io_fd = sd, io_events = {EV_WRITE}\<rparr>,
        c_wev_connect := \<lparr>io_cb = Wcb_connect, io_fd = sd, io_events = {EV_READ, EV_WRITE}\<rparr>,
        c_wev_timeout := \<lparr>tm_cb = Wcb_timeout, tm_after = 0, tm_repeat = RESEND_INTERVAL\<rparr>\<rparr> = c"
        by (simp add: zero_client_def c_def)
      have sh: "client_shape sd c" by (simp add: client_shape_def c_def)
      have started: "\<exists>rc w'. Some (0 :: int, y r e) = Some (rc, w') \<and> local_step c_fd lfd_c client_ok w w' \<and>
          number_of_clients w' = number_of_clients w \<and> callocs (hist w') = Suc (callocs (hist w)) \<and>
    same_glob w w' \<and> same_times w w' \<and>
          (if rc < 0 then attempt_failed w w' else attempt_started w w')" for r e
      proof (intro exI conjI, rule refl)
        let ?h = "Connect sd (g_addr w) r # ?h2"
        have "ext {Heap p} {sd} (hist w) (?h3 ?h)"
          unfolding h_def by (auto intro!: ext_Cons ext_refl simp: side)
        moreover have wat: "client_watched (?h3 ?h) p (loop w)"
          using idle by (intro client_watched_new) (simp add: h_def)
        then have "client_ok (?h3 ?h) p c" using sh unfolding client_ok_def by blast
        ultimately show "local_step c_fd lfd_c client_ok w (y r e)"
          using c_fd_shape [OF sh]
          by (intro local_step_new [OF inv new free, where c = c]) (simp_all add: y_def v_def h_def)
        have "active (?h3 ?h) l (Member (Heap p) m) \<longleftrightarrow> l = loop w \<and> m \<in> {Wev_connect, Wev_timeout}" for l m
          using idle by (auto simp: h_def)
        then have "attempt_started w (y r e)"
          unfolding attempt_started_def using sh free new
          by (intro exI [of _ p] exI [of _ c] exI [of _ sd]) (simp add: y_def v_def h_def c_def)
        then show "if (0::int) < 0 then attempt_failed w (y r e) else attempt_started w (y r e)" by simp
      qed (simp_all add: y_def v_def h_def same_times_def same_glob_def)
      have load: "load p (v\<lparr>hist := h', errno := e\<rparr>) = Some zero_client"
        "load p (v\<lparr>hist := h'\<rparr>) = Some zero_client" for h' e
        by (simp_all add: load_def v_def)
      have lp: "loop v = loop w" "heap v p = Some zero_client" by (simp_all add: v_def)
      show ?thesis
      proof (cases "e_connect E ?h2 sd (g_addr w)")
        case (Inl e)
        have co: "c_connect E sd (g_addr u) u =
            (-1, v\<lparr>hist := Connect sd (g_addr w) (Inl e) # ?h2, errno := e\<rparr>)"
          using Inl by (simp add: c_connect_def status_def emit_def u_def v_def)
        show ?thesis
        proof (cases "e = EINPROGRESS")
          case False
          let ?h = "Close sd # Fprintf (ln ''conn error fd=%d'') [A_int sd] # Connect sd (g_addr w) (Inl e) # ?h2"
          have "client_add E w = Some (-1, v\<lparr>hist := ?h, errno := e\<rparr>)"
            using False sd co [unfolded u_def]
            by (simp add: client_add_def cal sk io c_fprintf_def c_close_def emit_def)
          moreover have "ext {Heap p} {sd} (hist w) ?h"
            unfolding h_def by (auto intro!: ext_Cons ext_refl simp: side)
          ultimately show ?thesis
            using blank [of "{sd}" ?h e] idle new by (auto simp: h_def v_def same_glob_def)
        next
          case True
          have "client_add E w = Some (0, y (Inl e) e)"
            using True sd co [unfolded u_def] lp
            by (simp add: client_add_def cal sk io load store_def ev_io_init_def ev_timer_init_def
                ev_timer_again_def ev_io_start_def emit_def cz y_def Let_def)
          with started [of "Inl e" e] show ?thesis by simp
        qed
      next
        case (Inr rc)
        then have "rc = 0" by (rule env_okD(8) [OF ok])
        with Inr have co: "c_connect E sd (g_addr u) u = (0, v\<lparr>hist := Connect sd (g_addr w) (Inr 0) # ?h2\<rparr>)"
          by (simp add: c_connect_def status_def emit_def u_def v_def)
        have "client_add E w = Some (0, y (Inr 0) (errno v))"
          using sd co [unfolded u_def] lp
          by (simp add: client_add_def cal sk io load store_def ev_io_init_def ev_timer_init_def
              ev_timer_again_def ev_io_start_def emit_def cz y_def Let_def)
        with started [of "Inr 0" "errno v"] show ?thesis by simp
      qed
    qed
  qed
qed

section \<open>The global timers\<close>

lemma local_step_number [simp]:
  "local_step c_fd lfd_c client_ok (w\<lparr>number_of_clients := n\<rparr>) w' = local_step c_fd lfd_c client_ok w w'"
  "ginv c_fd lfd_c G client_ok (w\<lparr>number_of_clients := n\<rparr>) = ginv c_fd lfd_c G client_ok w"
  by (simp_all add: local_step_def local_step_at_def ginv_def)

lemma silent_c_run:
  assumes ok: "env_ok E" and inv: "ginv c_fd lfd_c G client_ok w" and n: "number_of_clients w + 1 < 2 ^ 31"
  shows "\<exists>w'. wcb_silent E (loop w) (Member Global Wev_silent) tev w = Some w' \<and>
    local_step c_fd lfd_c client_ok w w' \<and> number_of_clients w' = number_of_clients w + 1 \<and> same_times w w' \<and>
    (if MAX_CLIENTS \<le> number_of_clients w then heap w' = heap w \<and>
       hist w' = Ev_timer_stop (loop w) (Member Global Wev_silent) # hist w
     else callocs (hist w') = Suc (callocs (hist w)) \<and> same_glob w w' \<and>
       (attempt_failed w w' \<or> attempt_started w w'))"
proof (cases "MAX_CLIENTS \<le> number_of_clients w")
  case True
  let ?w = "w\<lparr>number_of_clients := number_of_clients w + 1,
    hist := Ev_timer_stop (loop w) (Member Global Wev_silent) # hist w\<rparr>"
  have "local_step c_fd lfd_c client_ok w ?w"
    by (rule local_step_none [OF inv, of "{}"])
       (auto intro!: ext_Cons ext_refl simp: about_def ev_fd_def init_ok_def)
  with True n show ?thesis
    by (intro exI [of _ ?w]) (simp add: wcb_silent_def ev_timer_stop_def emit_def same_times_def)
next
  case False
  let ?w = "w\<lparr>number_of_clients := number_of_clients w + 1\<rparr>"
  have "ginv c_fd lfd_c G client_ok ?w" using inv by simp
  from client_add_run [OF ok this] obtain rc w' where a: "client_add E ?w = Some (rc, w')"
    "local_step c_fd lfd_c client_ok w w'" "number_of_clients w' = number_of_clients w + 1"
    "callocs (hist w') = Suc (callocs (hist w))" "same_glob ?w w'" "same_times ?w w'"
    "if rc < 0 then attempt_failed ?w w' else attempt_started ?w w'" by auto
  then have "attempt_failed w w' \<or> attempt_started w w'"
    by (auto simp: attempt_failed_def attempt_started_def split: if_splits)
  with False n a show ?thesis
    by (intro exI [of _ w']) (simp add: wcb_silent_def same_glob_def same_times_def)
qed

lemma exit_c_run:
  assumes inv: "ginv c_fd lfd_c G client_ok w"
  shows "\<exists>w'. wcb_exit (loop w) wt tev w = Some w' \<and> local_step c_fd lfd_c client_ok w w' \<and>
    same_counts w w' \<and> same_times w w' \<and> heap w' = heap w"
proof -
  let ?w = "w\<lparr>hist := Ev_break (loop w) # hist w\<rparr>"
  have "local_step c_fd lfd_c client_ok w ?w"
    by (rule local_step_none [OF inv, of "{}"])
       (auto intro!: ext_Cons ext_refl simp: about_def ev_fd_def init_ok_def)
  then show ?thesis
    by (intro exI [of _ ?w]) (simp add: wcb_exit_def ev_break_def emit_def same_counts_def same_times_def)
qed

section \<open>The whole program\<close>

abbreviation global_members :: "member set" where
  "global_members \<equiv> {Wev_exit, Wev_silent}"

lemma client_watcher_cases [consumes 3, case_names conn exit silent stack]:
  assumes inv: "ginv c_fd lfd_c global_members client_ok w" and act: "active (hist w) l wt"
    and reg: "registered (hist w) wt = Some cb"
  obtains (conn) p m c fd where "wt = Member (Heap p) m" and "cb = cb_of m" and "heap w p = Some c" and "c_fd c = Some fd"
    and "m \<in> {Wev_recv, Wev_send, Wev_connect, Wev_timeout}"
  | (exit) "wt = Member Global Wev_exit" and "cb = Wcb_exit"
  | (silent) "wt = Member Global Wev_silent" and "cb = Wcb_silent"
  | (stack) n where "cb = Wcb_accept" and "servers w n \<noteq> None"
proof (cases wt)
  case (Member ob m)
  have cb: "cb = cb_of m"
    using ginv_registered [OF inv reg] Member by simp
  show thesis
  proof (cases ob)
    case (Heap p)
    then have "active (hist w) l (Member (Heap p) m)" using act Member by simp
    from client_active [OF inv this] show thesis
      using Member Heap cb by (metis that(1))
  next
    case (Stack n)
    with act Member ginv_stack [OF inv, of l n m] cb show thesis by (intro that(4)) auto
  next
    case Global
    with act Member ginv_global [OF inv, of l m] cb show thesis
      using that(2,3) by auto
  qed
qed

text \<open>A callback of a connection: it keeps the counters, except that receiving measures.\<close>

lemma conn_c_run:
  assumes ok: "env_ok E" and inv: "ginv c_fd lfd_c G client_ok w" and c: "heap w p = Some c" and fd: "c_fd c = Some fd"
    and act: "active (hist w) (loop w) (Member (Heap p) m)"
    and rcv: "m = Wev_recv \<Longrightarrow> \<exists>r. aux_unix_recv E fd 4096 w = Some r"
    and m: "m \<in> {Wev_recv, Wev_send, Wev_connect, Wev_timeout}"
  shows "\<exists>w'. invoke_c E (cb_of m) (loop w) (Member (Heap p) m) tev w = Some w' \<and>
    local_step c_fd lfd_c client_ok w w' \<and> same_counts w w' \<and> (\<forall>q. q \<noteq> p \<longrightarrow> heap w' q = heap w q)"
proof -
  consider "m = Wev_recv" | "m = Wev_send" | "m = Wev_connect" | "m = Wev_timeout" using m by auto
  then show ?thesis
  proof cases
    case 1
    with rcv obtain nb data w1 where "aux_unix_recv E fd 4096 w = Some (nb, data, w1)" by auto
    from recv_c_run [OF ok inv c fd _ this, of tev] act 1 show ?thesis by (auto simp: invoke_c_def split: if_splits)
  next
    case 2
    with send_c_run [OF ok inv c fd, of tev] act show ?thesis by (auto simp: invoke_c_def)
  next
    case 3
    with connect_c_run [OF inv c fd, of tev] act show ?thesis by (auto simp: invoke_c_def split: if_splits)
  next
    case 4
    with timeout_c_run [OF inv c fd, of tev] act show ?thesis by (auto simp: invoke_c_def)
  qed
qed

lemma wcb_recv_result:
  assumes "wcb_recv E lp (Member (Heap p) Wev_recv) tev w = Some w'" and "heap w p = Some c"
    and "c_fd c = Some fd"
  shows "\<exists>r. aux_unix_recv E fd 4096 w = Some r"
  using assms by (auto simp: wcb_recv_def load_def bind_some Let_def c_fd_def split: if_splits)

lemma invoke_c_local:
  assumes ok: "env_ok E" and inv: "ginv c_fd lfd_c global_members client_ok w" and act: "active (hist w) l wt"
    and reg: "registered (hist w) wt = Some cb" and l: "loop w = l" and run: "invoke_c E cb l wt tev w = Some w'"
  shows "local_step c_fd lfd_c client_ok w w'"
  using inv act reg
proof (cases rule: client_watcher_cases)
  case (conn p m c fd)
  have a: "active (hist w) (loop w) (Member (Heap p) m)" using act conn(1) l by simp
  have "\<exists>r. aux_unix_recv E fd 4096 w = Some r" if "m = Wev_recv"
    using wcb_recv_result [OF _ conn(3,4)] run conn(1,2) that by (simp add: invoke_c_def)
  from conn_c_run [OF ok inv conn(3,4) a this conn(5), of tev] run conn(1,2) l show ?thesis by auto
next
  case exit
  with exit_c_run [OF inv, of wt tev] run l show ?thesis by (auto simp: invoke_c_def)
next
  case silent
  with run have "number_of_clients w + 1 < 2 ^ 31"
    by (auto simp: invoke_c_def wcb_silent_def Let_def split: if_splits)
  from silent_c_run [OF ok inv this, of tev] silent run l show ?thesis by (auto simp: invoke_c_def)
next
  case (stack n)
  with run show ?thesis by (simp add: invoke_c_def)
qed

lemma main_c_world:
  assumes "fresh_world w0" and "main_c E argv w0 = Some (Running w)"
  shows "hist w = [Ev_run (loop w), Ev_timer_again (loop w) (Member Global Wev_silent) SILENT_TIMEOUT,
      Ev_timer_init (Member Global Wev_silent) Wcb_silent 0 SILENT_TIMEOUT,
      Ev_timer_again (loop w) (Member Global Wev_exit) EXECUTION_TIME,
      Ev_timer_init (Member Global Wev_exit) Wcb_exit 0 EXECUTION_TIME, Ev_new_loop (loop w)] \<and>
    heap w = (\<lambda>_. None) \<and> servers w = (\<lambda>_. None) \<and> number_of_clients w = 0 \<and> times_count w = 0 \<and> times_sum w = 0"
  using assms
  by (auto simp: main_c_def bind_some fresh_world_def Let_def ev_new_loop_def ev_timer_init_def
      ev_timer_again_def ev_run_def emit_def c_fprintf_def fun_eq_iff split: if_splits)

lemma timers_pos [simp]: "0 < SILENT_TIMEOUT" "0 < EXECUTION_TIME"
  by (simp_all add: SILENT_TIMEOUT_def EXECUTION_TIME_def double_ops round_ratio_def ilog2_def bit_len.simps
      scale_num_def scale_den_def rne_def Let_def d_zero_def d_scaled_def)

definition no_servers :: "client_world \<Rightarrow> bool" where
  "no_servers w \<longleftrightarrow> servers w = (\<lambda>_. None)"

interpretation c: reactor c_fd lfd_c client_ok global_members invoke_c "\<lambda>_. no_spawn" start_c no_servers
proof unfold_locales
  fix h h' :: history and p c Os F
  assume "client_ok h p c" and "ext Os F h h'" and "Heap p \<notin> Os"
  then show "client_ok h' p c" by (rule client_ok_ext)
next
  fix h p c l
  assume "client_ok h p c"
  then show "client_ok (Ev_new_loop l # h) p c"
    by (subst client_ok_cong [where h = h]) simp_all
next
  fix E :: "client env" and w :: client_world
  assume "start_c E w"
  then obtain argv v where v: "fresh_world v" "main_c E argv v = Some (Running w)"
    by (auto simp: start_c_def)
  note m = main_c_world [OF v]
  show "ginv c_fd lfd_c global_members client_ok w"
    using m by (subst ginv_def) (auto simp: dead_def split: if_splits)
  show "no_servers w" using m by (simp add: no_servers_def)
next
  fix E :: "client env" and w w' :: client_world and l wt cb tev
  assume "env_ok E" and "ginv c_fd lfd_c global_members client_ok w" and "active (hist w) l wt"
    and "registered (hist w) wt = Some cb" and "loop w = l" and "invoke_c E cb l wt tev w = Some w'"
  then show "local_step c_fd lfd_c client_ok w w'" by (rule invoke_c_local)
next
  fix w w' :: client_world and l
  assume "no_servers w" and "local_step c_fd lfd_c client_ok (w\<lparr>loop := l\<rparr>) w'"
  then show "no_servers w'" by (auto simp: no_servers_def local_step_def dest: at_servers)
next
  fix E :: "client env" and w w' :: client_world
  assume "no_spawn w w'"
  then show "ginv c_fd lfd_c global_members client_ok w' \<and> no_servers w'"
    "heap w' = heap w \<and> open_fd (hist w') = open_fd (hist w) \<and>
      (\<forall>n s. servers w n = Some s \<longrightarrow> servers w' n = Some s)"
    by (simp_all add: no_spawn_def)
qed

abbreviation reach_c :: "client env \<Rightarrow> client_world \<Rightarrow> bool" where
  "reach_c E \<equiv> ev_reach (invoke_c E) no_spawn (start_c E)"

lemma step_globals:
  assumes ok: "env_ok E" and inv: "ginv c_fd lfd_c global_members client_ok w" and step: "ev_step (invoke_c E) w w'"
  shows "\<forall>m. registered (hist w') (Member Global m) = registered (hist w) (Member Global m)"
proof -
  from step obtain l wt cb tev where act: "active (hist w) l wt" and reg: "registered (hist w) wt = Some cb"
    and run: "invoke_c E cb l wt tev (w\<lparr>loop := l\<rparr>) = Some w'"
    by (auto elim: ev_stepE)
  let ?w = "w\<lparr>loop := l\<rparr>"
  have inv': "ginv c_fd lfd_c global_members client_ok ?w" using inv by simp
  show ?thesis
    using inv act reg
  proof (cases rule: client_watcher_cases)
    case (conn p m c fd)
    have c: "heap ?w p = Some c" and a: "active (hist ?w) (loop ?w) (Member (Heap p) m)"
      using conn act by simp_all
    have "\<exists>r. aux_unix_recv E fd 4096 ?w = Some r" if "m = Wev_recv"
      using wcb_recv_result [OF _ c conn(4)] run conn(1,2) that by (simp add: invoke_c_def)
    from conn_c_run [OF ok inv' c conn(4) a this conn(5), of tev] run conn(1,2) show ?thesis
      by (auto simp: same_counts_def)
  next
    case exit
    with exit_c_run [OF inv', of wt tev] run show ?thesis by (auto simp: invoke_c_def same_counts_def)
  next
    case silent
    with run have "number_of_clients ?w + 1 < 2 ^ 31"
      by (auto simp: invoke_c_def wcb_silent_def Let_def split: if_splits)
    from silent_c_run [OF ok inv' this, of tev] silent run show ?thesis
      by (auto simp: invoke_c_def same_glob_def split: if_splits)
  next
    case (stack n)
    with run show ?thesis by (simp add: invoke_c_def)
  qed
qed

section \<open>How many attempts are made\<close>

text \<open>
  The timer that starts clients runs in the loop of the other one until the counter has
  passed the limit, then never again; each run up to there allocated one structure.
\<close>

definition attempts_inv :: "client_world \<Rightarrow> bool" where
  "attempts_inv w \<longleftrightarrow> 0 \<le> number_of_clients w \<and> number_of_clients w \<le> MAX_CLIENTS + 1 \<and>
     int (callocs (hist w)) = min (number_of_clients w) MAX_CLIENTS \<and>
     (\<exists>l0. (\<forall>l. active (hist w) l (Member Global Wev_exit) \<longleftrightarrow> l = l0) \<and>
       (\<forall>l. active (hist w) l (Member Global Wev_silent) \<longleftrightarrow> l = l0 \<and> number_of_clients w \<le> MAX_CLIENTS))"

lemma attempts_inv_same:
  "attempts_inv w \<Longrightarrow> same_counts w w' \<Longrightarrow> attempts_inv w'"
  unfolding attempts_inv_def same_counts_def by simp

lemma attempts_inv_loop [simp]: "attempts_inv (w\<lparr>loop := l\<rparr>) = attempts_inv w"
  by (simp add: attempts_inv_def)

lemma attempts_inv_step:
  assumes ok: "env_ok E" and inv: "ginv c_fd lfd_c global_members client_ok w" and att: "attempts_inv w"
    and step: "ev_step (invoke_c E) w w'"
  shows "attempts_inv w'"
proof -
  from step obtain l wt cb tev where act: "active (hist w) l wt" and reg: "registered (hist w) wt = Some cb"
    and run: "invoke_c E cb l wt tev (w\<lparr>loop := l\<rparr>) = Some w'"
    by (auto elim: ev_stepE)
  let ?w = "w\<lparr>loop := l\<rparr>"
  have inv': "ginv c_fd lfd_c global_members client_ok ?w" using inv by simp
  have att': "attempts_inv ?w" using att by simp
  show ?thesis
    using inv act reg
  proof (cases rule: client_watcher_cases)
    case (conn p m c fd)
    have c: "heap ?w p = Some c" and a: "active (hist ?w) (loop ?w) (Member (Heap p) m)"
      using conn act by simp_all
    have "\<exists>r. aux_unix_recv E fd 4096 ?w = Some r" if "m = Wev_recv"
      using wcb_recv_result [OF _ c conn(4)] run conn(1,2) that by (simp add: invoke_c_def)
    from conn_c_run [OF ok inv' c conn(4) a this conn(5), of tev] run conn(1,2)
    have "same_counts ?w w'" by auto
    with att' show ?thesis by (rule attempts_inv_same)
  next
    case exit
    with exit_c_run [OF inv', of wt tev] run have "same_counts ?w w'" by (auto simp: invoke_c_def)
    with att' show ?thesis by (rule attempts_inv_same)
  next
    case silent
    from att obtain l0 where l0: "\<And>l. active (hist w) l (Member Global Wev_exit) \<longleftrightarrow> l = l0"
      "\<And>l. active (hist w) l (Member Global Wev_silent) \<longleftrightarrow> l = l0 \<and> number_of_clients w \<le> MAX_CLIENTS"
      and n: "0 \<le> number_of_clients w" "int (callocs (hist w)) = min (number_of_clients w) MAX_CLIENTS"
      by (auto simp: attempts_inv_def)
    have l: "l = l0" and le: "number_of_clients w \<le> MAX_CLIENTS" using l0(2) act silent by simp_all
    then have "number_of_clients ?w + 1 < 2 ^ 31" by (simp add: MAX_CLIENTS_def)
    from silent_c_run [OF ok inv' this, of tev] silent run
    have n': "number_of_clients w' = number_of_clients w + 1"
      and w': "if MAX_CLIENTS \<le> number_of_clients w then
         hist w' = Ev_timer_stop l (Member Global Wev_silent) # hist w
       else callocs (hist w') = Suc (callocs (hist w)) \<and> same_glob ?w w'"
      by (auto simp: invoke_c_def split: if_splits)
    show ?thesis
    proof (cases "MAX_CLIENTS \<le> number_of_clients w")
      case True
      with le have "number_of_clients w = MAX_CLIENTS" by simp
      with True w' n' n l0 l show ?thesis by (auto simp: attempts_inv_def MAX_CLIENTS_def)
    next
      case False
      with w' n' n l0 show ?thesis by (auto simp: attempts_inv_def same_glob_def MAX_CLIENTS_def)
    qed
  next
    case (stack n)
    with run show ?thesis by (simp add: invoke_c_def)
  qed
qed

lemma reach_c_attempts:
  assumes "reach_c E w" and ok: "env_ok E"
  shows "attempts_inv w"
  using assms(1)
proof (induction rule: ev_reach.induct)
  case (reach_start w)
  then obtain argv v where "fresh_world v" "main_c E argv v = Some (Running w)" by (auto simp: start_c_def)
  from main_c_world [OF this] show ?case
    by (auto simp: attempts_inv_def MAX_CLIENTS_def)
next
  case (reach_step w w')
  from attempts_inv_step [OF ok c.reach_ginv [OF reach_step.hyps(1) ok] reach_step.IH reach_step.hyps(2)]
  show ?case .
next
  case (reach_spawn w w')
  then show ?case by (simp add: no_spawn_def)
qed

lemma invoke_c_defined:
  assumes ok: "env_ok E" "recv_returns E" and r: "reach_c E w"
    and act: "active (hist w) l wt" and reg: "registered (hist w) wt = Some cb"
  shows "\<exists>w'. invoke_c E cb l wt tev (w\<lparr>loop := l\<rparr>) = Some w'"
proof -
  let ?w = "w\<lparr>loop := l\<rparr>"
  from c.reach_inv [OF r ok(1)] have inv: "ginv c_fd lfd_c global_members client_ok w" and ns: "no_servers w"
    by simp_all
  then have inv': "ginv c_fd lfd_c global_members client_ok ?w" by simp
  show ?thesis
    using inv act reg
  proof (cases rule: client_watcher_cases)
    case (conn p m c fd)
    have c: "heap ?w p = Some c" and a: "active (hist ?w) (loop ?w) (Member (Heap p) m)"
      using conn act by simp_all
    have "\<exists>r. aux_unix_recv E fd 4096 ?w = Some r"
      using aux_unix_recv_returns [OF ok, of 4096 fd ?w] by auto
    from conn_c_run [OF ok(1) inv' c conn(4) a this conn(5), of tev] conn(1,2) show ?thesis by auto
  next
    case exit
    with exit_c_run [OF inv', of wt tev] show ?thesis by (auto simp: invoke_c_def)
  next
    case silent
    have "number_of_clients ?w + 1 < 2 ^ 31"
      using reach_c_attempts [OF r ok(1)] by (simp add: attempts_inv_def MAX_CLIENTS_def)
    from silent_c_run [OF ok(1) inv' this, of tev] silent show ?thesis by (auto simp: invoke_c_def)
  next
    case (stack n)
    with ns show ?thesis by (simp add: no_servers_def)
  qed
qed

section \<open>What is left of failed attempts\<close>

text \<open>No callback frees or changes a block that a failed attempt left behind.\<close>

lemma step_leaked:
  assumes ok: "env_ok E" and r: "reach_c E w" and p: "heap w p = Some zero_client"
    and step: "ev_step (invoke_c E) w w'"
  shows "heap w' p = Some zero_client"
proof -
  have inv: "ginv c_fd lfd_c global_members client_ok w" using c.reach_ginv [OF r ok] .
  from step obtain l wt cb tev where act: "active (hist w) l wt" and reg: "registered (hist w) wt = Some cb"
    and run: "invoke_c E cb l wt tev (w\<lparr>loop := l\<rparr>) = Some w'"
    by (auto elim: ev_stepE)
  let ?w = "w\<lparr>loop := l\<rparr>"
  have inv': "ginv c_fd lfd_c global_members client_ok ?w" using inv by simp
  show ?thesis
    using inv act reg
  proof (cases rule: client_watcher_cases)
    case (conn q m d fd)
    have d: "heap ?w q = Some d" and a: "active (hist ?w) (loop ?w) (Member (Heap q) m)"
      using conn act by simp_all
    have "\<exists>r. aux_unix_recv E fd 4096 ?w = Some r" if "m = Wev_recv"
      using wcb_recv_result [OF _ d conn(4)] run conn(1,2) that by (simp add: invoke_c_def)
    from conn_c_run [OF ok inv' d conn(4) a this conn(5), of tev] run conn(1,2)
    have "\<forall>r. r \<noteq> q \<longrightarrow> heap w' r = heap w r" by auto
    moreover have "p \<noteq> q" using p conn(3,4) by auto
    ultimately show ?thesis using p by simp
  next
    case exit
    with exit_c_run [OF inv', of wt tev] run p show ?thesis by (auto simp: invoke_c_def)
  next
    case silent
    with run have "number_of_clients ?w + 1 < 2 ^ 31"
      by (auto simp: invoke_c_def wcb_silent_def Let_def split: if_splits)
    from silent_c_run [OF ok inv' this, of tev] silent run p show ?thesis
      by (auto simp: invoke_c_def attempt_failed_def attempt_started_def split: if_splits)
  next
    case (stack n)
    with run show ?thesis by (simp add: invoke_c_def)
  qed
qed

lemma reach_leaked:
  assumes "(ev_step (invoke_c E))\<^sup>*\<^sup>* w w'" and ok: "env_ok E" and "reach_c E w" and "heap w p = Some zero_client"
  shows "reach_c E w' \<and> heap w' p = Some zero_client \<and> allocated (hist w') p \<and>
    (\<forall>l m. \<not> active (hist w') l (Member (Heap p) m))"
proof -
  have "reach_c E w' \<and> heap w' p = Some zero_client"
    using assms(1)
  proof (induction rule: rtranclp_induct)
    case base
    then show ?case using assms(3,4) by blast
  next
    case (step w1 w2)
    then show ?case using step_leaked [OF ok] by (blast intro: ev_reach.reach_step)
  qed
  then have r: "reach_c E w'" and hp: "heap w' p = Some zero_client" by blast+
  note inv = c.reach_ginv [OF r ok]
  have "\<not> active (hist w') l (Member (Heap p) m)" for l m
  proof
    assume "active (hist w') l (Member (Heap p) m)"
    from client_active [OF inv this] hp show False by (metis c_fd_zero option.distinct(1) option.inject)
  qed
  with r hp show ?thesis using ginv_allocated [OF inv hp] by blast
qed

section \<open>The global watchers keep their callbacks\<close>

lemma c_global_registered:
  assumes "reach_c E w" and ok: "env_ok E"
  shows "registered (hist w) (Member Global Wev_exit) = Some Wcb_exit \<and>
    registered (hist w) (Member Global Wev_silent) = Some Wcb_silent"
  using assms(1)
proof (induction rule: ev_reach.induct)
  case (reach_start w)
  then obtain argv v where "fresh_world v" "main_c E argv v = Some (Running w)" by (auto simp: start_c_def)
  from main_c_world [OF this] show ?case by simp
next
  case (reach_step w w')
  have inv: "ginv c_fd lfd_c global_members client_ok w" using c.reach_ginv [OF reach_step.hyps(1) ok] .
  from step_globals [OF ok inv reach_step.hyps(2)] reach_step.IH show ?case by simp
next
  case (reach_spawn w w')
  then show ?case by (simp add: no_spawn_def)
qed

section \<open>The end of a stream\<close>

lemma eof_step_c:
  assumes ok: "env_ok E" and r: "reach_c E w" and c: "heap w p = Some c" and fd: "c_fd c = Some fd"
    and act: "active (hist w) l (Member (Heap p) Wev_recv)" and eof: "\<forall>h n. e_recv E h fd n = Inr []"
  shows "\<exists>w'. invoke_c E Wcb_recv l (Member (Heap p) Wev_recv) tev (w\<lparr>loop := l\<rparr>) = Some w' \<and> reach_c E w' \<and>
    times_count w' = times_count w + 1 \<and> heap w' = heap w \<and> active (hist w') = active (hist w) \<and>
    recvd (hist w') fd = recvd (hist w) fd"
proof -
  let ?w = "w\<lparr>loop := l\<rparr>"
  have inv: "ginv c_fd lfd_c global_members client_ok ?w" and c': "heap ?w p = Some c"
    and act': "active (hist ?w) (loop ?w) (Member (Heap p) Wev_recv)"
    using c.reach_ginv [OF r ok] c act by simp_all
  have "e_recv E (hist ?w) fd 4096 = Inr []" using eof by blast
  from recv_data [OF this] have "aux_unix_recv E fd 4096 ?w =
      Some (0, [], ?w\<lparr>hist := Recv fd 4096 (Inr []) # hist ?w\<rparr>)" by simp
  from recv_c_run [OF ok inv c' fd act' this, of tev] obtain w'
    where w': "invoke_c E Wcb_recv l (Member (Heap p) Wev_recv) tev ?w = Some w'"
      "times_count w' = times_count w + 1" "heap w' = heap w" "active (hist w') = active (hist w)"
      "recvd (hist w') fd = recvd (hist w) fd"
    by (auto simp: invoke_c_def measured_def)
  have "client_watched (hist w) p l" using client_active_fd(2) [OF inv c' fd, of l Wev_recv] act by simp
  then have "registered (hist w) (Member (Heap p) Wev_recv) = Some Wcb_recv"
    by (simp add: client_watched_def)
  with act w'(1) have "reach_c E w'" by (blast intro: reach_step [OF r] dispatch)
  with w' show ?thesis by blast
qed

end
