(* ===== verification/ClientProps.thy ===== *)
theory ClientProps
  imports ClientLoop Demo
begin

text \<open>
  What holds of the load generator. First a run on the environment of \<open>Demo\<close>: \<open>main\<close>, one
  attempt to connect, its success. Its states are the inputs of the witnesses.
\<close>

section \<open>Runs on a concrete environment\<close>

definition demo_world_c :: client_world where
  "demo_world_c = \<lparr>hist = [], errno = Errno 0, heap = \<lambda>_. None, servers = \<lambda>_. None, loop = 0,
     g_addr = \<lparr>sin_family = AF_INET, sin_addr = [0, 0, 0, 0], sin_port = [0, 0]\<rparr>,
     number_of_clients = 0, g_wev_exit = zero_timer, g_wev_silent = zero_timer,
     times_sum = 0, times_count = 0, times_max = 0, times_min = 0\<rparr>"

definition demo_start_c :: client_world where
  "demo_start_c = demo_world_c\<lparr>hist := [Ev_run 0, Ev_timer_again 0 (Member Global Wev_silent) SILENT_TIMEOUT,
      Ev_timer_init (Member Global Wev_silent) Wcb_silent 0 SILENT_TIMEOUT,
      Ev_timer_again 0 (Member Global Wev_exit) EXECUTION_TIME,
      Ev_timer_init (Member Global Wev_exit) Wcb_exit 0 EXECUTION_TIME, Ev_new_loop 0],
    g_addr := \<lparr>sin_family = AF_INET, sin_addr = inet_addr ''127.0.0.1'', sin_port = htons 7\<rparr>,
    g_wev_exit := \<lparr>tm_cb = Wcb_exit, tm_after = 0, tm_repeat = EXECUTION_TIME\<rparr>,
    g_wev_silent := \<lparr>tm_cb = Wcb_silent, tm_after = 0, tm_repeat = SILENT_TIMEOUT\<rparr>,
    times_min := round_ratio False 100 1\<rparr>"

definition demo_client_c :: client where
  "demo_client_c = \<lparr>c_wev_recv = \<lparr>io_cb = Wcb_recv, io_fd = 3, io_events = {EV_READ}\<rparr>,
     c_wev_send = \<lparr>io_cb = Wcb_send, io_fd = 3, io_events = {EV_WRITE}\<rparr>,
     c_wev_connect = \<lparr>io_cb = Wcb_connect, io_fd = 3, io_events = {EV_READ, EV_WRITE}\<rparr>,
     c_wev_timeout = \<lparr>tm_cb = Wcb_timeout, tm_after = 0, tm_repeat = RESEND_INTERVAL\<rparr>,
     c_ts = 0, c_to_send = 0\<rparr>"

definition demo_added_c :: client_world where
  "demo_added_c = demo_start_c\<lparr>number_of_clients := 1, errno := EINPROGRESS,
     hist := Ev_io_start 0 (Member (Heap 1) Wev_connect) #
       Ev_timer_again 0 (Member (Heap 1) Wev_timeout) RESEND_INTERVAL #
       Ev_timer_init (Member (Heap 1) Wev_timeout) Wcb_timeout 0 RESEND_INTERVAL #
       Ev_io_init (Member (Heap 1) Wev_connect) Wcb_connect 3 {EV_READ, EV_WRITE} #
       Ev_io_init (Member (Heap 1) Wev_send) Wcb_send 3 {EV_WRITE} #
       Ev_io_init (Member (Heap 1) Wev_recv) Wcb_recv 3 {EV_READ} #
       Connect 3 (g_addr demo_start_c) (Inl EINPROGRESS) # Ioctl 3 FIONBIO 1 (Inr 0) #
       Socket AF_INET SOCK_STREAM 0 (Inr 3) # Calloc (Some 1) # hist demo_start_c,
     heap := (\<lambda>_. None)(1 := Some demo_client_c)\<rparr>"

definition demo_conn_c :: client_world where
  "demo_conn_c = demo_added_c\<lparr>heap := (\<lambda>_. None)(1 := Some (demo_client_c\<lparr>c_to_send := 1\<rparr>)),
     hist := Ev_io_start 0 (Member (Heap 1) Wev_recv) # Ev_io_start 0 (Member (Heap 1) Wev_send) #
       Ev_io_stop 0 (Member (Heap 1) Wev_connect) # hist demo_added_c\<rparr>"

lemma demo_reach_start_c:
  assumes "E = demo_env z rcv snt \<or> E = (demo_env z rcv snt)\<lparr>e_socket := \<lambda>h. Inl (Errno 24)\<rparr>"
  shows "reach_c E demo_start_c"
proof -
  have "fresh_world demo_world_c" by (simp add: fresh_world_def demo_world_c_def)
  moreover have "atoi ''7'' = Some 7" by (simp add: atoi_def is_space_def digit_val_def)
  then have "main_c E [''client'', ''127.0.0.1'', ''7''] demo_world_c = Some (Running demo_start_c)"
    using assms by (auto simp: main_c_def Let_def call_defs demo_env_def demo_start_c_def demo_world_c_def)
  ultimately show ?thesis unfolding start_c_def by (intro reach_start) blast
qed

lemma demo_start_c_simps [simp]:
  "loop demo_start_c = 0" "number_of_clients demo_start_c = 0" "servers demo_start_c = (\<lambda>_. None)"
  "active (hist demo_start_c) 0 (Member Global Wev_silent)"
  "registered (hist demo_start_c) (Member Global Wev_silent) = Some Wcb_silent"
  "\<not> open_fd (hist demo_start_c) fd" "\<not> allocated (hist demo_start_c) p" "heap demo_start_c = (\<lambda>_. None)"
  by (simp_all add: demo_start_c_def demo_world_c_def)

lemma demo_reach_added_c: "reach_c (demo_env z rcv snt) demo_added_c"
proof -
  have "invoke_c (demo_env z rcv snt) Wcb_silent 0 (Member Global Wev_silent) {EV_TIMER}
      (demo_start_c\<lparr>loop := 0\<rparr>) = Some demo_added_c"
    by (simp add: invoke_c_def wcb_silent_def MAX_CLIENTS_def client_add_def aux_set_nonblk_def call_defs
        demo_env_def Let_def zero_client_def demo_added_c_def demo_client_c_def)
  then have "ev_step (invoke_c (demo_env z rcv snt)) demo_start_c demo_added_c"
    by (intro dispatch [of _ 0 "Member Global Wev_silent" Wcb_silent]) simp_all
  then show ?thesis by (rule reach_step [OF demo_reach_start_c [OF disjI1 [OF refl]]])
qed

lemma demo_reach_conn_c: "reach_c (demo_env z rcv snt) demo_conn_c"
proof -
  have "invoke_c (demo_env z rcv snt) Wcb_connect 0 (Member (Heap 1) Wev_connect) {EV_WRITE}
      (demo_added_c\<lparr>loop := 0\<rparr>) = Some demo_conn_c"
    by (simp add: invoke_c_def wcb_connect_def call_defs demo_conn_c_def Let_def)
       (simp add: demo_added_c_def demo_start_c_def demo_world_c_def)
  then have "ev_step (invoke_c (demo_env z rcv snt)) demo_added_c demo_conn_c"
    by (intro dispatch [of _ 0 "Member (Heap 1) Wev_connect" Wcb_connect]) (simp_all add: demo_added_c_def)
  then show ?thesis by (rule reach_step [OF demo_reach_added_c])
qed

lemma demo_conn_c_simps [simp]:
  "heap demo_conn_c 1 = Some (demo_client_c\<lparr>c_to_send := 1\<rparr>)"
  "active (hist demo_conn_c) 0 (Member (Heap 1) Wev_recv)"
  "active (hist demo_conn_c) 0 (Member (Heap 1) Wev_send)"
  "active (hist demo_added_c) 0 (Member (Heap 1) Wev_connect)"
  "c_fd (demo_client_c\<lparr>c_to_send := n\<rparr>) = Some 3" "c_fd demo_client_c = Some 3"
  "heap demo_added_c 1 = Some demo_client_c"
  "registered (hist demo_conn_c) (Member (Heap 1) Wev_send) = Some Wcb_send"
  by (simp_all add: demo_conn_c_def demo_added_c_def demo_client_c_def c_fd_def)

section \<open>All callbacks\<close>

text \<open>C24: as long as no call of \<open>recv\<close> is interrupted for ever, every callback libev can make
  in a state the load generator reaches is defined and returns; in particular the counter of
  attempts does not overflow and a structure that \<open>client_send\<close> freed is not used again.\<close>

theorem callbacks_defined_c:
  assumes "env_ok E" and "recv_returns E" and "reach_c E w"
    and "active (hist w) l wt" and "registered (hist w) wt = Some cb"
  shows "\<exists>w'. invoke_c E cb l wt tev (w\<lparr>loop := l\<rparr>) = Some w'"
  by (rule invoke_c_defined [OF assms])

theorem callbacks_defined_c_witness:
  "\<exists>w'. invoke_c (demo_env zero_client (deliver [104]) would_block) Wcb_send 0 (Member (Heap 1) Wev_send)
     {EV_WRITE} (demo_conn_c\<lparr>loop := 0\<rparr>) = Some w'"
  by (rule callbacks_defined_c [OF demo_deliver_ok(2,3) demo_reach_conn_c demo_conn_c_simps(3,8)])

text \<open>C25: the load generator makes at most 10000 attempts to connect: one structure is
  allocated for each of the first 10000 runs of the 1 ms timer, the counter stops at 10001,
  the timer is active exactly until then, in the loop in which the timer that ends the
  program is active all the time.\<close>

theorem attempts_bounded_c:
  assumes "env_ok E" and "reach_c E w"
  shows "callocs (hist w) \<le> 10000 \<and> 0 \<le> number_of_clients w \<and> number_of_clients w \<le> 10001 \<and>
    int (callocs (hist w)) = min (number_of_clients w) 10000 \<and>
    (\<exists>l0. (\<forall>l. active (hist w) l (Member Global Wev_exit) \<longleftrightarrow> l = l0) \<and>
      (\<forall>l. active (hist w) l (Member Global Wev_silent) \<longleftrightarrow> l = l0 \<and> number_of_clients w \<le> 10000))"
proof -
  from reach_c_attempts [OF assms(2,1)]
  have "int (callocs (hist w)) = min (number_of_clients w) 10000 \<and> 0 \<le> number_of_clients w \<and>
    number_of_clients w \<le> 10001 \<and> (\<exists>l0. (\<forall>l. active (hist w) l (Member Global Wev_exit) \<longleftrightarrow> l = l0) \<and>
      (\<forall>l. active (hist w) l (Member Global Wev_silent) \<longleftrightarrow> l = l0 \<and> number_of_clients w \<le> 10000))"
    by (simp add: attempts_inv_def MAX_CLIENTS_def)
  moreover from this have "callocs (hist w) \<le> 10000" by linarith
  ultimately show ?thesis by blast
qed

theorem attempts_bounded_c_witness:
  "reach_c (demo_env zero_client (deliver [104]) would_block) demo_conn_c \<and>
   int (callocs (hist demo_conn_c)) = min (number_of_clients demo_conn_c) 10000"
  using attempts_bounded_c [OF demo_deliver_ok(2) demo_reach_conn_c] demo_reach_conn_c by blast

section \<open>Sending and receiving\<close>

text \<open>C26: the send callback returns after at most as many requests as were due: either it
  handed the kernel exactly that many, nothing is due any more and its watcher is stopped,
  or a request failed, after which the connection is closed and nothing more is sent.\<close>

theorem wcb_send_returns_c:
  assumes "env_ok E" and "reach_c E w" and "heap w p = Some c" and "c_fd c = Some fd"
    and "active (hist w) l (Member (Heap p) Wev_send)"
  shows "\<exists>w'. invoke_c E Wcb_send l (Member (Heap p) Wev_send) tev (w\<lparr>loop := l\<rparr>) = Some w' \<and>
    ((\<exists>c'. heap w' = (heap w)(p := Some c') \<and> c_to_send c' = 0 \<and>
        requests (hist w') fd = requests (hist w) fd + unat (c_to_send c) \<and>
        (\<forall>l' wt. active (hist w') l' wt \<longleftrightarrow>
           \<not> (l' = l \<and> wt = Member (Heap p) Wev_send) \<and> active (hist w) l' wt)) \<or>
     (\<exists>k. heap w' = (heap w)(p := None) \<and> \<not> open_fd (hist w') fd \<and> 0 < k \<and> k \<le> unat (c_to_send c) \<and>
        requests (hist w') fd = requests (hist w) fd + k))"
proof -
  let ?w = "w\<lparr>loop := l\<rparr>"
  have "ginv c_fd lfd_c global_members client_ok ?w" "heap ?w p = Some c"
    "active (hist ?w) (loop ?w) (Member (Heap p) Wev_send)"
    using c.reach_ginv [OF assms(2,1)] assms(3,5) by simp_all
  from send_c_run [OF assms(1) this(1,2) assms(4) this(3), of tev] show ?thesis
    by (simp add: invoke_c_def) blast
qed

theorem wcb_send_returns_c_witness:
  "\<exists>w'. invoke_c (demo_env zero_client (deliver [104]) (accept_at_most 3)) Wcb_send 0 (Member (Heap 1) Wev_send)
     {EV_WRITE} (demo_conn_c\<lparr>loop := 0\<rparr>) = Some w' \<and> requests (hist w') 3 = requests (hist demo_conn_c) 3 + 1"
proof -
  have u: "unat (c_to_send (demo_client_c\<lparr>c_to_send := 1\<rparr>)) = 1" by simp
  have "k = 1" if "0 < k" "k \<le> (1::nat)" for k using that by simp
  with wcb_send_returns_c [OF demo_deliver_ok(1) demo_reach_conn_c demo_conn_c_simps(1,5,3), unfolded u]
  show ?thesis by blast
qed

text \<open>C27: every run of the receive callback is counted as one answer: with \<open>t\<close> the seconds
  since the last request, the count grows by one, the sum by \<open>t\<close>, and the extremes take \<open>t\<close>
  in. This holds whether \<open>recv\<close> gave data, the end of the stream, \<open>EAGAIN\<close> or another
  error; only in the last case the connection is closed.\<close>

theorem recv_measured_c:
  assumes "env_ok E" and "reach_c E w" and "heap w p = Some c" and "c_fd c = Some fd"
    and "active (hist w) l (Member (Heap p) Wev_recv)"
    and "aux_unix_recv E fd 4096 (w\<lparr>loop := l\<rparr>) = Some (nb, data, w1)"
    and "t = e_ev_now E (hist w1) l - c_ts c"
  shows "\<exists>w'. invoke_c E Wcb_recv l (Member (Heap p) Wev_recv) tev (w\<lparr>loop := l\<rparr>) = Some w' \<and>
    times_count w' = times_count w + 1 \<and> times_sum w' = times_sum w + t \<and>
    times_max w' = (if times_max w < t then t else times_max w) \<and>
    times_min w' = (if t < times_min w then t else times_min w) \<and>
    recvd (hist w') fd = recvd (hist w) fd @ data \<and>
    (if nb < 0 \<and> errno w1 \<noteq> EAGAIN then heap w' = (heap w)(p := None) \<and> \<not> open_fd (hist w') fd
     else heap w' = heap w \<and> open_fd (hist w') fd \<and> active (hist w') = active (hist w))"
proof -
  let ?w = "w\<lparr>loop := l\<rparr>"
  have "ginv c_fd lfd_c global_members client_ok ?w" "heap ?w p = Some c"
    "active (hist ?w) (loop ?w) (Member (Heap p) Wev_recv)"
    using c.reach_ginv [OF assms(2,1)] assms(3,5) by simp_all
  from recv_c_run [OF assms(1) this(1,2) assms(4) this(3) assms(6), of tev] obtain w'
    where "wcb_recv E l (Member (Heap p) Wev_recv) tev ?w = Some w'" "measured t ?w w'"
      "recvd (hist w') fd = recvd (hist w) fd @ data"
      "if nb < 0 \<and> errno w1 \<noteq> EAGAIN then heap w' = (heap w)(p := None) \<and> \<not> open_fd (hist w') fd
       else heap w' = heap w \<and> open_fd (hist w') fd \<and> active (hist w') = active (hist w)"
    unfolding assms(7) by auto
  then show ?thesis by (intro exI [of _ w']) (simp add: invoke_c_def measured_def)
qed

theorem recv_measured_c_witness:
  "\<exists>w'. invoke_c (demo_env zero_client (deliver []) would_block) Wcb_recv 0 (Member (Heap 1) Wev_recv)
     {EV_READ} (demo_conn_c\<lparr>loop := 0\<rparr>) = Some w' \<and> times_count w' = times_count demo_conn_c + 1 \<and>
     recvd (hist w') 3 = recvd (hist demo_conn_c) 3"
proof -
  let ?E = "demo_env zero_client (deliver []) would_block"
  have "e_recv ?E (hist (demo_conn_c\<lparr>loop := 0\<rparr>)) 3 4096 = Inr []"
    by (simp add: demo_env_def deliver_def)
  from recv_data [OF this] obtain w1
    where "aux_unix_recv ?E 3 4096 (demo_conn_c\<lparr>loop := 0\<rparr>) = Some (0, [], w1)" by simp
  from recv_measured_c [OF demo_deliver_ok(2) demo_reach_conn_c demo_conn_c_simps(1,5,2) this refl, where tev = "{EV_READ}"]
  show ?thesis by auto
qed

text \<open>The load generator does not notice the end of a stream: once a server has closed a
  connection, the receive callback can be run any number of times; each run counts one more
  answer that never came, and the connection, its descriptor and its watcher stay.\<close>

lemma eof_counted_c:
  assumes "env_ok E" and "reach_c E w" and "heap w p = Some c" and "c_fd c = Some fd"
    and "active (hist w) l (Member (Heap p) Wev_recv)" and "\<forall>h n. e_recv E h fd n = Inr []"
  shows "\<exists>w'. ((\<lambda>x. Option.bind x (\<lambda>w. invoke_c E Wcb_recv l (Member (Heap p) Wev_recv) {EV_READ}
      (w\<lparr>loop := l\<rparr>))) ^^ k) (Some w) = Some w' \<and> times_count w' = times_count w + of_nat k \<and>
    reach_c E w' \<and> heap w' = heap w \<and> active (hist w') = active (hist w) \<and> recvd (hist w') fd = recvd (hist w) fd"
proof (induction k)
  case 0
  with assms show ?case by simp
next
  case (Suc k)
  then obtain w1 where w1: "((\<lambda>x. Option.bind x (\<lambda>w. invoke_c E Wcb_recv l (Member (Heap p) Wev_recv) {EV_READ}
      (w\<lparr>loop := l\<rparr>))) ^^ k) (Some w) = Some w1" "times_count w1 = times_count w + of_nat k" "reach_c E w1"
    "heap w1 = heap w" "active (hist w1) = active (hist w)" "recvd (hist w1) fd = recvd (hist w) fd" by blast
  from eof_step_c [OF assms(1) w1(3) _ assms(4) _ assms(6), of p l] w1 assms(3,5) obtain w2
    where "invoke_c E Wcb_recv l (Member (Heap p) Wev_recv) {EV_READ} (w1\<lparr>loop := l\<rparr>) = Some w2"
      "reach_c E w2" "times_count w2 = times_count w1 + 1" "heap w2 = heap w1" "active (hist w2) = active (hist w1)"
      "recvd (hist w2) fd = recvd (hist w1) fd" by auto
  with w1 show ?case by (intro exI [of _ w2]) (simp add: algebra_simps)
qed

section \<open>Connecting\<close>

text \<open>The connect callback. If it is told that the descriptor is readable the connection
  is closed. Otherwise one request is due, however many the timer had counted up to then; the
  watcher for connecting is stopped, those for sending and receiving run, as does the timer.\<close>

lemma connected_c:
  assumes "env_ok E" and "reach_c E w" and "heap w p = Some c" and "c_fd c = Some fd"
    and "active (hist w) l (Member (Heap p) Wev_connect)"
  shows "\<exists>w'. invoke_c E Wcb_connect l (Member (Heap p) Wev_connect) tev (w\<lparr>loop := l\<rparr>) = Some w' \<and>
    (if EV_READ \<in> tev then heap w' = (heap w)(p := None) \<and> \<not> open_fd (hist w') fd
     else heap w' = (heap w)(p := Some (c\<lparr>c_to_send := 1\<rparr>)) \<and> open_fd (hist w') fd \<and>
       (\<forall>l' m. active (hist w') l' (Member (Heap p) m) \<longleftrightarrow> l' = l \<and> m \<in> {Wev_recv, Wev_send, Wev_timeout}))"
proof -
  let ?w = "w\<lparr>loop := l\<rparr>"
  have "ginv c_fd lfd_c global_members client_ok ?w" "heap ?w p = Some c"
    "active (hist ?w) (loop ?w) (Member (Heap p) Wev_connect)"
    using c.reach_ginv [OF assms(2,1)] assms(3,5) by simp_all
  from connect_c_run [OF this(1,2) assms(4) this(3), of tev] show ?thesis
    by (auto simp: invoke_c_def)
qed

text \<open>An attempt for which there is no socket loses the memory it allocated: in every
  later state the block is still allocated, all zero, and watched by nothing.\<close>

lemma memory_lost_c:
  assumes "env_ok E" and "reach_c E w" and "active (hist w) l (Member Global Wev_silent)"
    and "number_of_clients w < 10000" and "e_calloc E (hist w) = Some p"
    and "e_socket E (Calloc (Some p) # hist w) = Inl e"
  shows "\<exists>w1. invoke_c E Wcb_silent l (Member Global Wev_silent) tev (w\<lparr>loop := l\<rparr>) = Some w1 \<and>
    (\<forall>w2. (ev_step (invoke_c E))\<^sup>*\<^sup>* w1 w2 \<longrightarrow> allocated (hist w2) p \<and> heap w2 p = Some zero_client \<and>
       (\<forall>l' m. \<not> active (hist w2) l' (Member (Heap p) m)))"
proof -
  have "number_of_clients w + 1 < 2 ^ 31" using assms(4) by simp
  with assms(4-6) obtain w1 where w1: "invoke_c E Wcb_silent l (Member Global Wev_silent) tev (w\<lparr>loop := l\<rparr>) = Some w1"
    and hp: "heap w1 p = Some zero_client"
    by (simp add: invoke_c_def wcb_silent_def MAX_CLIENTS_def client_add_def c_calloc_def c_socket_def status_def
        emit_def c_fprintf_def)
  have "registered (hist w) (Member Global Wev_silent) = Some Wcb_silent"
    using c_global_registered [OF assms(2,1)] by simp
  with assms(3) w1 have "ev_step (invoke_c E) w w1" by (intro dispatch)
  then have "reach_c E w1" by (rule reach_step [OF assms(2)])
  with w1 show ?thesis using reach_leaked [OF _ assms(1) _ hp] by blast
qed

end
