(* ===== verification/BufferQueue.thy ===== *)
theory BufferQueue
  imports HonestClient
begin

text \<open>
  The buffer of the two honest servers against a reference: a list of pending bytes and the
  offset of the first one, with natural numbers for the machine words and pointers. Any
  sequence of receiving and sending gives the same on both, also where it is undefined.
\<close>

section \<open>Sequences of operations\<close>

text \<open>
  \<open>Arrive bs\<close>: the callback makes room and \<open>recv\<close> gives as much of \<open>bs\<close> as it was asked for.
  \<open>Depart k\<close>: \<open>send\<close> takes \<open>k\<close> bytes, or all if there are not that many.
\<close>

datatype buf_op = Arrive "byte list" | Depart nat

definition buf_arrive :: "echo_client_h \<Rightarrow> byte list \<Rightarrow> echo_client_h option" where
  "buf_arrive c bs = do {
     (rem, c) \<leftarrow> buf_room c;
     buf_put c (take (nat rem) bs)
   }"

definition buf_depart :: "echo_client_h \<Rightarrow> nat \<Rightarrow> (byte list \<times> echo_client_h) option" where
  "buf_depart c k = do {
     data \<leftarrow> buf_data c;
     c \<leftarrow> buf_consume c (int (min k (length data)));
     Some (take k data, c)
   }"

fun buf_run :: "buf_op list \<Rightarrow> echo_client_h \<Rightarrow> (byte list \<times> echo_client_h) option" where
  "buf_run [] c = Some ([], c)"
| "buf_run (Arrive bs # ops) c = do {
     c \<leftarrow> buf_arrive c bs;
     buf_run ops c
   }"
| "buf_run (Depart k # ops) c = do {
     (out, c) \<leftarrow> buf_depart c k;
     (outs, c) \<leftarrow> buf_run ops c;
     Some (out @ outs, c)
   }"

section \<open>The reference\<close>

type_synonym ref_buf = "nat \<times> byte list"

fun ref_arrive :: "ref_buf \<Rightarrow> byte list \<Rightarrow> ref_buf option" where
  "ref_arrive (b, q) bs =
     (if 16384 < b + length q + 32
      then if 0 < b \<and> b < length q then None else Some (0, q @ take (16384 - length q) bs)
      else Some (b, q @ take (16384 - b - length q) bs))"

fun ref_depart :: "ref_buf \<Rightarrow> nat \<Rightarrow> byte list \<times> ref_buf" where
  "ref_depart (b, q) k = (take k q, (b + min k (length q), drop k q))"

fun ref_run :: "buf_op list \<Rightarrow> ref_buf \<Rightarrow> (byte list \<times> ref_buf) option" where
  "ref_run [] s = Some ([], s)"
| "ref_run (Arrive bs # ops) s = Option.bind (ref_arrive s bs) (ref_run ops)"
| "ref_run (Depart k # ops) s = (case ref_depart s k of (out, s) \<Rightarrow>
     map_option (\<lambda>(outs, s). (out @ outs, s)) (ref_run ops s))"

definition buf_abs :: "echo_client_h \<Rightarrow> ref_buf" where
  "buf_abs c = (to_send_beg c, pending c)"

section \<open>They agree\<close>

lemma arrive_agrees:
  assumes "buf_ok c"
  shows "map_option buf_abs (buf_arrive c bs) = ref_arrive (buf_abs c) bs"
    and "buf_arrive c bs = Some c' \<Longrightarrow> buf_ok c'"
proof -
  have len: "length (pending c) = unat (to_send_size c)" by simp
  have "map_option buf_abs (buf_arrive c bs) = ref_arrive (buf_abs c) bs \<and>
    (\<forall>c'. buf_arrive c bs = Some c' \<longrightarrow> buf_ok c')"
  proof (cases "buf_room c")
    case None
    then have "16384 < to_send_beg c + unat (to_send_size c) + 32" "buf_compact c = None"
      using assms by (auto simp: buf_room_def buf_rem_size_ok bind_none split: if_splits)
    with None assms show ?thesis by (simp add: buf_arrive_def buf_abs_def buf_compact_None)
  next
    case (Some r)
    then obtain n c1 where r: "buf_room c = Some (n, c1)" by (cases r) auto
    note ok = buf_room_ok [OF assms r]
    have "to_send_beg c1 = (if 16384 < to_send_beg c + unat (to_send_size c) + 32 then 0 else to_send_beg c) \<and>
      (16384 < to_send_beg c + unat (to_send_size c) + 32 \<longrightarrow>
        \<not> (0 < to_send_beg c \<and> to_send_beg c < unat (to_send_size c)))"
      using r assms buf_compact_None [OF assms] buf_compact_ok(4) [OF assms]
      by (auto simp: buf_room_def buf_rem_size_ok bind_some split: if_splits)
    moreover have n: "nat n = 16384 - to_send_beg c1 - unat (to_send_size c1)"
      using ok(4) by (simp add: TO_SEND_SIZE_eq)
    moreover have "to_send_beg c1 + unat (to_send_size c1) + length (take (nat n) bs) \<le> TO_SEND_SIZE"
      using ok(1,4) by (simp add: buf_ok_def)
    from buf_put_ok [OF ok(1) this] obtain c2 where c2: "buf_put c1 (take (nat n) bs) = Some c2"
      "buf_ok c2" "pending c2 = pending c1 @ take (nat n) bs"
      and eq: "c2 = c1\<lparr>to_send := to_send c2, to_send_size := to_send_size c1 +
        word_of_int (int (length (take (nat n) bs)))\<rparr>"
      by (elim exE conjE) (rule that)
    moreover have "to_send_beg c2 = to_send_beg c1" using arg_cong [OF eq, of to_send_beg] by simp
    ultimately show ?thesis
      using ok(2,3) r by (cases "16352 < to_send_beg c + unat (to_send_size c)") (simp_all add: buf_arrive_def buf_abs_def)
  qed
  then show "map_option buf_abs (buf_arrive c bs) = ref_arrive (buf_abs c) bs"
    and "buf_arrive c bs = Some c' \<Longrightarrow> buf_ok c'" by blast+
qed

lemma depart_agrees:
  assumes "buf_ok c"
  shows "\<exists>c'. buf_depart c k = Some (take k (pending c), c') \<and> buf_ok c' \<and>
    ref_depart (buf_abs c) k = (take k (pending c), buf_abs c')"
proof -
  have len: "length (pending c) = unat (to_send_size c)" by simp
  define j where "j = min k (unat (to_send_size c))"
  have "j \<le> unat (to_send_size c)" by (simp add: j_def)
  from buf_consume_ok [OF assms this] obtain c' where c': "buf_consume c (int j) = Some c'" "buf_ok c'"
    "pending c' = drop j (pending c)"
    and eq: "c' = c\<lparr>to_send_beg := to_send_beg c + j, to_send_size := to_send_size c - word_of_nat j\<rparr>"
    by (elim exE conjE) (rule that)
  moreover have "to_send_beg c' = to_send_beg c + j" using arg_cong [OF eq, of to_send_beg] by simp
  moreover have "drop j (pending c) = drop k (pending c)"
    by (cases "k \<le> unat (to_send_size c)") (simp_all add: j_def)
  ultimately show ?thesis
    using assms by (intro exI [of _ c']) (simp add: buf_depart_def buf_data_ok buf_abs_def j_def)
qed

lemma run_agrees:
  "buf_ok c \<Longrightarrow> map_option (map_prod id buf_abs) (buf_run ops c) = ref_run ops (buf_abs c)"
proof (induction ops c rule: buf_run.induct)
  case (1 c)
  then show ?case by simp
next
  case (2 bs ops c)
  show ?case
  proof (cases "buf_arrive c bs")
    case None
    with arrive_agrees(1) [OF "2.prems", of bs] show ?thesis by simp
  next
    case (Some c')
    then have "ref_arrive (buf_abs c) bs = Some (buf_abs c')"
      using arrive_agrees(1) [OF "2.prems", of bs] by simp
    with "2.IH" [OF Some arrive_agrees(2) [OF "2.prems" Some]] Some show ?thesis by simp
  qed
next
  case (3 k ops c)
  from depart_agrees [OF "3.prems"] obtain c' where c': "buf_depart c k = Some (take k (pending c), c')"
    "buf_ok c'" "ref_depart (buf_abs c) k = (take k (pending c), buf_abs c')" by blast
  from "3.IH" [OF c'(1) refl c'(2)] have IH: "ref_run ops (buf_abs c') = map_option (map_prod id buf_abs) (buf_run ops c')"
    by (rule sym)
  show ?case by (cases "buf_run ops c'") (auto simp: c' IH)
qed

text \<open>The reference itself is a queue: what comes out and what is left is what went in.\<close>

fun arrived :: "buf_op list \<Rightarrow> ref_buf \<Rightarrow> byte list" where
  "arrived [] s = []"
| "arrived (Arrive bs # ops) s = (case ref_arrive s bs of None \<Rightarrow> []
     | Some s' \<Rightarrow> drop (length (snd s)) (snd s') @ arrived ops s')"
| "arrived (Depart k # ops) s = arrived ops (snd (ref_depart s k))"

lemma ref_run_fifo:
  "ref_run ops s = Some (out, s') \<Longrightarrow> snd s @ arrived ops s = out @ snd s'"
proof (induction ops s arbitrary: out s' rule: ref_run.induct)
  case (1 s)
  then show ?case by simp
next
  case (2 bs ops s)
  then obtain s1 where s1: "ref_arrive s bs = Some s1" "ref_run ops s1 = Some (out, s')"
    by (auto simp: bind_some)
  have "snd s @ drop (length (snd s)) (snd s1) = snd s1"
    using s1(1) by (cases s) (auto split: if_splits)
  with "2.IH" [OF s1] s1(1) show ?case by simp (metis append_assoc)
next
  case (3 k ops s)
  obtain b q where s: "s = (b, q)" by (cases s)
  with "3.prems" obtain outs where o: "ref_run ops (b + min k (length q), drop k q) = Some (outs, s')"
    "out = take k q @ outs" by auto
  with "3.IH" [of "take k q" "(b + min k (length q), drop k q)" outs s'] s
  have "drop k q @ arrived ops (b + min k (length q), drop k q) = outs @ snd s'" by simp
  then have "q @ arrived ops (b + min k (length q), drop k q) = take k q @ outs @ snd s'"
    by (metis append_assoc append_take_drop_id)
  with s o(2) show ?case by simp
qed

section \<open>The property\<close>

text \<open>C39: from the empty buffer of a new connection, any sequence of receiving and sending gives
  the same as on a list of bytes with an offset: the same bytes come out, the same bytes are
  left, and the buffer is undefined exactly where the offset is positive but smaller than the
  number of bytes when room has to be made. The list is a queue: what went in is what came out
  followed by what is left.\<close>

theorem buffer_is_queue:
  "map_option (map_prod id buf_abs) (buf_run ops (c\<lparr>to_send_beg := 0, to_send_size := 0\<rparr>)) = ref_run ops (0, []) \<and>
   (case buf_run ops (c\<lparr>to_send_beg := 0, to_send_size := 0\<rparr>) of
      None \<Rightarrow> ref_run ops (0, []) = None
    | Some (out, c') \<Rightarrow> arrived ops (0, []) = out @ pending c')"
proof -
  let ?c = "c\<lparr>to_send_beg := 0, to_send_size := 0\<rparr>"
  have "buf_ok ?c" "buf_abs ?c = (0, [])" by (simp_all add: buf_ok_def buf_abs_def pending_def)
  with run_agrees [of ?c ops] have eq: "map_option (map_prod id buf_abs) (buf_run ops ?c) = ref_run ops (0, [])"
    by simp
  moreover have "arrived ops (0, []) = out @ pending c'" if "buf_run ops ?c = Some (out, c')" for out c'
    using ref_run_fifo [of ops "(0, [])" out "buf_abs c'"] eq that by (simp add: buf_abs_def)
  ultimately show ?thesis by (auto split: option.split)
qed

end
