(* ===== verification/Addresses.thy ===== *)
theory Addresses
  imports Libc
begin

text \<open>
  Printing addresses: the decimal numerals and the dotted notation that users write on the
  command line, and that \<open>atoi\<close>, \<open>htons\<close> and \<open>inet_addr\<close> read back exactly.
\<close>

section \<open>Decimal numerals\<close>

definition digit :: "nat \<Rightarrow> char" where
  "digit d = char_of (48 + d)"

fun decimal :: "nat \<Rightarrow> string" where
  "decimal n = (if n < 10 then [digit n] else decimal (n div 10) @ [digit (n mod 10)])"

declare decimal.simps [simp del]

lemma of_char_digit [simp]: "d < 10 \<Longrightarrow> (of_char (digit d) :: nat) = 48 + d"
  by (simp add: digit_def)

lemma digit_val_digit [simp]: "d < b \<Longrightarrow> d < 10 \<Longrightarrow> digit_val b (digit d) = Some d"
  by (simp add: digit_val_def)

lemma is_digit_digit [simp]: "d < 10 \<Longrightarrow> is_digit (digit d)"
  by (simp add: is_digit_def)

lemma char_nat_eq: "c = d \<longleftrightarrow> (of_char c :: nat) = of_char d"
  by simp

lemma hd_decimal: "\<exists>d<10. hd (decimal n) = digit d \<and> (d = 0 \<longrightarrow> n = 0)"
proof (induction n rule: decimal.induct)
  case (1 n)
  show ?case
  proof (cases "n < 10")
    case True
    then show ?thesis by (intro exI [of _ n]) (simp add: decimal.simps [of n])
  next
    case False
    with 1 obtain d where "d < 10" "hd (decimal (n div 10)) = digit d" "d = 0 \<longrightarrow> n div 10 = 0" by blast
    moreover have "decimal (n div 10) \<noteq> []" by (subst decimal.simps) simp
    moreover from False have "n div 10 \<noteq> 0" by simp
    ultimately show ?thesis using False by (subst decimal.simps) (auto simp: hd_append)
  qed
qed

lemma decimal_not_Nil [simp]: "decimal n \<noteq> []"
  by (subst decimal.simps) simp

lemma is_digit_hd_decimal [simp]: "is_digit (hd (decimal n @ r))"
  using hd_decimal [of n] by auto

lemma read_decimal:
  "read_digits 10 a (decimal n @ r) = read_digits 10 (a * 10 ^ length (decimal n) + n) r"
proof (induction n arbitrary: r rule: decimal.induct)
  case (1 n)
  show ?case
  proof (cases "n < 10")
    case True
    then show ?thesis by (simp add: decimal.simps [of n] mult.commute)
  next
    case False
    have "read_digits 10 a (decimal n @ r) = read_digits 10 a (decimal (n div 10) @ digit (n mod 10) # r)"
      using False by (simp add: decimal.simps [of n])
    also have "\<dots> = read_digits 10 (10 * (a * 10 ^ length (decimal (n div 10)) + n div 10) + n mod 10) r"
      using 1 [OF False, of "digit (n mod 10) # r"] by simp
    also have "10 * (a * 10 ^ length (decimal (n div 10)) + n div 10) + n mod 10 =
        a * 10 ^ length (decimal n) + n"
      using False by (simp add: decimal.simps [of n])
    finally show ?thesis .
  qed
qed

text \<open>\<open>atoi\<close> and \<open>htons\<close> read a port back.\<close>

lemma atoi_decimal: "n < 2 ^ 31 \<Longrightarrow> atoi (decimal n) = Some (int n)"
proof -
  assume n: "n < 2 ^ 31"
  obtain d cs where d: "decimal n = digit d # cs" "d < 10"
    using hd_decimal [of n] decimal_not_Nil [of n] by (metis list.exhaust_sel)
  have "\<not> is_space (digit d)" "digit d \<noteq> CHR ''-''" "digit d \<noteq> CHR ''+''"
    using d(2) by (simp_all add: is_space_def char_nat_eq)
  moreover have "fst (read_digits 10 0 (decimal n)) = n"
    using read_decimal [of 0 n "[]"] by simp
  ultimately show ?thesis using n d(1) by (simp add: atoi_def)
qed

lemma htons_bytes:
  assumes "n < 2 ^ 16"
  shows "htons (int n) = [word_of_nat (n div 256), word_of_nat (n mod 256)]"
proof -
  have u: "unat (word_of_nat n :: 16 word) = n"
    using assms by (simp add: unat_of_nat take_bit_nat_eq_self)
  have d: "unat (drop_bit 8 (word_of_nat n :: 16 word)) = n div 256"
    by (simp add: unat_drop_bit_eq u) (simp add: drop_bit_eq_div)
  have "ucast (drop_bit 8 (word_of_nat n :: 16 word)) = (word_of_nat (n div 256) :: byte)"
    by (rule word_unat_eq_iff [THEN iffD2])
       (simp add: d unsigned_ucast_eq unat_of_nat take_bit_eq_mod)
  moreover have "ucast (word_of_nat n :: 16 word) = (word_of_nat (n mod 256) :: byte)"
    by (rule word_unat_eq_iff [THEN iffD2])
       (use assms in \<open>simp add: u unsigned_ucast_eq unat_of_nat take_bit_eq_mod\<close>)
  ultimately show ?thesis using assms by (simp add: htons_def Let_def)
qed

section \<open>Dotted quads\<close>

definition dotted_quad :: "byte \<Rightarrow> byte \<Rightarrow> byte \<Rightarrow> byte \<Rightarrow> string" where
  "dotted_quad a b c d = decimal (unat a) @ ''.'' @ decimal (unat b) @ ''.'' @ decimal (unat c) @ ''.'' @
     decimal (unat d)"

lemma read_number_not_0:
  assumes "s \<noteq> []" and "hd s \<noteq> CHR ''0''"
  shows "read_number s = read_digits 10 0 s"
  using assms by (cases s rule: read_number.cases) auto

lemma read_number_decimal:
  assumes "r = [] \<or> hd r = CHR ''.''"
  shows "read_number (decimal n @ r) = (n, r)"
proof (cases "n = 0")
  case True
  have "decimal 0 = ''0''" by (simp add: decimal.simps char_nat_eq)
  with True assms show ?thesis
    by (cases r rule: read_number.cases) (auto simp: digit_val_def)
next
  case False
  obtain d where d: "d < 10" "hd (decimal n) = digit d" "d = 0 \<longrightarrow> n = 0"
    using hd_decimal by blast
  with False have "hd (decimal n @ r) \<noteq> CHR ''0''" by (simp add: char_nat_eq)
  then have "read_number (decimal n @ r) = read_digits 10 n r"
    using read_decimal [of 0 n r] by (simp add: read_number_not_0)
  with assms show ?thesis by (cases r) (auto simp: digit_val_def)
qed

lemma unat_lt_256: "unat (b :: byte) < 256"
  using unsigned_less [of b, where ?'a = nat] by simp

lemma byte_of_unat: "word_of_nat (unat (b :: byte)) = b"
  by (rule word_unat_eq_iff [THEN iffD2]) (simp add: unat_of_nat take_bit_nat_eq_self unat_lt_256)

lemma inet_parts_dot:
  "inet_parts (Suc (Suc k)) (decimal (unat (b :: byte)) @ CHR ''.'' # r) = map_option ((#) b) (inet_parts (Suc k) r)"
  using unat_lt_256 [of b] is_digit_hd_decimal [of _ "[]"]
  by (subst inet_parts.simps) (simp add: read_number_decimal byte_of_unat del: inet_parts.simps)

lemma inet_parts_last: "inet_parts 1 (decimal (unat (b :: byte))) = Some [b]"
  using unat_lt_256 [of b] read_number_decimal [of "[]"] is_digit_hd_decimal [of _ "[]"]
  by (simp add: byte_of_unat)

lemma inet_addr_dotted_quad: "inet_addr (dotted_quad a b c d) = [a, b, c, d]"
proof -
  have "inet_parts 4 (dotted_quad a b c d) = Some [a, b, c, d]"
    using inet_parts_dot [of 2 a] inet_parts_dot [of 1 b] inet_parts_dot [of 0 c] inet_parts_last [of d]
    by (simp add: dotted_quad_def eval_nat_numeral del: inet_parts.simps)
  then show ?thesis by (simp add: inet_addr_def)
qed

end
