(* ===== verification/ServerHonestSafe.thy ===== *)
theory ServerHonestSafe
  imports ServerHonestProps Addresses BufferQueue
begin

text \<open>
  More of \<^verbatim>\<open>server-honest\<close>: the types of the objects the callbacks are given, the
  bounds that keep \<open>recv\<close> inside the buffer, and the address on the command line.
\<close>

section \<open>Types and bounds\<close>

text \<open>C38: the untyped pointers are used at the right types. Every active watcher with a callback
  is the member of the structure that its callback takes it for, and the structure is there:
  \<open>wev_accept\<close> of the server in the frame of \<open>main\<close>, or \<open>wev_recv\<close>, \<open>wev_send\<close> or
  \<open>wev_timeout\<close> of an allocated connection; so \<open>aux_memberof\<close> in the callback finds it.\<close>

theorem callback_types_sh:
  assumes "env_ok E" and "reach_sh E w" and "active (hist w) l wt" and "registered (hist w) wt = Some cb"
  shows "(\<exists>n s. aux_memberof Wev_accept wt = Some (Stack n) \<and> cb = Wcb_accept \<and> servers w n = Some s) \<or>
    (\<exists>p c m. aux_memberof m wt = Some (Heap p) \<and> heap w p = Some c \<and> allocated (hist w) p \<and>
       (m, cb) \<in> {(Wev_recv, Wcb_recv), (Wev_send, Wcb_send), (Wev_timeout, Wcb_timeout)})"
proof -
  note inv = sh.reach_ginv [OF assms(2,1)]
  from inv assms(3,4) show ?thesis
    by (cases rule: honest_watcher_cases) (use ginv_allocated [OF inv] in \<open>auto simp: aux_memberof_def\<close>)
qed

theorem callback_types_sh_witness:
  "heap demo_conn_sh 1 \<noteq> None \<and> allocated (hist demo_conn_sh) 1"
  using callback_types_sh [OF demo_deliver_ok(1) demo_reach_conn_sh [of "deliver [104]" "accept_at_most 1"]
      demo_conn_sh_simps(5,7)] by auto

text \<open>C37: no access outside the buffer. In every state the pending bytes lie within the 16384
  bytes of \<open>to_send\<close>; when the receive callback has made room, the number of bytes it asks
  \<open>recv\<close> for is not negative and fits behind them, so the conversion to \<open>size_t\<close> is exact
  and whatever \<open>recv\<close> stores stays inside.\<close>

theorem buffer_bounds_sh:
  assumes "env_ok E" and "reach_sh E w" and "heap w p = Some c"
  shows "to_send_beg c + unat (to_send_size c) \<le> 16384 \<and>
    (\<forall>rem w1. recv_room_sh (io_fd (h_wev_recv c)) p (w\<lparr>loop := l\<rparr>) = Some (rem, w1) \<longrightarrow>
       0 \<le> rem \<and> unat (word_of_int rem :: size_t) = nat rem \<and>
       (\<exists>c1. heap w1 p = Some c1 \<and> pending c1 = pending c \<and>
          to_send_beg c1 + unat (to_send_size c1) + nat rem = 16384))"
proof -
  note inv = sh.reach_ginv [OF assms(2,1)]
  obtain l' where str: "h_stream (hist w) p l' c"
    using ginv_cok [OF inv assms(3)] by (auto simp: honest_ok_def)
  then have b: "buf_ok c" by (simp add: h_stream_def)
  have "0 \<le> rem \<and> unat (word_of_int rem :: size_t) = nat rem \<and>
      (\<exists>c1. heap w1 p = Some c1 \<and> pending c1 = pending c \<and>
        to_send_beg c1 + unat (to_send_size c1) + nat rem = 16384)"
    if r: "recv_room_sh (io_fd (h_wev_recv c)) p (w\<lparr>loop := l\<rparr>) = Some (rem, w1)" for rem w1
  proof -
    have "on_conn p (io_fd (h_wev_recv c)) c (w\<lparr>loop := l\<rparr>) (w\<lparr>loop := l\<rparr>)"
      using assms(3) inv by (intro on_conn_start [where fd_of = h_fd]) (simp_all add: h_fd_def)
    moreover have "h_stream (hist (w\<lparr>loop := l\<rparr>)) p l' c" using str by simp
    ultimately obtain c1 where c1: "on_conn p (io_fd (h_wev_recv c)) c1 (w\<lparr>loop := l\<rparr>) w1"
      "h_stream (hist w1) p l' c1" "pending c1 = pending c"
      and rem: "rem = int TO_SEND_SIZE - int (to_send_beg c1) - int (unat (to_send_size c1))"
      using recv_room_sh_stream [OF _ _ refl r] by blast
    from c1(2) have "to_send_beg c1 + unat (to_send_size c1) \<le> 16384"
      by (simp add: h_stream_def buf_ok_def TO_SEND_SIZE_eq)
    moreover from rem this have "0 \<le> rem" "to_send_beg c1 + unat (to_send_size c1) + nat rem = 16384" "rem < 2 ^ 64"
      by (simp_all add: TO_SEND_SIZE_eq nat_diff_distrib)
    ultimately show ?thesis using on_conn_heap [OF c1(1)] c1(3) by (simp add: unat_size_of_int)
  qed
  with b show ?thesis by (simp add: buf_ok_def TO_SEND_SIZE_eq)
qed

theorem buffer_bounds_sh_witness:
  "\<exists>w1 c1. recv_room_sh 5 1 demo_conn_sh = Some (16384, w1) \<and> heap w1 1 = Some c1 \<and>
     to_send_beg c1 + unat (to_send_size c1) = 0"
proof -
  have "recv_room_sh 5 1 demo_conn_sh = Some (16384, demo_conn_sh)"
    by (simp add: recv_room_sh_def load_def buf_rem_size_ok buf_ok_def)
  with buffer_bounds_sh [OF demo_deliver_ok(1) demo_reach_conn_sh [of "deliver [104]" "accept_at_most 1"],
      of 1 demo_client_h 0]
  show ?thesis by auto
qed

text \<open>Making room in the callback is \<open>buf_room\<close> on the structure of the connection, so the
  equivalence of \<open>BufferQueue\<close> speaks of what the callback does.\<close>

lemma recv_room_sh_buf_room:
  assumes "heap w p = Some c"
  shows "map_option (\<lambda>(n, w1). (n, heap w1)) (recv_room_sh fd p w) =
    map_option (\<lambda>(n, c1). (n, (heap w)(p := Some c1))) (buf_room c)"
proof -
  have "(heap w)(p := Some c) = heap w" using assms by (rule fun_upd_idem)
  then show ?thesis
    using assms
    by (cases "buf_rem_size c"; cases "buf_compact c")
       (auto simp: recv_room_sh_def buf_room_def load_def store_def c_fprintf_def emit_def Let_def)
qed

section \<open>The address on the command line\<close>

text \<open>C40: the address a user writes is the address the server listens on: started with the
  dotted notation of four bytes and the decimal numeral of a port, a server that reaches its
  event loop has bound its socket to exactly these bytes, the port in network order.\<close>

theorem address_roundtrip_sh:
  assumes "env_ok E" and "fresh_world w0" and "port < 2 ^ 16"
    and "main_sh E [name, dotted_quad a b c d, decimal port] w0 = Some (Running w)"
  shows "\<exists>sd r hi lo. Bind sd \<lparr>sin_family = AF_INET, sin_addr = [a, b, c, d], sin_port = [hi, lo]\<rparr> (Inr r) \<in> set (hist w) \<and>
    256 * unat hi + unat lo = port"
proof -
  from assms(3) have "atoi (decimal port) = Some (int port)" by (simp add: atoi_decimal)
  with main_sh_hist [OF assms(1,2,4)] obtain sd r where
    "Bind sd \<lparr>sin_family = AF_INET, sin_addr = [a, b, c, d],
       sin_port = [word_of_nat (port div 256), word_of_nat (port mod 256)]\<rparr> (Inr r) \<in> set (hist w)"
    by (auto simp: inet_addr_dotted_quad htons_bytes [OF assms(3)])
  moreover have "256 * unat (word_of_nat (port div 256) :: byte) + unat (word_of_nat (port mod 256) :: byte) = port"
    using assms(3) by (simp add: unat_of_nat take_bit_eq_mod)
  ultimately show ?thesis by blast
qed

theorem address_roundtrip_sh_witness:
  "\<exists>sd r hi lo. Bind sd \<lparr>sin_family = AF_INET, sin_addr = [127, 0, 0, 1], sin_port = [hi, lo]\<rparr> (Inr r)
     \<in> set (hist demo_start_sh) \<and> 256 * unat hi + unat lo = 7"
proof -
  let ?w = "\<lparr>hist = [], errno = Errno 0, heap = \<lambda>_. None, servers = \<lambda>_. None, loop = 0\<rparr> :: world_sh"
  have dec: "decimal 127 = ''127''" "decimal 0 = ''0''" "decimal (Suc 0) = ''1''" "decimal 7 = ''7''"
    by (simp_all add: decimal.simps digit_def char_nat_eq)
  have "fresh_world ?w" by (simp add: fresh_world_def)
  moreover have "main_sh (demo_env blank_h (deliver [104]) (accept_at_most 1)) [''server'', dotted_quad 127 0 0 1, decimal 7] ?w =
      Some (Running demo_start_sh)"
    unfolding dotted_quad_def unat_numeral unat_0 unat_1
    by (simp add: dec main_sh_def server_main_def server_listen_def aux_set_nonblk_def aux_set_sckopt_def call_defs
        demo_env_def Let_def atoi_7 LISTEN_BACKLOG_def demo_start_sh_def)
  ultimately show ?thesis
    using address_roundtrip_sh [OF demo_deliver_ok(1), of ?w 7] by simp
qed

end
