(* ===== verification/Asio.thy ===== *)
theory Asio
  imports EchoSpec
begin

text \<open>
  What the two C++ programs on Boost.Asio rely on. An asynchronous operation is started and
  stays pending until \<open>io_service::run\<close>, in the thread of its service, completes it: it then
  carries out its effect and calls its handler once. Boost is not in the repository: which
  pending operation completes next and with what is open, as far as its documentation
  (\<open>ok\<close> in the definitions below) leaves it open.
\<close>

section \<open>Exceptions, error codes and replies\<close>

text \<open>
  What can end a C++ program early: an exception that nobody catches, or a failed \<open>assert\<close>.
  A function that can do so gives \<open>Inl\<close> of it, a function that returns gives \<open>Inr\<close>; as
  everywhere, \<open>None\<close> is undefined behaviour.
\<close>

datatype exn = Bad_alloc | System_error errno | Runtime_error string | Bad_lexical_cast | Assertion_failed

type_synonym 'w run = "(exn + 'w) option"

datatype error_code = Success | Eof | Aborted | Sys errno

text \<open>With what an operation completes: the bytes it read or the number it wrote, and an error.\<close>

datatype reply =
    R_accept "errno + (int \<times> sockaddr_in)"
  | R_read "byte list" error_code
  | R_write nat error_code
  | R_connect "errno + (int \<times> sockaddr_in)"
  | R_wait error_code

text \<open>The replies to calls that return at once: \<open>new\<close>, the clock, \<open>rand\<close>, starting a thread.\<close>

record 'c asio_env =
  a_new :: "history \<Rightarrow> (ptr \<times> 'c) option"
  a_new_array :: "history \<Rightarrow> nat \<Rightarrow> bool"
  a_acceptor :: "history \<Rightarrow> 16 word \<Rightarrow> errno + int"
  a_assign :: "history \<Rightarrow> int \<Rightarrow> errno option"
  a_thread :: "history \<Rightarrow> nat \<Rightarrow> errno option"
  a_time :: "history \<Rightarrow> 64 word \<times> 64 word"
  a_rand :: "history \<Rightarrow> int"
  a_set_option :: "history \<Rightarrow> int \<Rightarrow> errno option"
  a_resolve :: "string \<Rightarrow> string \<Rightarrow> errno + sockaddr_in list"

definition asio_env_ok :: "'c asio_env \<Rightarrow> bool" where
  "asio_env_ok E \<longleftrightarrow>
     (\<forall>h p c. a_new E h = Some (p, c) \<longrightarrow> \<not> allocated h p) \<and>
     (\<forall>h n fd. a_acceptor E h n = Inr fd \<longrightarrow> 0 \<le> fd \<and> fd < 2 ^ 31 \<and> \<not> open_fd h fd) \<and>
     (\<forall>h. 0 \<le> a_rand E h \<and> a_rand E h < 2 ^ 31)"

lemma asio_env_okD:
  assumes "asio_env_ok E"
  shows "a_new E h = Some (p, c) \<Longrightarrow> \<not> allocated h p"
    and "a_acceptor E h n = Inr fd \<Longrightarrow> 0 \<le> fd \<and> fd < 2 ^ 31 \<and> \<not> open_fd h fd"
    and "0 \<le> a_rand E h" "a_rand E h < 2 ^ 31"
  using assms unfolding asio_env_ok_def by blast+

section \<open>Pending operations\<close>

text \<open>A process with the operations that are pending, each with the number of its service.\<close>

record ('c, 's, 'o) asio_world = "('c, 's) world" +
  ops :: "(nat \<times> 'o) list"

definition async :: "nat \<Rightarrow> 'o \<Rightarrow> ('c, 's, 'o, 'z) asio_world_scheme \<Rightarrow> ('c, 's, 'o, 'z) asio_world_scheme" where
  "async i op w = w\<lparr>ops := ops w @ [(i, op)]\<rparr>"

definition finish :: "nat \<Rightarrow> 'o \<Rightarrow> ('c, 's, 'o, 'z) asio_world_scheme \<Rightarrow> ('c, 's, 'o, 'z) asio_world_scheme" where
  "finish i op w = w\<lparr>ops := remove1 (i, op) (ops w)\<rparr>"

text \<open>
  The calls behind an operation that read \<open>bs\<close> of at most \<open>n\<close> bytes, or wrote \<open>k\<close> of the bytes
  \<open>bs\<close>, before it ended with \<open>e\<close>.
\<close>

definition recv_events :: "int \<Rightarrow> size_t \<Rightarrow> byte list \<Rightarrow> error_code \<Rightarrow> history \<Rightarrow> history" where
  "recv_events fd n bs e h = (let h = (if bs = [] then h else Recv fd n (Inr bs) # h) in
     case e of Eof \<Rightarrow> Recv fd n (Inr []) # h | Sys x \<Rightarrow> Recv fd n (Inl x) # h | _ \<Rightarrow> h)"

definition send_events :: "int \<Rightarrow> byte list \<Rightarrow> nat \<Rightarrow> error_code \<Rightarrow> history \<Rightarrow> history" where
  "send_events fd bs k e h = (let h = (if k = 0 then h else Send fd bs (Inr k) # h) in
     case e of Sys x \<Rightarrow> Send fd (drop k bs) (Inl x) # h | _ \<Rightarrow> h)"

lemma recv_events_views [hist_simps, simp]:
  "recvd (recv_events fd n bs e h) f = (if f = fd then recvd h f @ bs else recvd h f)"
  "sent (recv_events fd n bs e h) f = sent h f"
  "open_fd (recv_events fd n bs e h) f = open_fd h f"
  "allocated (recv_events fd n bs e h) p = allocated h p"
  by (auto simp: recv_events_def Let_def split: error_code.split)

lemma send_events_views [hist_simps, simp]:
  "recvd (send_events fd bs k e h) f = recvd h f"
  "sent (send_events fd bs k e h) f = (if f = fd then sent h f @ take k bs else sent h f)"
  "open_fd (send_events fd bs k e h) f = open_fd h f"
  "allocated (send_events fd bs k e h) p = allocated h p"
  by (auto simp: send_events_def Let_def split: error_code.split)

section \<open>Running\<close>

inductive asio_step ::
  "(nat \<Rightarrow> 'o \<Rightarrow> reply \<Rightarrow> ('c, 's, 'o, 'z) asio_world_scheme \<Rightarrow> ('c, 's, 'o, 'z) asio_world_scheme run)
    \<Rightarrow> (('c, 's, 'o, 'z) asio_world_scheme \<Rightarrow> 'o \<Rightarrow> reply \<Rightarrow> bool)
    \<Rightarrow> ('c, 's, 'o, 'z) asio_world_scheme \<Rightarrow> ('c, 's, 'o, 'z) asio_world_scheme \<Rightarrow> bool" for run ok where
  complete: "(i, op) \<in> set (ops w) \<Longrightarrow> ok w op r \<Longrightarrow> run i op r (finish i op w) = Some (Inr w') \<Longrightarrow>
     asio_step run ok w w'"

inductive_cases asio_stepE: "asio_step run ok w w'"

inductive asio_reach ::
  "(nat \<Rightarrow> 'o \<Rightarrow> reply \<Rightarrow> ('c, 's, 'o, 'z) asio_world_scheme \<Rightarrow> ('c, 's, 'o, 'z) asio_world_scheme run)
    \<Rightarrow> (('c, 's, 'o, 'z) asio_world_scheme \<Rightarrow> 'o \<Rightarrow> reply \<Rightarrow> bool)
    \<Rightarrow> (('c, 's, 'o, 'z) asio_world_scheme \<Rightarrow> ('c, 's, 'o, 'z) asio_world_scheme \<Rightarrow> bool)
    \<Rightarrow> (('c, 's, 'o, 'z) asio_world_scheme \<Rightarrow> bool) \<Rightarrow> ('c, 's, 'o, 'z) asio_world_scheme \<Rightarrow> bool"
  for run ok spawn start where
  asio_start: "start w \<Longrightarrow> asio_reach run ok spawn start w"
| asio_complete: "asio_reach run ok spawn start w \<Longrightarrow> asio_step run ok w w' \<Longrightarrow> asio_reach run ok spawn start w'"
| asio_spawn: "asio_reach run ok spawn start w \<Longrightarrow> spawn w w' \<Longrightarrow> asio_reach run ok spawn start w'"

text \<open>
  The contract of a program on Asio: an invariant that its start, its threads and the completion
  of each operation keep, and under which no completion is undefined; \<open>stop\<close> are the ways in
  which the program may be ended early.
\<close>

locale asio_program =
  fixes run :: "'e \<Rightarrow> nat \<Rightarrow> 'o \<Rightarrow> reply \<Rightarrow> ('c, 's, 'o, 'z) asio_world_scheme \<Rightarrow> ('c, 's, 'o, 'z) asio_world_scheme run"
    and ok :: "('c, 's, 'o, 'z) asio_world_scheme \<Rightarrow> 'o \<Rightarrow> reply \<Rightarrow> bool"
    and spawn :: "'e \<Rightarrow> ('c, 's, 'o, 'z) asio_world_scheme \<Rightarrow> ('c, 's, 'o, 'z) asio_world_scheme \<Rightarrow> bool"
    and start :: "'e \<Rightarrow> ('c, 's, 'o, 'z) asio_world_scheme \<Rightarrow> bool"
    and env :: "'e \<Rightarrow> bool"
    and inv :: "('c, 's, 'o, 'z) asio_world_scheme \<Rightarrow> bool"
    and stop :: "exn set"
  assumes start_inv: "env E \<Longrightarrow> start E w \<Longrightarrow> inv w"
    and spawn_inv: "env E \<Longrightarrow> inv w \<Longrightarrow> spawn E w w' \<Longrightarrow> inv w'"
    and run_inv: "env E \<Longrightarrow> inv w \<Longrightarrow> (i, op) \<in> set (ops w) \<Longrightarrow> ok w op r \<Longrightarrow>
      (\<exists>e \<in> stop. run E i op r (finish i op w) = Some (Inl e)) \<or>
      (\<exists>w'. run E i op r (finish i op w) = Some (Inr w') \<and> inv w')"
begin

lemma step_inv:
  assumes "env E" and "inv w" and "asio_step (run E) ok w w'"
  shows "inv w'"
proof -
  from assms(3) obtain i op r where "(i, op) \<in> set (ops w)" "ok w op r"
    and w': "run E i op r (finish i op w) = Some (Inr w')" by (auto elim: asio_stepE)
  from run_inv [OF assms(1,2) this(1,2)] w' show ?thesis by auto
qed

lemma reach_inv: "asio_reach (run E) ok (spawn E) (start E) w \<Longrightarrow> env E \<Longrightarrow> inv w"
  by (induction rule: asio_reach.induct) (blast intro: start_inv step_inv spawn_inv)+

lemma reach_defined:
  assumes "asio_reach (run E) ok (spawn E) (start E) w" and "env E" and "(i, op) \<in> set (ops w)" and "ok w op r"
  shows "(\<exists>e \<in> stop. run E i op r (finish i op w) = Some (Inl e)) \<or>
    (\<exists>w'. run E i op r (finish i op w) = Some (Inr w') \<and> asio_reach (run E) ok (spawn E) (start E) w')"
  using run_inv [OF assms(2) reach_inv [OF assms(1,2)] assms(3,4)] assms
  by (blast intro: asio_complete complete)

end

end
