(* ===== verification/AsioDemo.thy ===== *)
theory AsioDemo
  imports Asio
begin

text \<open>
  A concrete environment for the two programs on Boost.Asio, which the inputs of their
  witnesses run on: every call succeeds, the clock stands still, \<open>rand\<close> gives 7.
\<close>

text \<open>Blocks are numbered from 1 on; the listening descriptor is 3.\<close>

primrec next_block :: "history \<Rightarrow> nat" where
  "next_block [] = 1"
| "next_block (e # h) = (case e of Malloc (Some p) \<Rightarrow> max (unat p + 1) (next_block h) | _ \<Rightarrow> next_block h)"

definition demo_asio :: "'c \<Rightarrow> 'c asio_env" where
  "demo_asio blank = \<lparr>
     a_new = (\<lambda>h. let p = word_of_nat (next_block h) in if allocated h p then None else Some (p, blank)),
     a_new_array = (\<lambda>h n. True),
     a_acceptor = (\<lambda>h port. if open_fd h 3 then Inl (Errno 98) else Inr 3),
     a_assign = (\<lambda>h fd. None),
     a_thread = (\<lambda>h i. None),
     a_time = (\<lambda>h. (0, 0)),
     a_rand = (\<lambda>h. 7),
     a_set_option = (\<lambda>h fd. None),
     a_resolve = (\<lambda>host port. Inr [zero_addr])\<rparr>"

lemma demo_asio_ok: "asio_env_ok (demo_asio blank)"
  by (auto simp: asio_env_ok_def demo_asio_def Let_def split: if_splits)

end
