(* ===== verification/CppServer.thy ===== *)
theory CppServer
  imports Asio
begin

text \<open>
  \<^verbatim>\<open>c++-virtan/server.cc\<close>: an echo server on Boost.Asio. The main thread listens; every other
  thread has a service of its own and accepts on the same socket. A connection reads what
  there is, writes all of it back, and reads again. One definition for each function;
  \<open>connection::read\<close> is \<open>connection_read\<close>, and so on.
\<close>

section \<open>The code\<close>

subsection \<open>Connections\<close>

definition MAX_LENGTH :: nat where
  "MAX_LENGTH = 4096"

text \<open>A socket is closed, or has a native handle.\<close>

record connection =
  v_sock :: "int option"
  v_data :: "nat \<Rightarrow> byte"

record asio_acceptor =
  a_native :: int

text \<open>
  The operations the program starts, with their handlers: \<open>async_read_some\<close> for
  \<open>connection::read\<close>, \<open>async_write\<close> of the first bytes of \<open>data\<close> for \<open>connection::write\<close>, and
  \<open>async_accept\<close> for \<open>acceptor::accept\<close>.
\<close>

datatype async_v = Read_some (op_ptr: ptr) | Write (op_ptr: ptr) nat | Accept_into (op_ptr: ptr)

type_synonym world_v = "(connection, asio_acceptor, async_v) asio_world"

definition connection_start :: "nat \<Rightarrow> ptr \<Rightarrow> world_v \<Rightarrow> world_v option" where
  "connection_start i p w = do {
     _ \<leftarrow> load p w;
     Some (async i (Read_some p) w)
   }"

text \<open>\<open>delete this\<close>: the destructor of the socket closes it.\<close>

definition connection_delete :: "ptr \<Rightarrow> world_v \<Rightarrow> world_v option" where
  "connection_delete p w = do {
     c \<leftarrow> load p w;
     let w = (case v_sock c of Some fd \<Rightarrow> c_close fd w | None \<Rightarrow> w);
     c_free p w
   }"

definition connection_read :: "nat \<Rightarrow> ptr \<Rightarrow> error_code \<Rightarrow> nat \<Rightarrow> world_v \<Rightarrow> world_v option" where
  "connection_read i p e bytes_transferred w =
     (if e = Success then do {
        _ \<leftarrow> load p w;
        Some (async i (Write p bytes_transferred) w)
      } else connection_delete p w)"

definition connection_write :: "nat \<Rightarrow> ptr \<Rightarrow> error_code \<Rightarrow> world_v \<Rightarrow> world_v option" where
  "connection_write i p e w = (if e = Success then connection_start i p w else connection_delete p w)"

subsection \<open>Accepting\<close>

text \<open>The constructor of \<open>connection\<close> makes a closed socket and leaves \<open>data\<close> as it is.\<close>

definition acceptor_start_accept :: "connection asio_env \<Rightarrow> nat \<Rightarrow> world_v \<Rightarrow> world_v run" where
  "acceptor_start_accept E i w = (case a_new E (hist w) of
     None \<Rightarrow> Some (Inl Bad_alloc)
   | Some (p, c) \<Rightarrow>
       let w = (emit (Malloc (Some p)) w)\<lparr>heap := (heap w)(p := Some (c\<lparr>v_sock := None\<rparr>))\<rparr>
       in Some (Inr (async i (Accept_into p) w)))"

definition acceptor_accept :: "connection asio_env \<Rightarrow> nat \<Rightarrow> ptr \<Rightarrow> error_code \<Rightarrow> world_v \<Rightarrow> world_v run" where
  "acceptor_accept E i p e w = do {
     w \<leftarrow> (if e = Success then connection_start i p w else connection_delete p w);
     acceptor_start_accept E i w
   }"

text \<open>
  The acceptor of a thread takes over the native handle it is given, as the \<open>unsigned short\<close>
  that \<open>servicing\<close> has for its parameter.
\<close>

definition servicing_v :: "connection asio_env \<Rightarrow> nat \<Rightarrow> 16 word \<Rightarrow> world_v \<Rightarrow> world_v run" where
  "servicing_v E i port w = (case a_assign E (hist w) (uint port) of
     Some e \<Rightarrow> Some (Inl (System_error e))
   | None \<Rightarrow> acceptor_start_accept E i (w\<lparr>servers := (servers w)(i := Some \<lparr>a_native = uint port\<rparr>)\<rparr>))"

subsection \<open>The main program\<close>

text \<open>The loop that starts threads \<open>i\<close> to \<open>i + k - 1\<close>, each with the native handle \<open>fd\<close>.\<close>

primrec start_threads :: "connection asio_env \<Rightarrow> int \<Rightarrow> nat \<Rightarrow> nat \<Rightarrow> world_v \<Rightarrow> exn + world_v" where
  "start_threads E fd i 0 w = Inr w"
| "start_threads E fd i (Suc k) w = (case a_thread E (hist w) i of
     Some e \<Rightarrow> Inl (System_error e)
   | None \<Rightarrow> start_threads E fd (i + 1) k (emit (Pthread_create i fd 0) w))"

text \<open>
  \<open>main\<close> up to the call of \<open>sleep\<close>; the constructor of \<open>tcp::acceptor\<close> opens, binds and listens, or
  throws. After it main returns 0.
\<close>

definition main_v :: "connection asio_env \<Rightarrow> string list \<Rightarrow> world_v \<Rightarrow> world_v process run" where
  "main_v E argv w =
     (if length argv < 2 then
        Some (Inr (Exited 1 (emit (Cpp (Cout [A_str ''Usage: '', A_str (argv ! 0),
          A_str (ln '' <port> [threads = 24]'')])) w)))
      else do {
        pn \<leftarrow> atoi (argv ! 1);
        let port = (word_of_int pn :: 16 word);
        threads \<leftarrow> (if 2 < length argv then map_option word_of_int (atoi (argv ! 2)) else Some 24);
        if \<not> a_new_array E (hist w) (unat (threads :: size_t)) then Some (Inl Bad_alloc)
        else case a_acceptor E (hist w) port of
          Inl e \<Rightarrow> Some (Inl (System_error e))
        | Inr fd \<Rightarrow>
            let w = emit (Socket AF_INET SOCK_STREAM 0 (Inr fd)) w;
                w = emit (Bind fd \<lparr>sin_family = AF_INET, sin_addr = [0, 0, 0, 0], sin_port = htons (uint port)\<rparr> (Inr 0)) w
            in (case start_threads E fd 0 (unat threads) w of
                  Inl e \<Rightarrow> Some (Inl e)
                | Inr w \<Rightarrow> Some (Inr (Running (emit (Cpp (Sleep (0 - 1))) w))))
      })"

subsection \<open>The services\<close>

text \<open>What the completion of an operation does: its effect on the connection, then its handler.\<close>

definition run_v :: "connection asio_env \<Rightarrow> nat \<Rightarrow> async_v \<Rightarrow> reply \<Rightarrow> world_v \<Rightarrow> world_v run" where
  "run_v E i op r w = (case (op, r) of
     (Read_some p, R_read bs e) \<Rightarrow> do {
       c \<leftarrow> load p w;
       fd \<leftarrow> v_sock c;
       a \<leftarrow> arr_write MAX_LENGTH (v_data c) 0 bs;
       let w = w\<lparr>hist := recv_events fd (word_of_nat MAX_LENGTH) bs e (hist w)\<rparr>;
       w \<leftarrow> store p (c\<lparr>v_data := a\<rparr>) w;
       w \<leftarrow> connection_read i p e (length bs) w;
       Some (Inr w)
     }
   | (Write p n, R_write k e) \<Rightarrow> do {
       c \<leftarrow> load p w;
       fd \<leftarrow> v_sock c;
       bs \<leftarrow> arr_read MAX_LENGTH (v_data c) 0 n;
       w \<leftarrow> connection_write i p e (w\<lparr>hist := send_events fd bs k e (hist w)\<rparr>);
       Some (Inr w)
     }
   | (Accept_into p, R_accept r) \<Rightarrow> do {
       c \<leftarrow> load p w;
       a \<leftarrow> servers w i;
       let w = emit (Accept (a_native a) r) w;
       (case r of
          Inl e \<Rightarrow> acceptor_accept E i p (Sys e) w
        | Inr (fd, _) \<Rightarrow> do {
            w \<leftarrow> store p (c\<lparr>v_sock := Some fd\<rparr>) w;
            acceptor_accept E i p Success w
          })
     }
   | _ \<Rightarrow> None)"

text \<open>
  What the documentation promises: \<open>async_read_some\<close> gives at least one byte or an error,
  \<open>async_write\<close> writes all or gives an error, a new native handle is not in use.
\<close>

definition reply_ok_v :: "world_v \<Rightarrow> async_v \<Rightarrow> reply \<Rightarrow> bool" where
  "reply_ok_v w op r = (case (op, r) of
     (Read_some p, R_read bs e) \<Rightarrow> length bs \<le> MAX_LENGTH \<and> (e = Success \<longleftrightarrow> bs \<noteq> [])
   | (Write p n, R_write k e) \<Rightarrow> k \<le> n \<and> (e = Success \<longleftrightarrow> k = n)
   | (Accept_into p, R_accept (Inr (fd, _))) \<Rightarrow> 0 \<le> fd \<and> \<not> open_fd (hist w) fd
   | (Accept_into p, R_accept (Inl _)) \<Rightarrow> True
   | _ \<Rightarrow> False)"

definition spawn_v :: "connection asio_env \<Rightarrow> world_v \<Rightarrow> world_v \<Rightarrow> bool" where
  "spawn_v E w w' \<longleftrightarrow> (\<exists>i fd. Pthread_create i fd 0 \<in> set (hist w) \<and> servers w i = None \<and>
     servicing_v E i (word_of_int fd) w = Some (Inr w'))"

definition start_v :: "connection asio_env \<Rightarrow> world_v \<Rightarrow> bool" where
  "start_v E w \<longleftrightarrow> (\<exists>argv w0. fresh_world w0 \<and> ops w0 = [] \<and> main_v E argv w0 = Some (Inr (Running w)))"

end
