(* ===== verification/CppServerInv.thy ===== *)
theory CppServerInv
  imports CppServer
begin

text \<open>
  The invariant of \<^verbatim>\<open>server.cc\<close>: every connection is waited for by exactly one pending
  operation, and what it holds of its client's bytes is exactly what that operation is to
  write. While a handler runs, its connection has no operation: the set \<open>P\<close>.
\<close>

section \<open>The invariant\<close>

fun is_accept :: "async_v \<Rightarrow> bool" where
  "is_accept (Accept_into p) = True"
| "is_accept _ = False"

lemma is_accept_iff: "is_accept op \<longleftrightarrow> op = Accept_into (op_ptr op)"
  by (cases op) auto

definition conn_ok :: "history \<Rightarrow> async_v \<Rightarrow> connection \<Rightarrow> bool" where
  "conn_ok h op c = (case op of
     Accept_into p \<Rightarrow> v_sock c = None
   | Read_some p \<Rightarrow> \<exists>fd. v_sock c = Some fd \<and> recvd h fd = sent h fd
   | Write p n \<Rightarrow> 0 < n \<and> n \<le> MAX_LENGTH \<and>
       (\<exists>fd. v_sock c = Some fd \<and> recvd h fd = sent h fd @ arr_slice (v_data c) 0 n))"

definition inv_v :: "nat set \<Rightarrow> ptr set \<Rightarrow> world_v \<Rightarrow> bool" where
  "inv_v A P w \<longleftrightarrow>
     distinct (map (op_ptr \<circ> snd) (ops w)) \<and>
     (\<forall>p. heap w p \<noteq> None \<longleftrightarrow> p \<in> P \<or> (\<exists>i op. (i, op) \<in> set (ops w) \<and> op_ptr op = p)) \<and>
     (\<forall>i op. (i, op) \<in> set (ops w) \<longrightarrow> op_ptr op \<notin> P) \<and>
     (\<forall>i op c. (i, op) \<in> set (ops w) \<longrightarrow> heap w (op_ptr op) = Some c \<longrightarrow> conn_ok (hist w) op c) \<and>
     (\<forall>p c. heap w p = Some c \<longrightarrow> allocated (hist w) p \<and> (\<forall>fd. v_sock c = Some fd \<longrightarrow> open_fd (hist w) fd)) \<and>
     (\<forall>p q c d fd. heap w p = Some c \<longrightarrow> heap w q = Some d \<longrightarrow> v_sock c = Some fd \<longrightarrow> v_sock d = Some fd \<longrightarrow> p = q) \<and>
     (\<forall>i. i \<in> A \<longleftrightarrow> (\<exists>p. (i, Accept_into p) \<in> set (ops w))) \<and>
     (\<forall>i p q. (i, Accept_into p) \<in> set (ops w) \<longrightarrow> (i, Accept_into q) \<in> set (ops w) \<longrightarrow> p = q)"

lemma inv_vD:
  assumes "inv_v A P w"
  shows "distinct (map (op_ptr \<circ> snd) (ops w))"
    and "heap w p \<noteq> None \<longleftrightarrow> p \<in> P \<or> (\<exists>i op. (i, op) \<in> set (ops w) \<and> op_ptr op = p)"
    and "(i, op) \<in> set (ops w) \<Longrightarrow> op_ptr op \<notin> P"
    and "(i, op) \<in> set (ops w) \<Longrightarrow> heap w (op_ptr op) = Some c \<Longrightarrow> conn_ok (hist w) op c"
    and "heap w p = Some c \<Longrightarrow> allocated (hist w) p"
    and "heap w p = Some c \<Longrightarrow> v_sock c = Some fd \<Longrightarrow> open_fd (hist w) fd"
    and "heap w p = Some c \<Longrightarrow> heap w q = Some d \<Longrightarrow> v_sock c = Some fd \<Longrightarrow> v_sock d = Some fd \<Longrightarrow> p = q"
    and "i \<in> A \<longleftrightarrow> (\<exists>p. (i, Accept_into p) \<in> set (ops w))"
    and "(i, Accept_into p) \<in> set (ops w) \<Longrightarrow> (i, Accept_into q) \<in> set (ops w) \<Longrightarrow> p = q"
  using assms unfolding inv_v_def by - metis+

lemma inv_vI:
  assumes "distinct (map (op_ptr \<circ> snd) (ops w))"
    and "\<And>p. heap w p \<noteq> None \<longleftrightarrow> p \<in> P \<or> (\<exists>i op. (i, op) \<in> set (ops w) \<and> op_ptr op = p)"
    and "\<And>i op. (i, op) \<in> set (ops w) \<Longrightarrow> op_ptr op \<notin> P"
    and "\<And>i op c. (i, op) \<in> set (ops w) \<Longrightarrow> heap w (op_ptr op) = Some c \<Longrightarrow> conn_ok (hist w) op c"
    and "\<And>p c. heap w p = Some c \<Longrightarrow> allocated (hist w) p"
    and "\<And>p c fd. heap w p = Some c \<Longrightarrow> v_sock c = Some fd \<Longrightarrow> open_fd (hist w) fd"
    and "\<And>p q c d fd. heap w p = Some c \<Longrightarrow> heap w q = Some d \<Longrightarrow> v_sock c = Some fd \<Longrightarrow> v_sock d = Some fd \<Longrightarrow> p = q"
    and "\<And>i. i \<in> A \<longleftrightarrow> (\<exists>p. (i, Accept_into p) \<in> set (ops w))"
    and "\<And>i p q. (i, Accept_into p) \<in> set (ops w) \<Longrightarrow> (i, Accept_into q) \<in> set (ops w) \<Longrightarrow> p = q"
  shows "inv_v A P w"
  using assms unfolding inv_v_def by blast

text \<open>A pending operation's connection is allocated.\<close>

lemma inv_v_conn:
  assumes "inv_v A P w" and "(i, op) \<in> set (ops w)"
  obtains c where "heap w (op_ptr op) = Some c" and "conn_ok (hist w) op c"
  using inv_vD(2) [OF assms(1), of "op_ptr op"] inv_vD(4) [OF assms] assms(2) by blast

lemma conn_ok_frame:
  assumes "conn_ok h op c" and "ext {} {fd} h h'" and "v_sock c \<noteq> Some fd"
  shows "conn_ok h' op c"
  using assms(1,3) recvd_ext [OF assms(2)] sent_ext [OF assms(2)]
  by (fastforce simp: conn_ok_def split: async_v.splits)

lemma conn_ok_same:
  "(\<And>fd. recvd h' fd = recvd h fd) \<Longrightarrow> (\<And>fd. sent h' fd = sent h fd) \<Longrightarrow> conn_ok h' op c = conn_ok h op c"
  by (cases op) (simp_all add: conn_ok_def)

section \<open>What the pieces of a handler do to it\<close>

lemma ops_unique:
  "distinct (map (op_ptr \<circ> snd) xs) \<Longrightarrow> (i, op) \<in> set xs \<Longrightarrow> (j, op') \<in> set xs \<Longrightarrow> op_ptr op = op_ptr op' \<Longrightarrow>
     i = j \<and> op = op'"
  by (drule distinct_map [THEN iffD1, THEN conjunct2]) (drule inj_onD [of _ _ "(i, op)" "(j, op')"], simp_all)

lemma inv_finish:
  assumes inv: "inv_v A {} w" and op: "(i, op) \<in> set (ops w)"
  shows "inv_v (if is_accept op then A - {i} else A) {op_ptr op} (finish i op w)"
proof -
  note d = inv_vD [OF inv]
  have dist: "distinct (ops w)" using d(1) by (simp add: distinct_map)
  then have set': "set (remove1 (i, op) (ops w)) = set (ops w) - {(i, op)}" by (rule set_remove1_eq)
  have other: "op_ptr op' \<noteq> op_ptr op" if "(j, op') \<in> set (ops w) - {(i, op)}" for j op'
    using ops_unique [OF d(1) op, of j op'] that by auto
  show ?thesis
  proof (rule inv_vI)
    show "distinct (map (op_ptr \<circ> snd) (ops (finish i op w)))"
      using d(1) by (auto simp: finish_def distinct_map set' dist intro: inj_on_subset)
    show "heap (finish i op w) p \<noteq> None \<longleftrightarrow>
        p \<in> {op_ptr op} \<or> (\<exists>j op'. (j, op') \<in> set (ops (finish i op w)) \<and> op_ptr op' = p)" for p
      using d(2) [of p] op by (auto simp: finish_def set')
    show "op_ptr op' \<notin> {op_ptr op}" if "(j, op') \<in> set (ops (finish i op w))" for j op'
      using other that by (simp add: finish_def set')
    show "j \<in> (if is_accept op then A - {i} else A) \<longleftrightarrow> (\<exists>p. (j, Accept_into p) \<in> set (ops (finish i op w)))" for j
    proof -
      have "(j, Accept_into p) \<in> set (ops (finish i op w)) \<longleftrightarrow>
          (j, Accept_into p) \<in> set (ops w) \<and> (j, Accept_into p) \<noteq> (i, op)" for p
        by (simp add: finish_def set')
      with d(8) [of j] d(9) op show ?thesis by (cases op) auto
    qed
  qed (use d(4,5,6,7,9) in \<open>auto simp: finish_def set'\<close>)
qed

lemma inv_async:
  assumes inv: "inv_v A {p} w" and p: "op_ptr op = p" "heap w p = Some c" "conn_ok (hist w) op c"
    and acc: "is_accept op \<Longrightarrow> i \<notin> A"
  shows "inv_v (if is_accept op then insert i A else A) {} (async i op w)"
proof -
  note d = inv_vD [OF inv]
  show ?thesis
  proof (rule inv_vI)
    show "distinct (map (op_ptr \<circ> snd) (ops (async i op w)))"
      using d(1,3) p(1) by (fastforce simp: async_def)
    show "heap (async i op w) q \<noteq> None \<longleftrightarrow>
        q \<in> {} \<or> (\<exists>j op'. (j, op') \<in> set (ops (async i op w)) \<and> op_ptr op' = q)" for q
      using d(2) [of q] p(1) by (auto simp: async_def)
    show "conn_ok (hist (async i op w)) op' d"
      if "(j, op') \<in> set (ops (async i op w))" "heap (async i op w) (op_ptr op') = Some d" for j op' d
      using that p d(4) by (auto simp: async_def)
    show "j \<in> (if is_accept op then insert i A else A) \<longleftrightarrow> (\<exists>q. (j, Accept_into q) \<in> set (ops (async i op w)))" for j
      using d(8) [of j] by (cases op) (auto simp: async_def)
    show "q = r" if "(j, Accept_into q) \<in> set (ops (async i op w))" "(j, Accept_into r) \<in> set (ops (async i op w))" for j q r
      using that d(8) [of j] d(9) acc by (auto simp: async_def)
  qed (use d(5,6,7) in \<open>auto simp: async_def\<close>)
qed

text \<open>Calls on the connection's own descriptor, and changes of the structure.\<close>

lemma inv_own:
  assumes inv: "inv_v A {p} w" and p: "heap w p = Some c" and x: "ext {} {fd} (hist w) h"
    and fd: "open_fd h fd" "v_sock c' = Some fd"
    and old: "v_sock c = Some fd \<or> \<not> open_fd (hist w) fd"
  shows "inv_v A {p} (w\<lparr>hist := h, heap := (heap w)(p := Some c')\<rparr>)"
proof -
  note d = inv_vD [OF inv]
  have other: "v_sock b \<noteq> Some fd" if "heap w q = Some b" "q \<noteq> p" for q b
    using old d(6) [OF that(1), of fd] d(7) [OF that(1) p, of fd] that(2) by blast
  show ?thesis
  proof (rule inv_vI)
    show "conn_ok (hist (w\<lparr>hist := h, heap := (heap w)(p := Some c')\<rparr>)) op b"
      if "(i, op) \<in> set (ops (w\<lparr>hist := h, heap := (heap w)(p := Some c')\<rparr>))"
        "heap (w\<lparr>hist := h, heap := (heap w)(p := Some c')\<rparr>) (op_ptr op) = Some b" for i op b
    proof -
      from that(1) have "op_ptr op \<noteq> p" using d(3) by auto
      with that have "heap w (op_ptr op) = Some b" "conn_ok (hist w) op b" using d(4) by auto
      with other [OF this(1)] \<open>op_ptr op \<noteq> p\<close> show ?thesis by (auto intro: conn_ok_frame [OF _ x])
    qed
    show "open_fd (hist (w\<lparr>hist := h, heap := (heap w)(p := Some c')\<rparr>)) f"
      if "heap (w\<lparr>hist := h, heap := (heap w)(p := Some c')\<rparr>) q = Some b" "v_sock b = Some f" for q b f
    proof (cases "q = p")
      case True
      with that fd show ?thesis by simp
    next
      case False
      with that have "heap w q = Some b" by simp
      with that(2) other [OF this False] d(6) open_fd_ext [OF x, of f] show ?thesis by auto
    qed
    show "q = r" if "heap (w\<lparr>hist := h, heap := (heap w)(p := Some c')\<rparr>) q = Some a"
      "heap (w\<lparr>hist := h, heap := (heap w)(p := Some c')\<rparr>) r = Some b" "v_sock a = Some f" "v_sock b = Some f" for q r a b f
      using that other d(7) fd(2) by (auto split: if_splits)
    show "allocated (hist (w\<lparr>hist := h, heap := (heap w)(p := Some c')\<rparr>)) q"
      if "heap (w\<lparr>hist := h, heap := (heap w)(p := Some c')\<rparr>) q = Some b" for q b
      using that d(5) p allocated_ext [OF x, of q] by (auto split: if_splits)
  qed (use d(1,2,3,8,9) p in auto)
qed

lemma inv_delete:
  assumes inv: "inv_v A {p} w" and p: "heap w p = Some c"
  shows "\<exists>w'. connection_delete p w = Some w' \<and> inv_v A {} w' \<and> ops w' = ops w \<and> servers w' = servers w \<and>
    heap w' = (heap w)(p := None) \<and>
    hist w' = Free p # (case v_sock c of Some fd \<Rightarrow> [Close fd] | None \<Rightarrow> []) @ hist w"
proof -
  note d = inv_vD [OF inv]
  let ?h = "(case v_sock c of Some fd \<Rightarrow> [Close fd] | None \<Rightarrow> []) @ hist w"
  define w' where "w' = w\<lparr>hist := Free p # ?h, heap := (heap w)(p := None)\<rparr>"
  have run: "connection_delete p w = Some w'"
    using p by (auto simp: connection_delete_def load_def c_free_def c_close_def emit_def w'_def split: option.split)
  have views: "recvd ?h fd = recvd (hist w) fd" "sent ?h fd = sent (hist w) fd" "allocated ?h q = allocated (hist w) q" for fd q
    by (auto split: option.split)
  have opn: "open_fd ?h fd \<longleftrightarrow> v_sock c \<noteq> Some fd \<and> open_fd (hist w) fd" for fd
    by (auto split: option.split)
  have "inv_v A {} w'"
  proof (rule inv_vI)
    show "heap w' q \<noteq> None \<longleftrightarrow> q \<in> {} \<or> (\<exists>i op. (i, op) \<in> set (ops w') \<and> op_ptr op = q)" for q
      using d(2) [of q] d(3) by (auto simp: w'_def)
    show "conn_ok (hist w') op b" if "(i, op) \<in> set (ops w')" "heap w' (op_ptr op) = Some b" for i op b
    proof -
      have "conn_ok (hist w') op b = conn_ok (hist w) op b"
        by (rule conn_ok_same) (simp_all add: w'_def views)
      with that d(4) show ?thesis by (auto simp: w'_def split: if_splits)
    qed
    show "open_fd (hist w') fd" if "heap w' q = Some b" "v_sock b = Some fd" for q b fd
      using that d(6) d(7) [OF p] by (auto simp: w'_def opn split: if_splits)
    show "q = r" if "heap w' q = Some a" "heap w' r = Some b" "v_sock a = Some fd" "v_sock b = Some fd" for q r a b fd
      using that d(7) by (auto simp: w'_def split: if_splits)
    show "allocated (hist w') q" if "heap w' q = Some b" for q b
      using that d(5) by (auto simp: w'_def views split: if_splits)
  qed (use d(1,8,9) in \<open>auto simp: w'_def\<close>)
  with run show ?thesis by (intro exI [of _ w']) (simp add: w'_def)
qed

lemma inv_new:
  assumes inv: "inv_v A {} w" and ok: "asio_env_ok E" and i: "i \<notin> A"
  shows "acceptor_start_accept E i w = Some (Inl Bad_alloc) \<or>
    (\<exists>p c. acceptor_start_accept E i w = Some (Inr (w\<lparr>hist := Malloc (Some p) # hist w,
        heap := (heap w)(p := Some c), ops := ops w @ [(i, Accept_into p)]\<rparr>)) \<and>
      heap w p = None \<and> v_sock c = None \<and>
      inv_v (insert i A) {} (w\<lparr>hist := Malloc (Some p) # hist w,
        heap := (heap w)(p := Some c), ops := ops w @ [(i, Accept_into p)]\<rparr>))"
proof (cases "a_new E (hist w)")
  case None
  then show ?thesis by (simp add: acceptor_start_accept_def)
next
  case (Some pc)
  then obtain p c0 where new: "a_new E (hist w) = Some (p, c0)" by (cases pc) auto
  note d = inv_vD [OF inv]
  define c where "c = c0\<lparr>v_sock := None\<rparr>"
  from asio_env_okD(1) [OF ok new] have free: "heap w p = None" using d(5) [of p] by (cases "heap w p") auto
  let ?w = "w\<lparr>hist := Malloc (Some p) # hist w, heap := (heap w)(p := Some c)\<rparr>"
  have noop: "op_ptr op \<noteq> p" if "(j, op) \<in> set (ops w)" for j op
    using d(2) [of p] free that by auto
  have "inv_v A {p} ?w"
  proof (rule inv_vI)
    show "heap ?w q \<noteq> None \<longleftrightarrow> q \<in> {p} \<or> (\<exists>i op. (i, op) \<in> set (ops ?w) \<and> op_ptr op = q)" for q
      using d(2) [of q] by auto
    show "conn_ok (hist ?w) op b" if "(i, op) \<in> set (ops ?w)" "heap ?w (op_ptr op) = Some b" for i op b
    proof -
      have "conn_ok (hist ?w) op b = conn_ok (hist w) op b"
        by (rule conn_ok_same) simp_all
      with that noop d(4) show ?thesis by (auto split: if_splits)
    qed
    show "q = r" if "heap ?w q = Some a" "heap ?w r = Some b" "v_sock a = Some fd" "v_sock b = Some fd" for q r a b fd
      using that d(7) by (auto simp: c_def split: if_splits)
  qed (use d(1,5,6,8,9) noop in \<open>auto simp: c_def split: if_splits\<close>)
  from inv_async [OF this, of "Accept_into p" c i] i
  have "inv_v (insert i A) {} (async i (Accept_into p) ?w)" by (simp add: conn_ok_def c_def)
  with new free show ?thesis
    by (intro disjI2 exI [of _ p] exI [of _ c]) (simp add: acceptor_start_accept_def emit_def async_def Let_def c_def)
qed


text \<open>Calls on no connection.\<close>

lemma ext_untouched: "ext Os F h h' \<Longrightarrow> f \<notin> F \<Longrightarrow> untouched f h h'"
  by (simp add: untouched_def recvd_ext sent_ext open_fd_ext)

lemma inv_quiet:
  assumes inv: "inv_v A P w" and x: "ext {} {} (hist w) h"
  shows "inv_v A P (w\<lparr>hist := h\<rparr>)"
proof -
  have "conn_ok h op c = conn_ok (hist w) op c" for op c
    by (rule conn_ok_same) (simp_all add: recvd_ext [OF x] sent_ext [OF x])
  with inv allocated_ext [OF x] open_fd_ext [OF x] show ?thesis by (simp add: inv_v_def)
qed

lemma ext_recv_events: "ext {} {fd} h (recv_events fd n bs e h)"
  by (auto simp: recv_events_def Let_def about_def ev_fd_def init_ok_def intro!: ext.intros split: error_code.split)

lemma ext_send_events: "ext {} {fd} h (send_events fd bs k e h)"
  by (auto simp: send_events_def Let_def about_def ev_fd_def init_ok_def intro!: ext.intros split: error_code.split)

section \<open>The abstract server\<close>

text \<open>
  The queues of the connected clients, read off the server's own memory: the bytes of the
  buffer that the pending operation of the connection is to write. A read has none.
\<close>

fun op_queue :: "async_v \<Rightarrow> connection \<Rightarrow> byte list" where
  "op_queue (Write p n) c = arr_slice (v_data c) 0 n"
| "op_queue _ c = []"

definition queues_v :: "world_v \<Rightarrow> (int \<times> byte list) list" where
  "queues_v w = concat (map (\<lambda>(i, op). case heap w (op_ptr op) of
       Some c \<Rightarrow> (case v_sock c of Some fd \<Rightarrow> [(fd, op_queue op c)] | None \<Rightarrow> [])
     | None \<Rightarrow> []) (ops w))"

definition abs_v :: "world_v \<Rightarrow> echo_spec" where
  "abs_v w = map_of (queues_v w)"

text \<open>What the calls made so far say is owed to each of them: what came and was not sent back.\<close>

definition owed_v :: "world_v \<Rightarrow> echo_spec" where
  "owed_v w fd = (if \<exists>p c. heap w p = Some c \<and> v_sock c = Some fd
     then Some (drop (length (sent (hist w) fd)) (recvd (hist w) fd)) else None)"

lemma queues_v_iff:
  "(fd, q) \<in> set (queues_v w) \<longleftrightarrow> (\<exists>i op c. (i, op) \<in> set (ops w) \<and> heap w (op_ptr op) = Some c \<and>
     v_sock c = Some fd \<and> q = op_queue op c)"
  by (force simp: queues_v_def split: option.splits)

text \<open>The buffers hold exactly what is owed.\<close>

lemma abs_v_owed:
  assumes inv: "inv_v A {} w"
  shows "abs_v w = owed_v w"
proof
  fix fd
  have queue: "q = drop (length (sent (hist w) fd)) (recvd (hist w) fd)" if "(fd, q) \<in> set (queues_v w)" for q
  proof -
    from that obtain i op c where "(i, op) \<in> set (ops w)" "heap w (op_ptr op) = Some c" "v_sock c = Some fd"
      "q = op_queue op c" by (auto simp: queues_v_iff)
    with inv_vD(4) [OF inv this(1,2)] show ?thesis by (cases op) (auto simp: conn_ok_def)
  qed
  show "abs_v w fd = owed_v w fd"
  proof (cases "\<exists>p c. heap w p = Some c \<and> v_sock c = Some fd")
    case True
    then obtain p c where c: "heap w p = Some c" "v_sock c = Some fd" by blast
    with inv_vD(2) [OF inv, of p] obtain i op where "(i, op) \<in> set (ops w)" "op_ptr op = p" by auto
    with c have "(fd, op_queue op c) \<in> set (queues_v w)" unfolding queues_v_iff by blast
    then have "fd \<in> fst ` set (queues_v w)" by force
    then obtain q where q: "map_of (queues_v w) fd = Some q"
      using map_of_eq_None_iff [of "queues_v w" fd] by (cases "map_of (queues_v w) fd") auto
    from queue [OF map_of_SomeD [OF q]] q True show ?thesis by (simp add: abs_v_def owed_v_def)
  next
    case False
    then have "fd \<notin> fst ` set (queues_v w)" by (auto simp: queues_v_iff)
    then have "map_of (queues_v w) fd = None" by (simp add: map_of_eq_None_iff)
    with False show ?thesis by (simp add: abs_v_def owed_v_def)
  qed
qed

lemma abs_own:
  assumes "heap w' = (heap w)(p := Some c')" and "v_sock c' = Some fd"
    and "ext {} {fd} (hist w) (hist w')" and "\<And>c f. heap w p = Some c \<Longrightarrow> v_sock c = Some f \<Longrightarrow> f = fd"
  shows "owed_v w' = (owed_v w)(fd \<mapsto> drop (length (sent (hist w') fd)) (recvd (hist w') fd))"
proof
  fix f
  have "(\<exists>q c. heap w' q = Some c \<and> v_sock c = Some f) \<longleftrightarrow> (\<exists>q c. heap w q = Some c \<and> v_sock c = Some f)"
    if "f \<noteq> fd"
    using that assms by (auto split: if_splits) (metis (no_types, lifting))
  then show "owed_v w' f = ((owed_v w)(fd \<mapsto> drop (length (sent (hist w') fd)) (recvd (hist w') fd))) f"
    using assms recvd_ext [OF assms(3), of f] sent_ext [OF assms(3), of f] by (auto simp: owed_v_def)
qed

lemma abs_same:
  assumes "\<And>fd. (\<exists>q c. heap w' q = Some c \<and> v_sock c = Some fd) \<longleftrightarrow> (\<exists>q c. heap w q = Some c \<and> v_sock c = Some fd)"
    and "ext Os {} (hist w) (hist w')"
  shows "owed_v w' = owed_v w"
  using assms(1) recvd_ext [OF assms(2)] sent_ext [OF assms(2)] by (simp add: owed_v_def fun_eq_iff)

lemma abs_delete:
  assumes inv: "inv_v A P w" and p: "heap w p = Some c"
    and w': "heap w' = (heap w)(p := None)" "hist w' = Free p # (case v_sock c of Some fd \<Rightarrow> [Close fd] | None \<Rightarrow> []) @ hist w"
  shows "owed_v w' = (case v_sock c of Some fd \<Rightarrow> (owed_v w)(fd := None) | None \<Rightarrow> owed_v w)"
proof
  fix f
  have "recvd (hist w') f = recvd (hist w) f" "sent (hist w') f = sent (hist w) f"
    unfolding w'(2) by (auto split: option.split)
  moreover have "(\<exists>q d. heap w' q = Some d \<and> v_sock d = Some f) \<longleftrightarrow>
      (\<exists>q d. heap w q = Some d \<and> v_sock d = Some f) \<and> v_sock c \<noteq> Some f"
    using p inv_vD(7) [OF inv p] by (auto simp: w'(1) split: if_splits) (metis option.inject)
  ultimately show "owed_v w' f = (case v_sock c of Some fd \<Rightarrow> (owed_v w)(fd := None) | None \<Rightarrow> owed_v w) f"
    by (auto simp: owed_v_def split: option.split)
qed

end
