(* ===== verification/CppServerRun.thy ===== *)
theory CppServerRun
  imports CppServerInv
begin

text \<open>
  The completion of each kind of operation of \<^verbatim>\<open>server.cc\<close>: what it does, that it keeps the
  invariant, and which step of the abstract echo server it is. From this \<open>asio_program\<close> is
  interpreted on the program.
\<close>

abbreviation accepting :: "world_v \<Rightarrow> nat set" where
  "accepting w \<equiv> {i. servers w i \<noteq> None}"

text \<open>What every completion gives: the invariant again, and a step of the abstract server.\<close>

definition echo_ok :: "world_v \<Rightarrow> world_v \<Rightarrow> bool" where
  "echo_ok w w' \<longleftrightarrow> inv_v (accepting w) {} w' \<and> servers w' = servers w \<and>
     (\<exists>lab. echo_step lab (owed_v w) (owed_v w') \<and> echo_obs lab (owed_v w) (hist w) (hist w'))"

lemma finish_simps [simp]:
  "hist (finish i op w) = hist w" "heap (finish i op w) = heap w" "servers (finish i op w) = servers w"
  "ops (finish i op w) = remove1 (i, op) (ops w)" "owed_v (finish i op w') = owed_v w'"
  by (simp_all add: finish_def owed_v_def fun_eq_iff)

lemma async_simps [simp]:
  "hist (async i op w) = hist w" "heap (async i op w) = heap w" "servers (async i op w) = servers w"
  "ops (async i op w) = ops w @ [(i, op)]" "owed_v (async i op w') = owed_v w'"
  by (simp_all add: async_def owed_v_def fun_eq_iff)

text \<open>Deleting a connection while its handler runs is the abstract server closing it.\<close>

lemma delete_echo:
  assumes inv: "inv_v (accepting w) {p} w1" and p: "heap w1 p = Some c" and fd: "v_sock c = Some fd"
    and abs: "owed_v w1 = (owed_v w)(fd \<mapsto> q)" "owed_v w fd = Some q'" and srv: "servers w1 = servers w"
    and x: "ext {} {fd} (hist w) (hist w1)" and io: "recvd (hist w1) fd = recvd (hist w) fd @ inp"
      "sent (hist w1) fd = sent (hist w) fd @ out" "q' @ inp = out @ lost"
  shows "\<exists>w'. connection_delete p w1 = Some w' \<and> echo_ok w w' \<and> heap w' = (heap w1)(p := None) \<and>
    hist w' = Free p # Close fd # hist w1 \<and> ops w' = ops w1"
proof -
  from inv_delete [OF inv p] obtain w' where w': "connection_delete p w1 = Some w'" "inv_v (accepting w) {} w'"
    "ops w' = ops w1" "servers w' = servers w1" "heap w' = (heap w1)(p := None)"
    "hist w' = Free p # (case v_sock c of Some fd \<Rightarrow> [Close fd] | None \<Rightarrow> []) @ hist w1" by blast
  from abs_delete [OF inv p w'(5,6)] fd abs(1) have "owed_v w' = (owed_v w)(fd := None)" by simp
  with closed [of "owed_v w" fd q' inp out lost, OF abs(2) io(3)] have "echo_step (Closed fd inp out) (owed_v w) (owed_v w')" by simp
  moreover have "untouched f (hist w) (hist w')" if "f \<noteq> fd" for f
  proof -
    have "ext {Heap p} {fd} (hist w) (hist w')"
      unfolding w'(6) using fd ext_mono [OF x, of "{Heap p}" "{fd}"]
      by (auto simp: about_def ev_fd_def init_ok_def intro!: ext.intros)
    then show ?thesis using that by (simp add: ext_untouched)
  qed
  then have "echo_obs (Closed fd inp out) (owed_v w) (hist w) (hist w')"
    using w'(6) fd io(1,2) by (auto simp: echo_obs_def)
  ultimately show ?thesis using w' fd srv unfolding echo_ok_def by (intro exI [of _ w']) auto
qed

lemma read_run:
  assumes inv: "inv_v (accepting w) {} w" and op: "(i, Read_some p) \<in> set (ops w)"
    and bs: "length bs \<le> MAX_LENGTH" "e = Success \<longleftrightarrow> bs \<noteq> []"
  shows "\<exists>c fd w'. heap w p = Some c \<and> v_sock c = Some fd \<and>
    run_v E i (Read_some p) (R_read bs e) (finish i (Read_some p) w) = Some (Inr w') \<and> echo_ok w w' \<and>
    (if bs \<noteq> [] then heap w' = (heap w)(p := Some (c\<lparr>v_data := arr_store (v_data c) 0 bs\<rparr>)) \<and>
       ops w' = remove1 (i, Read_some p) (ops w) @ [(i, Write p (length bs))] \<and> recvd (hist w') fd = recvd (hist w) fd @ bs
     else heap w' = (heap w)(p := None) \<and> \<not> open_fd (hist w') fd \<and> ops w' = remove1 (i, Read_some p) (ops w))"
proof -
  obtain c fd where c: "heap w p = Some c" "v_sock c = Some fd"
    and eq: "recvd (hist w) fd = sent (hist w) fd"
    by (rule inv_v_conn [OF inv op]) (auto simp: conn_ok_def)
  define h where "h = recv_events fd (word_of_nat MAX_LENGTH) bs e (hist w)"
  define c1 where "c1 = c\<lparr>v_data := arr_store (v_data c) 0 bs\<rparr>"
  define w1 where "w1 = (finish i (Read_some p) w)\<lparr>hist := h, heap := (heap w)(p := Some c1)\<rparr>"
  have x: "ext {} {fd} (hist w) h" unfolding h_def by (rule ext_recv_events)
  have "inv_v (accepting w) {p} (finish i (Read_some p) w)" using inv_finish [OF inv op] by simp
  from inv_own [OF this, of c fd h c1] c x inv_vD(6) [OF inv c]
  have inv1: "inv_v (accepting w) {p} w1" by (simp add: w1_def c1_def h_def)
  have "owed_v w1 = (owed_v w)(fd \<mapsto> drop (length (sent (hist w1) fd)) (recvd (hist w1) fd))"
    by (rule abs_own [where p = p and c' = c1]) (use c x in \<open>simp_all add: w1_def c1_def\<close>)
  then have abs1: "owed_v w1 = (owed_v w)(fd \<mapsto> bs)" by (simp add: w1_def h_def eq)
  have abs0: "owed_v w fd = Some []" using c by (auto simp: owed_v_def eq)
  have heap1: "heap w1 p = Some c1" "v_sock c1 = Some fd" by (simp_all add: w1_def c1_def c)
  have run: "run_v E i (Read_some p) (R_read bs e) (finish i (Read_some p) w) =
      Option.bind (connection_read i p e (length bs) w1) (\<lambda>w. Some (Inr w))"
    using c bs(1) by (simp add: run_v_def load_def store_def Let_def arr_write_def w1_def h_def c1_def)
  show ?thesis
  proof (cases "bs = []")
    case True
    with abs1 have "owed_v w1 = (owed_v w)(fd \<mapsto> [])" by simp
    note abs = this abs0
    have io: "servers w1 = servers w" "ext {} {fd} (hist w) (hist w1)" "recvd (hist w1) fd = recvd (hist w) fd @ []"
      "sent (hist w1) fd = sent (hist w) fd @ []" "[] @ [] = [] @ ([] :: byte list)"
      using x True by (simp_all add: w1_def h_def)
    from delete_echo [OF inv1 heap1 abs io] obtain w' where w': "connection_delete p w1 = Some w'" "echo_ok w w'"
      "heap w' = (heap w1)(p := None)" "hist w' = Free p # Close fd # hist w1" "ops w' = ops w1" by blast
    show ?thesis
      using w' True bs(2) c run
      by (intro exI [of _ c] exI [of _ fd] exI [of _ w']) (simp add: connection_read_def w1_def)
  next
    case False
    define w' where "w' = async i (Write p (length bs)) w1"
    have ok: "conn_ok (hist w1) (Write p (length bs)) c1"
      using False bs(1) heap1(2) arr_slice_store_same [of "v_data c" 0 bs]
      by (simp add: conn_ok_def w1_def h_def eq c1_def)
    from inv_async [OF inv1 _ heap1(1) ok] have "inv_v (accepting w) {} w'" by (simp add: w'_def)
    moreover have "echo_step (Echoed fd bs []) (owed_v w) (owed_v w')"
      using echoed [of "owed_v w" fd "[]" bs "[]" bs] abs0 by (simp add: w'_def abs1)
    moreover have "echo_obs (Echoed fd bs []) (owed_v w) (hist w) (hist w')"
      using x inv_vD(6) [OF inv c] ext_untouched [OF x] by (auto simp: echo_obs_def w'_def w1_def h_def)
    ultimately have "echo_ok w w'" unfolding echo_ok_def by (auto simp: w'_def w1_def)
    moreover have "connection_read i p e (length bs) w1 = Some w'"
      using False bs(2) heap1(1) by (simp add: connection_read_def load_def w'_def)
    ultimately show ?thesis using False c run
      by (intro exI [of _ c] exI [of _ fd] exI [of _ w']) (simp add: w'_def w1_def c1_def h_def)
  qed
qed

lemma write_run:
  assumes inv: "inv_v (accepting w) {} w" and op: "(i, Write p n) \<in> set (ops w)"
    and k: "k \<le> n" "e = Success \<longleftrightarrow> k = n"
  shows "\<exists>c fd w'. heap w p = Some c \<and> v_sock c = Some fd \<and>
    run_v E i (Write p n) (R_write k e) (finish i (Write p n) w) = Some (Inr w') \<and> echo_ok w w' \<and>
    sent (hist w') fd = sent (hist w) fd @ take k (arr_slice (v_data c) 0 n) \<and>
    (if k = n then heap w' = heap w \<and> ops w' = remove1 (i, Write p n) (ops w) @ [(i, Read_some p)] \<and>
       sent (hist w') fd = recvd (hist w') fd
     else heap w' = (heap w)(p := None) \<and> \<not> open_fd (hist w') fd \<and> ops w' = remove1 (i, Write p n) (ops w))"
proof -
  obtain c fd where c: "heap w p = Some c" "v_sock c = Some fd"
    and n: "0 < n" "n \<le> MAX_LENGTH" and eq: "recvd (hist w) fd = sent (hist w) fd @ arr_slice (v_data c) 0 n"
    by (rule inv_v_conn [OF inv op]) (auto simp: conn_ok_def)
  let ?bs = "arr_slice (v_data c) 0 n"
  define h where "h = send_events fd ?bs k e (hist w)"
  define w1 where "w1 = (finish i (Write p n) w)\<lparr>hist := h, heap := (heap w)(p := Some c)\<rparr>"
  have x: "ext {} {fd} (hist w) h" unfolding h_def by (rule ext_send_events)
  have hp: "(heap w)(p := Some c) = heap w" using c(1) by (rule fun_upd_idem)
  have w1: "w1 = (finish i (Write p n) w)\<lparr>hist := h\<rparr>"
    by (cases w) (use hp in \<open>simp add: w1_def finish_def\<close>)
  have "inv_v (accepting w) {p} (finish i (Write p n) w)" using inv_finish [OF inv op] by simp
  from inv_own [OF this, of c fd h c] c x inv_vD(6) [OF inv c]
  have inv1: "inv_v (accepting w) {p} w1" by (simp add: w1_def h_def)
  have "owed_v w1 = (owed_v w)(fd \<mapsto> drop (length (sent (hist w1) fd)) (recvd (hist w1) fd))"
    by (rule abs_own [where p = p and c' = c]) (use c x in \<open>simp_all add: w1_def\<close>)
  then have abs1: "owed_v w1 = (owed_v w)(fd \<mapsto> drop k ?bs)" using k(1) by (simp add: w1_def h_def eq)
  have abs0: "owed_v w fd = Some ?bs" using c by (auto simp: owed_v_def eq)
  have heap1: "heap w1 p = Some c" by (simp add: w1_def)
  have run: "run_v E i (Write p n) (R_write k e) (finish i (Write p n) w) =
      Option.bind (connection_write i p e w1) (\<lambda>w. Some (Inr w))"
    using c n by (simp add: run_v_def load_def arr_read_def w1 h_def)
  show ?thesis
  proof (cases "k = n")
    case False
    have "servers w1 = servers w" "ext {} {fd} (hist w) (hist w1)" "recvd (hist w1) fd = recvd (hist w) fd @ []"
      "sent (hist w1) fd = sent (hist w) fd @ take k ?bs" "?bs @ [] = take k ?bs @ drop k ?bs"
      using x k(1) by (simp_all add: w1_def h_def)
    from delete_echo [OF inv1 heap1 c(2) abs1 abs0 this] obtain w' where w': "connection_delete p w1 = Some w'"
      "echo_ok w w'" "heap w' = (heap w1)(p := None)" "hist w' = Free p # Close fd # hist w1" "ops w' = ops w1"
      by (auto simp: w1_def)
    then show ?thesis
      using False k(2) c run
      by (intro exI [of _ c] exI [of _ fd] exI [of _ w']) (simp add: connection_write_def w1_def h_def)
  next
    case True
    define w' where "w' = async i (Read_some p) w1"
    have "conn_ok (hist w1) (Read_some p) c"
      using c True by (simp add: conn_ok_def w1_def h_def eq)
    from inv_async [OF inv1 _ heap1 this] have "inv_v (accepting w) {} w'" by (simp add: w'_def)
    moreover have "echo_step (Echoed fd [] ?bs) (owed_v w) (owed_v w')"
      using echoed [of "owed_v w" fd ?bs "[]" ?bs "[]"] abs0 True by (simp add: w'_def abs1)
    moreover have "echo_obs (Echoed fd [] ?bs) (owed_v w) (hist w) (hist w')"
      using True inv_vD(6) [OF inv c] ext_untouched [OF x] by (auto simp: echo_obs_def w'_def w1_def h_def)
    ultimately have "echo_ok w w'" unfolding echo_ok_def by (auto simp: w'_def w1_def)
    moreover have "connection_write i p e w1 = Some w'"
      using True k(2) heap1 by (simp add: connection_write_def connection_start_def load_def w'_def)
    ultimately show ?thesis using True c run
      by (intro exI [of _ c] exI [of _ fd] exI [of _ w']) (simp add: w'_def w1_def h_def hp eq)
  qed
qed


text \<open>
  An accept that fails deletes the connection made for it; in both cases a new one is made
  and the next accept is started, unless there is no memory.
\<close>

lemma accept_run:
  assumes ok: "asio_env_ok E" and inv: "inv_v (accepting w) {} w" and op: "(i, Accept_into p) \<in> set (ops w)"
    and r: "reply_ok_v w (Accept_into p) (R_accept r)"
  shows "run_v E i (Accept_into p) (R_accept r) (finish i (Accept_into p) w) = Some (Inl Bad_alloc) \<or>
    (\<exists>w' q d. run_v E i (Accept_into p) (R_accept r) (finish i (Accept_into p) w) = Some (Inr w') \<and> echo_ok w w' \<and>
       heap w' q = Some d \<and> v_sock d = None \<and> (i, Accept_into q) \<in> set (ops w') \<and>
       (case r of Inl e \<Rightarrow> owed_v w' = owed_v w \<and> ops w' = remove1 (i, Accept_into p) (ops w) @ [(i, Accept_into q)]
        | Inr (fd, a) \<Rightarrow> owed_v w' = (owed_v w)(fd \<mapsto> []) \<and> open_fd (hist w') fd \<and>
            ops w' = remove1 (i, Accept_into p) (ops w) @ [(i, Read_some p), (i, Accept_into q)]))"
proof -
  note d = inv_vD [OF inv]
  obtain c where c: "heap w p = Some c" "v_sock c = None"
    by (rule inv_v_conn [OF inv op]) (auto simp: conn_ok_def)
  from d(8) [of i] op obtain a where a: "servers w i = Some a" by auto
  let ?w = "(finish i (Accept_into p) w)\<lparr>hist := Accept (a_native a) r # hist w\<rparr>"
  let ?A = "accepting w - {i}"
  have A: "insert i ?A = accepting w" using a by auto
  have inv1: "inv_v ?A {p} (finish i (Accept_into p) w)" using inv_finish [OF inv op] by simp
  txt \<open>The new accept, after the connection was given its operation or deleted.\<close>
  have again: "acceptor_start_accept E i v = Some (Inl Bad_alloc) \<or>
      (\<exists>w' q d. acceptor_start_accept E i v = Some (Inr w') \<and> inv_v (accepting w) {} w' \<and> servers w' = servers v \<and>
        heap w' q = Some d \<and> v_sock d = None \<and> ops w' = ops v @ [(i, Accept_into q)] \<and> owed_v w' = owed_v v \<and>
        hist w' = Malloc (Some q) # hist v)"
    if v: "inv_v ?A {} v" for v
  proof -
    have "i \<notin> ?A" by simp
    from inv_new [OF v ok this] consider (fail) "acceptor_start_accept E i v = Some (Inl Bad_alloc)"
      | (new) q b where "acceptor_start_accept E i v = Some (Inr (v\<lparr>hist := Malloc (Some q) # hist v,
          heap := (heap v)(q := Some b), ops := ops v @ [(i, Accept_into q)]\<rparr>))"
        "heap v q = None" "v_sock b = None"
        "inv_v (insert i ?A) {} (v\<lparr>hist := Malloc (Some q) # hist v, heap := (heap v)(q := Some b),
          ops := ops v @ [(i, Accept_into q)]\<rparr>)" by blast
    then show ?thesis
    proof cases
      case fail
      then show ?thesis by simp
    next
      case w': new
      let ?w' = "v\<lparr>hist := Malloc (Some q) # hist v, heap := (heap v)(q := Some b), ops := ops v @ [(i, Accept_into q)]\<rparr>"
      have "ext {Heap q} {} (hist v) (Malloc (Some q) # hist v)"
        by (auto simp: about_def ev_fd_def init_ok_def intro!: ext.intros)
      moreover have "(\<exists>r e. heap ?w' r = Some e \<and> v_sock e = Some fd) \<longleftrightarrow> (\<exists>r e. heap v r = Some e \<and> v_sock e = Some fd)" for fd
        using w'(2,3) by auto (metis option.distinct(1))
      ultimately have "owed_v ?w' = owed_v v" by (intro abs_same) auto
      with w' A show ?thesis by (intro disjI2 exI [of _ ?w'] exI [of _ q] exI [of _ b]) simp
    qed
  qed
  show ?thesis
  proof (cases r)
    case (Inl e)
    have x: "ext {} {} (hist w) (Accept (a_native a) (Inl e) # hist w)"
      by (auto simp: about_def ev_fd_def init_ok_def intro!: ext.intros)
    with inv_quiet [OF inv1] Inl have inv2: "inv_v ?A {p} ?w" by simp
    from inv_delete [OF this] c obtain w2 where w2: "connection_delete p ?w = Some w2" "inv_v ?A {} w2"
      "ops w2 = remove1 (i, Accept_into p) (ops w)" "servers w2 = servers w" "heap w2 = (heap w)(p := None)"
      "hist w2 = Free p # Accept (a_native a) (Inl e) # hist w" by (auto simp: Inl)
    have run: "run_v E i (Accept_into p) (R_accept r) (finish i (Accept_into p) w) = acceptor_start_accept E i w2"
      using c a w2(1) Inl by (simp add: run_v_def load_def emit_def acceptor_accept_def)
    have "owed_v w2 = owed_v ?w"
      using abs_delete [OF inv2, where p = p and c = c and w' = w2] c w2(5,6) Inl by simp
    also have "\<dots> = owed_v w" using x Inl by (intro abs_same) auto
    finally have abs: "owed_v w2 = owed_v w" .
    from again [OF w2(2)] show ?thesis
    proof
      assume "acceptor_start_accept E i w2 = Some (Inl Bad_alloc)"
      with run show ?thesis by simp
    next
      assume "\<exists>w' q d. acceptor_start_accept E i w2 = Some (Inr w') \<and> inv_v (accepting w) {} w' \<and> servers w' = servers w2 \<and>
        heap w' q = Some d \<and> v_sock d = None \<and> ops w' = ops w2 @ [(i, Accept_into q)] \<and> owed_v w' = owed_v w2 \<and>
        hist w' = Malloc (Some q) # hist w2"
      then obtain w' q b where w': "acceptor_start_accept E i w2 = Some (Inr w')" "inv_v (accepting w) {} w'"
        "servers w' = servers w2" "heap w' q = Some b" "v_sock b = None" "ops w' = ops w2 @ [(i, Accept_into q)]"
        "owed_v w' = owed_v w2" "hist w' = Malloc (Some q) # hist w2" by blast
      have "ext {Heap p, Heap q} {} (hist w) (hist w')"
        unfolding w'(8) w2(6) by (auto simp: about_def ev_fd_def init_ok_def intro!: ext.intros)
      then have un: "untouched f (hist w) (hist w')" for f by (rule ext_untouched) simp
      have "echo_ok w w'" unfolding echo_ok_def
        using w' w2(4) abs idle un by (intro conjI exI [of _ Idle]) (simp_all add: echo_obs_def)
      with run w' w2(3) abs Inl show ?thesis by (intro disjI2 exI [of _ w'] exI [of _ q] exI [of _ b]) simp
    qed
  next
    case (Inr fa)
    then obtain fd ad where fd: "r = Inr (fd, ad)" by (cases fa) auto
    from r fd have new: "\<not> open_fd (hist w) fd" by (simp add: reply_ok_v_def)
    define c1 where "c1 = c\<lparr>v_sock := Some fd\<rparr>"
    define h where "h = Accept (a_native a) (Inr (fd, ad)) # hist w"
    define w1 where "w1 = (finish i (Accept_into p) w)\<lparr>hist := h, heap := (heap w)(p := Some c1)\<rparr>"
    have x: "ext {} {fd} (hist w) h"
      by (auto simp: h_def about_def ev_fd_def init_ok_def intro!: ext.intros)
    from inv_own [OF inv1, of c fd h c1] c(1) x new have inv2: "inv_v ?A {p} w1" by (simp add: w1_def c1_def h_def)
    define w2 where "w2 = async i (Read_some p) w1"
    have "heap w1 p = Some c1" "conn_ok (hist w1) (Read_some p) c1"
      by (simp_all add: w1_def conn_ok_def c1_def h_def)
    from inv_async [OF inv2 _ this] have inv3: "inv_v ?A {} w2" by (simp add: w2_def)
    have run: "run_v E i (Accept_into p) (R_accept r) (finish i (Accept_into p) w) = acceptor_start_accept E i w2"
      using c a fd
      by (simp add: run_v_def load_def store_def emit_def acceptor_accept_def connection_start_def w2_def w1_def c1_def h_def)
    have "owed_v w1 = (owed_v w)(fd \<mapsto> drop (length (sent (hist w1) fd)) (recvd (hist w1) fd))"
      by (rule abs_own [where p = p and c' = c1]) (use c x in \<open>simp_all add: w1_def c1_def\<close>)
    then have abs: "owed_v w2 = (owed_v w)(fd \<mapsto> [])" by (simp add: w2_def w1_def h_def)
    have abs0: "owed_v w fd = None" using d(6) new by (auto simp: owed_v_def)
    from again [OF inv3] show ?thesis
    proof
      assume "acceptor_start_accept E i w2 = Some (Inl Bad_alloc)"
      with run show ?thesis by simp
    next
      assume "\<exists>w' q d. acceptor_start_accept E i w2 = Some (Inr w') \<and> inv_v (accepting w) {} w' \<and> servers w' = servers w2 \<and>
        heap w' q = Some d \<and> v_sock d = None \<and> ops w' = ops w2 @ [(i, Accept_into q)] \<and> owed_v w' = owed_v w2 \<and>
        hist w' = Malloc (Some q) # hist w2"
      then obtain w' q b where w': "acceptor_start_accept E i w2 = Some (Inr w')" "inv_v (accepting w) {} w'"
        "servers w' = servers w2" "heap w' q = Some b" "v_sock b = None" "ops w' = ops w2 @ [(i, Accept_into q)]"
        "owed_v w' = owed_v w2" "hist w' = Malloc (Some q) # hist w2" by blast
      have "ext {Heap q} {fd} (hist w) (hist w')"
        using ext_mono [OF x, of "{Heap q}" "{fd}"]
        by (auto simp: w'(8) w2_def w1_def about_def ev_fd_def init_ok_def intro!: ext.intros)
      then have "untouched f (hist w) (hist w')" if "f \<noteq> fd" for f using that by (simp add: ext_untouched)
      then have "echo_obs (Opened fd) (owed_v w) (hist w) (hist w')"
        by (auto simp: echo_obs_def w'(8) w2_def w1_def h_def)
      then have "echo_ok w w'" unfolding echo_ok_def
        using w' abs abs0 opened [of "owed_v w" fd]
        by (intro conjI exI [of _ "Opened fd"]) (simp_all add: w2_def w1_def)
      with run w' abs fd show ?thesis
        by (intro disjI2 exI [of _ w'] exI [of _ q] exI [of _ b]) (simp add: w2_def w1_def h_def)
    qed
  qed
qed

end
