(* ===== verification/CppServerProps.thy ===== *)
theory CppServerProps
  imports CppServerRun AsioDemo
begin

text \<open>
  What holds of \<^verbatim>\<open>server.cc\<close>: no completion is undefined, the program refines the abstract
  echo server, and what its threads accept on. Then a run on a concrete environment, whose
  states are the inputs of the witnesses, and the properties.
\<close>

section \<open>Starting\<close>

lemma start_threads_hist:
  "start_threads E fd i k w = Inr w' \<Longrightarrow>
     \<exists>h. w' = w\<lparr>hist := h @ hist w\<rparr> \<and> set h = {Pthread_create j fd 0 |j. i \<le> j \<and> j < i + k}"
proof (induction k arbitrary: i w)
  case 0
  then show ?case by (intro exI [of _ "[]"]) auto
next
  case (Suc k)
  then have "start_threads E fd (i + 1) k (emit (Pthread_create i fd 0) w) = Inr w'"
    by (auto split: option.splits)
  from Suc.IH [OF this] obtain h where h: "w' = (emit (Pthread_create i fd 0) w)\<lparr>hist := h @ hist (emit (Pthread_create i fd 0) w)\<rparr>"
    "set h = {Pthread_create j fd 0 |j. i + 1 \<le> j \<and> j < i + 1 + k}" by blast
  moreover have "{Pthread_create j fd 0 |j. i \<le> j \<and> j < i + Suc k} =
      insert (Pthread_create i fd 0) {Pthread_create j fd 0 |j. i + 1 \<le> j \<and> j < i + 1 + k}"
    by (auto simp: le_less Suc_le_eq)
  ultimately show ?case by (intro exI [of _ "h @ [Pthread_create i fd 0]"]) (simp add: emit_def)
qed

text \<open>What \<open>main\<close> has done when it sleeps.\<close>

lemma main_v_hist:
  assumes "fresh_world w0" and "main_v E argv w0 = Some (Inr (Running w))"
  shows "\<exists>fd pn n h. atoi (argv ! 1) = Some pn \<and>
    (if 2 < length argv then map_option word_of_int (atoi (argv ! 2)) else Some 24) = Some (n :: size_t) \<and>
    a_acceptor E [] (word_of_int pn) = Inr fd \<and>
    hist w = Cpp (Sleep (0 - 1)) # h @
      [Bind fd \<lparr>sin_family = AF_INET, sin_addr = [0, 0, 0, 0], sin_port = htons (uint (word_of_int pn :: 16 word))\<rparr> (Inr 0),
       Socket AF_INET SOCK_STREAM 0 (Inr fd)] \<and>
    set h = {Pthread_create j fd 0 |j. j < unat n} \<and> heap w = heap w0 \<and> servers w = servers w0 \<and> ops w = ops w0"
proof -
  from assms(2) have "2 \<le> length argv" by (auto simp: main_v_def split: if_splits)
  with assms obtain pn n fd w1 where m: "atoi (argv ! 1) = Some pn"
    "(if 2 < length argv then map_option word_of_int (atoi (argv ! 2)) else Some 24) = Some (n :: size_t)"
    "a_acceptor E [] (word_of_int pn) = Inr fd"
    and t: "start_threads E fd 0 (unat n) (emit (Bind fd \<lparr>sin_family = AF_INET, sin_addr = [0, 0, 0, 0],
        sin_port = htons (uint (word_of_int pn :: 16 word))\<rparr> (Inr 0)) (emit (Socket AF_INET SOCK_STREAM 0 (Inr fd)) w0)) = Inr w1"
    and w: "w = emit (Cpp (Sleep (0 - 1))) w1"
    by (auto simp: main_v_def bind_some fresh_world_def Let_def simp del: One_nat_def split: if_splits sum.splits)
  from start_threads_hist [OF t] m w assms(1) show ?thesis
    by (auto simp: emit_def fresh_world_def intro!: exI [of _ fd] exI [of _ pn] exI [of _ n])
qed

lemma start_v_inv:
  assumes "start_v E w"
  shows "inv_v (accepting w) {} w \<and> (\<forall>i. servers w i = None)"
proof -
  from assms obtain argv w0 where "fresh_world w0" "ops w0 = []" "main_v E argv w0 = Some (Inr (Running w))"
    by (auto simp: start_v_def)
  with main_v_hist [OF this(1,3)] have "heap w = (\<lambda>_. None)" "servers w = (\<lambda>_. None)" "ops w = []"
    by (auto simp: fresh_world_def)
  then show ?thesis by (simp add: inv_v_def)
qed

text \<open>A thread takes its acceptor and starts to accept.\<close>

lemma spawn_v_run:
  assumes "asio_env_ok E" and inv: "inv_v (accepting w) {} w" and "spawn_v E w w'"
  obtains i fd p c where "Pthread_create i fd 0 \<in> set (hist w)" and "servers w i = None"
    and "w' = w\<lparr>servers := (servers w)(i := Some \<lparr>a_native = uint (word_of_int fd :: 16 word)\<rparr>),
        hist := Malloc (Some p) # hist w, heap := (heap w)(p := Some c), ops := ops w @ [(i, Accept_into p)]\<rparr>"
    and "inv_v (accepting w') {} w'" and "owed_v w' = owed_v w"
proof -
  from assms(3) obtain i fd where i: "Pthread_create i fd 0 \<in> set (hist w)" "servers w i = None"
    and run: "servicing_v E i (word_of_int fd) w = Some (Inr w')" by (auto simp: spawn_v_def)
  let ?w = "w\<lparr>servers := (servers w)(i := Some \<lparr>a_native = uint (word_of_int fd :: 16 word)\<rparr>)\<rparr>"
  from run have "acceptor_start_accept E i ?w = Some (Inr w')"
    by (auto simp: servicing_v_def split: option.splits)
  moreover have inv1: "inv_v (accepting w) {} ?w" using inv by (simp add: inv_v_def)
  moreover have "i \<notin> accepting w" using i(2) by simp
  ultimately obtain p c where w': "w' = ?w\<lparr>hist := Malloc (Some p) # hist w, heap := (heap w)(p := Some c),
        ops := ops w @ [(i, Accept_into p)]\<rparr>"
    and new: "heap w p = None" "v_sock c = None" and inv': "inv_v (insert i (accepting w)) {} w'"
    using inv_new [OF inv1 assms(1), of i] by auto
  have "accepting w' = insert i (accepting w)" by (auto simp: w')
  with inv' have "inv_v (accepting w') {} w'" by simp
  moreover have "owed_v w' = owed_v w"
  proof (rule abs_same)
    show "ext {Heap p} {} (hist w) (hist w')"
      by (auto simp: w' about_def ev_fd_def init_ok_def intro!: ext.intros)
    show "(\<exists>q c. heap w' q = Some c \<and> v_sock c = Some fd) = (\<exists>q c. heap w q = Some c \<and> v_sock c = Some fd)" for fd
      using new by (auto simp: w') (metis option.distinct(1))
  qed
  ultimately show thesis using i w' by (intro that [of i fd p c]) simp_all
qed

interpretation v: asio_program run_v reply_ok_v spawn_v start_v asio_env_ok "\<lambda>w. inv_v (accepting w) {} w" "{Bad_alloc}"
proof unfold_locales
  fix E w
  assume "start_v E w"
  then show "inv_v (accepting w) {} w" using start_v_inv by blast
next
  fix E w w'
  assume "asio_env_ok E" and "inv_v (accepting w) {} w" and "spawn_v E w w'"
  then show "inv_v (accepting w') {} w'" by (rule spawn_v_run) blast
next
  fix E :: "connection asio_env" and w i op r
  assume ok: "asio_env_ok E" and inv: "inv_v (accepting w) {} w" and op: "(i, op) \<in> set (ops w)"
    and r: "reply_ok_v w op r"
  have echo: "inv_v (accepting w') {} w'" if "echo_ok w w'" for w'
    using that by (simp add: echo_ok_def)
  show "(\<exists>e\<in>{Bad_alloc}. run_v E i op r (finish i op w) = Some (Inl e)) \<or>
      (\<exists>w'. run_v E i op r (finish i op w) = Some (Inr w') \<and> inv_v (accepting w') {} w')"
  proof (cases op)
    case (Read_some p)
    with r obtain bs e where r': "r = R_read bs e" "length bs \<le> MAX_LENGTH" "e = Success \<longleftrightarrow> bs \<noteq> []"
      by (cases r) (auto simp: reply_ok_v_def)
    from read_run [OF inv op [unfolded Read_some] r'(2,3), of E] Read_some r'(1) echo show ?thesis by blast
  next
    case (Write p n)
    with r obtain k e where r': "r = R_write k e" "k \<le> n" "e = Success \<longleftrightarrow> k = n"
      by (cases r) (auto simp: reply_ok_v_def)
    from write_run [OF inv op [unfolded Write] r'(2,3), of E] Write r'(1) echo show ?thesis by blast
  next
    case (Accept_into p)
    with r obtain a where r': "r = R_accept a" by (cases r) (auto simp: reply_ok_v_def)
    with accept_run [OF ok inv op [unfolded Accept_into] r [unfolded Accept_into r']] Accept_into echo show ?thesis by blast
  qed
qed

abbreviation reach_v :: "connection asio_env \<Rightarrow> world_v \<Rightarrow> bool" where
  "reach_v E \<equiv> asio_reach (run_v E) reply_ok_v (spawn_v E) (start_v E)"

lemma step_echo:
  assumes ok: "asio_env_ok E" and inv: "inv_v (accepting w) {} w" and step: "asio_step (run_v E) reply_ok_v w w'"
  shows "echo_ok w w'"
proof -
  from step obtain i op r where op: "(i, op) \<in> set (ops w)" and r: "reply_ok_v w op r"
    and w': "run_v E i op r (finish i op w) = Some (Inr w')" by (auto elim: asio_stepE)
  show ?thesis
  proof (cases op)
    case (Read_some p)
    with r obtain bs e where r': "r = R_read bs e" "length bs \<le> MAX_LENGTH" "e = Success \<longleftrightarrow> bs \<noteq> []"
      by (cases r) (auto simp: reply_ok_v_def)
    from read_run [OF inv op [unfolded Read_some] r'(2,3), of E] Read_some r'(1) w' show ?thesis by auto
  next
    case (Write p n)
    with r obtain k e where r': "r = R_write k e" "k \<le> n" "e = Success \<longleftrightarrow> k = n"
      by (cases r) (auto simp: reply_ok_v_def)
    from write_run [OF inv op [unfolded Write] r'(2,3), of E] Write r'(1) w' show ?thesis by auto
  next
    case (Accept_into p)
    with r obtain a where r': "r = R_accept a" by (cases r) (auto simp: reply_ok_v_def)
    from accept_run [OF ok inv op [unfolded Accept_into] r [unfolded Accept_into r']] Accept_into r' w' show ?thesis by auto
  qed
qed


text \<open>No completion creates a thread, opens a socket other than by accepting, or binds one.\<close>

fun is_setup :: "event \<Rightarrow> bool" where
  "is_setup (Pthread_create i x r) = True"
| "is_setup (Socket d t p r) = True"
| "is_setup (Bind fd a r) = True"
| "is_setup _ = False"

definition same_threads :: "world_v \<Rightarrow> world_v \<Rightarrow> bool" where
  "same_threads w w' \<longleftrightarrow> filter is_setup (hist w') = filter is_setup (hist w)"

lemma same_threads_events [simp]:
  "filter is_setup (recv_events fd n bs e h) = filter is_setup h"
  "filter is_setup (send_events fd bs k e h) = filter is_setup h"
  by (simp_all add: recv_events_def send_events_def Let_def split: error_code.split)

lemma same_threads_delete: "connection_delete p w = Some w' \<Longrightarrow> same_threads w w'"
  by (auto simp: connection_delete_def c_free_def c_close_def emit_def bind_some same_threads_def Let_def
      split: option.splits if_splits)

lemma same_threads_start: "connection_start i p w = Some w' \<Longrightarrow> same_threads w w'"
  by (auto simp: connection_start_def bind_some same_threads_def)

lemma same_threads_read: "connection_read i p e n w = Some w' \<Longrightarrow> same_threads w w'"
  using same_threads_delete [of p w w']
  by (auto simp: connection_read_def bind_some same_threads_def split: if_splits)

lemma same_threads_write: "connection_write i p e w = Some w' \<Longrightarrow> same_threads w w'"
  using same_threads_delete [of p w w'] same_threads_start [of i p w w']
  by (auto simp: connection_write_def split: if_splits)

lemma same_threads_new: "acceptor_start_accept E i w = Some (Inr w') \<Longrightarrow> same_threads w w'"
  by (auto simp: acceptor_start_accept_def emit_def same_threads_def Let_def split: option.splits)

lemma same_threads_accept: "acceptor_accept E i p e w = Some (Inr w') \<Longrightarrow> same_threads w w'"
  using same_threads_delete [of p w] same_threads_start [of i p w] same_threads_new
  by (fastforce simp: acceptor_accept_def bind_some same_threads_def split: if_splits)

lemma step_threads:
  assumes "asio_step (run_v E) reply_ok_v w w'"
  shows "filter is_setup (hist w') = filter is_setup (hist w)"
proof -
  from assms obtain j op re where "run_v E j op re (finish j op w) = Some (Inr w')" by (auto elim: asio_stepE)
  then show ?thesis
  proof (cases op; cases re)
    fix p bs e
    assume "op = Read_some p" "re = R_read bs e" "run_v E j op re (finish j op w) = Some (Inr w')"
    then show ?thesis
      by (auto simp: run_v_def store_def bind_some Let_def same_threads_def split: if_splits dest!: same_threads_read)
  next
    fix p n k e
    assume "op = Write p n" "re = R_write k e" "run_v E j op re (finish j op w) = Some (Inr w')"
    then show ?thesis
      by (auto simp: run_v_def bind_some same_threads_def dest!: same_threads_write)
  next
    fix p a
    assume "op = Accept_into p" "re = R_accept a" "run_v E j op re (finish j op w) = Some (Inr w')"
    then show ?thesis
      by (cases a) (auto simp: run_v_def store_def emit_def bind_some Let_def same_threads_def split: prod.splits if_splits
          dest!: same_threads_accept)
  qed (simp_all add: run_v_def)
qed

section \<open>A run on a concrete environment\<close>

definition blank_v :: connection where
  "blank_v = \<lparr>v_sock = None, v_data = (\<lambda>_. 0)\<rparr>"

abbreviation demo_v :: "connection asio_env" where
  "demo_v \<equiv> demo_asio blank_v"

definition demo_world_v :: world_v where
  "demo_world_v = \<lparr>hist = [], errno = Errno 0, heap = \<lambda>_. None, servers = \<lambda>_. None, loop = 0, ops = []\<rparr>"

definition demo_main_v :: world_v where
  "demo_main_v = demo_world_v\<lparr>hist := [Cpp (Sleep (0 - 1)), Pthread_create 0 3 0,
     Bind 3 \<lparr>sin_family = AF_INET, sin_addr = [0, 0, 0, 0], sin_port = htons (uint (7 :: 16 word))\<rparr> (Inr 0),
     Socket AF_INET SOCK_STREAM 0 (Inr 3)]\<rparr>"

definition demo_accepting_v :: world_v where
  "demo_accepting_v = demo_main_v\<lparr>servers := (\<lambda>_. None)(0 := Some \<lparr>a_native = 3\<rparr>),
     hist := Malloc (Some 1) # hist demo_main_v, heap := (\<lambda>_. None)(1 := Some blank_v), ops := [(0, Accept_into 1)]\<rparr>"

definition demo_conn_v :: world_v where
  "demo_conn_v = demo_accepting_v\<lparr>hist := Malloc (Some 2) # Accept 3 (Inr (5, zero_addr)) # hist demo_accepting_v,
     heap := (\<lambda>_. None)(1 := Some (blank_v\<lparr>v_sock := Some 5\<rparr>), 2 := Some blank_v),
     ops := [(0, Read_some 1), (0, Accept_into 2)]\<rparr>"

lemma demo_main_v_run: "main_v demo_v [''server'', ''7'', ''1''] demo_world_v = Some (Inr (Running demo_main_v))"
proof -
  have "atoi ''7'' = Some 7" "atoi ''1'' = Some 1" by (simp_all add: atoi_def is_space_def digit_val_def)
  then show ?thesis
    by (simp add: main_v_def demo_asio_def Let_def emit_def demo_world_v_def demo_main_v_def)
qed

lemma demo_reach_main_v: "reach_v demo_v demo_main_v"
proof -
  have "fresh_world demo_world_v" "ops demo_world_v = []" by (simp_all add: fresh_world_def demo_world_v_def)
  with demo_main_v_run have "start_v demo_v demo_main_v" unfolding start_v_def by blast
  then show ?thesis by (rule asio_start)
qed

lemma demo_spawn_v: "spawn_v demo_v demo_main_v demo_accepting_v"
  unfolding spawn_v_def
  by (intro exI [of _ 0] exI [of _ 3])
     (simp add: servicing_v_def acceptor_start_accept_def demo_asio_def Let_def emit_def async_def
       demo_accepting_v_def demo_main_v_def demo_world_v_def blank_v_def)

lemma demo_reach_accepting_v: "reach_v demo_v demo_accepting_v"
  by (rule asio_spawn [OF demo_reach_main_v demo_spawn_v])

lemma demo_accept_v:
  "run_v demo_v 0 (Accept_into 1) (R_accept (Inr (5, zero_addr))) (finish 0 (Accept_into 1) demo_accepting_v) =
     Some (Inr demo_conn_v)"
  by (simp add: run_v_def load_def store_def acceptor_accept_def connection_start_def acceptor_start_accept_def
      demo_asio_def Let_def emit_def async_def finish_def demo_conn_v_def demo_accepting_v_def demo_main_v_def
      demo_world_v_def blank_v_def)

lemma demo_step_conn_v: "asio_step (run_v demo_v) reply_ok_v demo_accepting_v demo_conn_v"
  by (rule complete [where i = 0 and op = "Accept_into 1" and r = "R_accept (Inr (5, zero_addr))"])
     (simp_all add: demo_accept_v, simp_all add: reply_ok_v_def demo_accepting_v_def demo_main_v_def demo_world_v_def)

lemma demo_reach_conn_v: "reach_v demo_v demo_conn_v"
  by (rule asio_complete [OF demo_reach_accepting_v demo_step_conn_v])

lemma demo_conn_v_simps [simp]:
  "ops demo_conn_v = [(0, Read_some 1), (0, Accept_into 2)]"
  "heap demo_conn_v 1 = Some (blank_v\<lparr>v_sock := Some 5\<rparr>)"
  "servers demo_conn_v 0 = Some \<lparr>a_native = 3\<rparr>"
  by (simp_all add: demo_conn_v_def demo_accepting_v_def)

text \<open>The client sends one byte.\<close>

definition demo_read_v :: world_v where
  "demo_read_v = demo_conn_v\<lparr>hist := recv_events 5 (word_of_nat MAX_LENGTH) [104] Success (hist demo_conn_v),
     heap := (heap demo_conn_v)(1 := Some (blank_v\<lparr>v_sock := Some 5, v_data := arr_store (v_data blank_v) 0 [104]\<rparr>)),
     ops := [(0, Accept_into 2), (0, Write 1 1)]\<rparr>"

lemma demo_step_read_v: "asio_step (run_v demo_v) reply_ok_v demo_conn_v demo_read_v"
  by (rule complete [where i = 0 and op = "Read_some 1" and r = "R_read [104] Success"])
     (simp_all add: run_v_def load_def store_def connection_read_def arr_write_def Let_def demo_read_v_def
        finish_def async_def MAX_LENGTH_def reply_ok_v_def)

text \<open>What \<open>main\<close> did before it slept stays what it was.\<close>

lemma threads_v_hist:
  assumes "asio_env_ok E" and "reach_v E w"
  shows "\<exists>fd pn n h. 0 \<le> fd \<and> filter is_setup (hist w) = h @
        [Bind fd \<lparr>sin_family = AF_INET, sin_addr = [0, 0, 0, 0], sin_port = htons (uint (word_of_int pn :: 16 word))\<rparr> (Inr 0),
         Socket AF_INET SOCK_STREAM 0 (Inr fd)] \<and>
      set h = {Pthread_create j fd 0 |j. j < (n :: nat)} \<and>
      (\<forall>i a. servers w i = Some a \<longrightarrow> i < n \<and> a_native a = fd mod 65536)"
  using assms(2)
proof (induction rule: asio_reach.induct)
  case (asio_start w)
  then obtain argv w0 where "fresh_world w0" "main_v E argv w0 = Some (Inr (Running w))"
    by (auto simp: start_v_def)
  from main_v_hist [OF this] obtain fd pn n h where m: "a_acceptor E [] (word_of_int pn) = Inr fd"
    "hist w = Cpp (Sleep (0 - 1)) # h @
      [Bind fd \<lparr>sin_family = AF_INET, sin_addr = [0, 0, 0, 0], sin_port = htons (uint (word_of_int pn :: 16 word))\<rparr> (Inr 0),
       Socket AF_INET SOCK_STREAM 0 (Inr fd)]"
    and h: "set h = {Pthread_create j fd 0 |j. j < unat (n :: size_t)}" by blast
  have "filter is_setup h = h" using h by (intro filter_True) auto
  moreover have "\<forall>i. servers w i = None" using start_v_inv [OF asio_start] by blast
  ultimately show ?case
    using asio_env_okD(2) [OF assms(1) m(1)] h
    by (intro exI [of _ fd] exI [of _ pn] exI [of _ "unat n"] exI [of _ h]) (simp add: m(2))
next
  case (asio_complete w w')
  from step_echo [OF assms(1) v.reach_inv [OF asio_complete.hyps(1) assms(1)] asio_complete.hyps(2)]
  have "servers w' = servers w" by (simp add: echo_ok_def)
  with asio_complete.IH step_threads [OF asio_complete.hyps(2)] show ?case by simp
next
  case (asio_spawn w w')
  obtain j x p c where j: "Pthread_create j x 0 \<in> set (hist w)" "servers w j = None"
    and w': "w' = w\<lparr>servers := (servers w)(j := Some \<lparr>a_native = uint (word_of_int x :: 16 word)\<rparr>),
      hist := Malloc (Some p) # hist w, heap := (heap w)(p := Some c), ops := ops w @ [(j, Accept_into p)]\<rparr>"
    by (rule spawn_v_run [OF assms(1) v.reach_inv [OF asio_spawn.hyps(1) assms(1)] asio_spawn.hyps(2)])
  from asio_spawn.IH obtain fd pn n h where IH: "0 \<le> fd" "filter is_setup (hist w) = h @
        [Bind fd \<lparr>sin_family = AF_INET, sin_addr = [0, 0, 0, 0], sin_port = htons (uint (word_of_int pn :: 16 word))\<rparr> (Inr 0),
         Socket AF_INET SOCK_STREAM 0 (Inr fd)]" "set h = {Pthread_create j fd 0 |j. j < (n :: nat)}"
    "\<forall>i a. servers w i = Some a \<longrightarrow> i < n \<and> a_native a = fd mod 65536" by (elim exE conjE) (rule that)
  have "Pthread_create j x 0 \<in> set (filter is_setup (hist w))" using j(1) by simp
  then have "x = fd" "j < n" unfolding IH(2) using IH(3) by auto
  moreover have "uint (word_of_int fd :: 16 word) = fd mod 65536"
    unfolding uint_word_of_int by simp
  ultimately have "i < n \<and> a_native a = fd mod 65536" if "servers w' i = Some a" for i a
    using that IH(4) by (cases "i = j") (auto simp: w')
  moreover have "filter is_setup (hist w') = filter is_setup (hist w)" by (simp add: w')
  ultimately show ?case
    unfolding IH(2) using IH(1,3) by blast
qed

section \<open>Properties\<close>

text \<open>C15: whatever operation of \<^verbatim>\<open>server.cc\<close> completes next and however it ends, its handler runs
  on a connection that is still allocated and returns; the only way the program is ended is
  \<open>new\<close> finding no memory. There is no use after \<open>delete this\<close> and no double delete.\<close>

theorem completions_defined_v:
  assumes "asio_env_ok E" and "reach_v E w" and "(i, op) \<in> set (ops w)" and "reply_ok_v w op r"
  shows "run_v E i op r (finish i op w) = Some (Inl Bad_alloc) \<or>
    (\<exists>w'. run_v E i op r (finish i op w) = Some (Inr w') \<and> reach_v E w')"
  using v.reach_defined [OF assms(2,1,3,4)] by simp

theorem completions_defined_v_witness:
  "run_v demo_v 0 (Read_some 1) (R_read [104] Success) (finish 0 (Read_some 1) demo_conn_v) = Some (Inl Bad_alloc) \<or>
   (\<exists>w'. run_v demo_v 0 (Read_some 1) (R_read [104] Success) (finish 0 (Read_some 1) demo_conn_v) = Some (Inr w') \<and>
      reach_v demo_v w')"
  by (rule completions_defined_v [OF demo_asio_ok demo_reach_conn_v])
     (simp_all add: reply_ok_v_def MAX_LENGTH_def)

text \<open>C16: \<^verbatim>\<open>server.cc\<close> is an echo server: every completion, in any thread, is one step of the
  abstract server, whose queues are the bytes that the connections' buffers hold for their
  pending writes. On the connection of the step the queue takes in what the history of calls
  shows as received and gives out what it shows as sent; on all others nothing is received or
  sent. Starting a thread changes no queue and touches no connection.\<close>

theorem echo_refines_v:
  assumes "asio_env_ok E" and "reach_v E w"
  shows "(asio_step (run_v E) reply_ok_v w w' \<longrightarrow>
      (\<exists>lab. echo_step lab (abs_v w) (abs_v w') \<and> echo_obs lab (abs_v w) (hist w) (hist w'))) \<and>
    (spawn_v E w w' \<longrightarrow> abs_v w' = abs_v w \<and> echo_obs Idle (abs_v w) (hist w) (hist w'))"
proof (intro conjI impI)
  note inv = v.reach_inv [OF assms(2,1)]
  {
    assume "asio_step (run_v E) reply_ok_v w w'"
    from step_echo [OF assms(1) inv this] have "echo_ok w w'" .
    then show "\<exists>lab. echo_step lab (abs_v w) (abs_v w') \<and> echo_obs lab (abs_v w) (hist w) (hist w')"
      using abs_v_owed [OF inv] abs_v_owed [of "accepting w" w'] by (simp add: echo_ok_def)
  next
    assume sp: "spawn_v E w w'"
    have eq: "owed_v w' = owed_v w" and inv': "inv_v (accepting w') {} w'"
      using spawn_v_run [OF assms(1) inv sp] by blast+
    then show "abs_v w' = abs_v w" by (simp add: abs_v_owed [OF inv] abs_v_owed [OF inv'])
    show "echo_obs Idle (abs_v w) (hist w) (hist w')"
      by (rule spawn_v_run [OF assms(1) inv sp]) (simp add: echo_obs_def untouched_def)
  }
qed

theorem echo_refines_v_witness:
  "\<exists>lab. echo_step lab (abs_v demo_conn_v) (abs_v demo_read_v) \<and>
     echo_obs lab (abs_v demo_conn_v) (hist demo_conn_v) (hist demo_read_v) \<and>
     abs_v demo_conn_v 5 = Some [] \<and> abs_v demo_read_v 5 = Some [104]"
proof -
  have "abs_v demo_conn_v 5 = Some []" "abs_v demo_read_v 5 = Some [104]"
    by (simp_all add: abs_v_def queues_v_def demo_read_v_def demo_conn_v_def demo_accepting_v_def arr_slice_def
        arr_store_def blank_v_def)
  with echo_refines_v [OF demo_asio_ok demo_reach_conn_v] demo_step_read_v show ?thesis by blast
qed

text \<open>C17: every connection of \<^verbatim>\<open>server.cc\<close> is waited for by exactly one pending operation: a read
  when all that came was sent back, or a write of exactly the bytes that were not, which are
  the first ones in its buffer; and every thread that runs has exactly one accept pending.\<close>

theorem one_operation_v:
  assumes "asio_env_ok E" and "reach_v E w"
  shows "distinct (map (op_ptr \<circ> snd) (ops w)) \<and>
    (\<forall>p c. heap w p = Some c \<longrightarrow> (\<exists>i op. (i, op) \<in> set (ops w) \<and> op_ptr op = p)) \<and>
    (\<forall>i p. (i, Read_some p) \<in> set (ops w) \<longrightarrow> (\<exists>c fd. heap w p = Some c \<and> v_sock c = Some fd \<and>
       open_fd (hist w) fd \<and> recvd (hist w) fd = sent (hist w) fd)) \<and>
    (\<forall>i p n. (i, Write p n) \<in> set (ops w) \<longrightarrow> (\<exists>c fd. heap w p = Some c \<and> v_sock c = Some fd \<and>
       open_fd (hist w) fd \<and> 0 < n \<and> n \<le> 4096 \<and> recvd (hist w) fd = sent (hist w) fd @ arr_slice (v_data c) 0 n)) \<and>
    (\<forall>i. servers w i \<noteq> None \<longleftrightarrow> (\<exists>!p. (i, Accept_into p) \<in> set (ops w)))"
proof -
  note inv = v.reach_inv [OF assms(2,1)]
  note d = inv_vD [OF inv]
  have "\<exists>c fd. heap w p = Some c \<and> v_sock c = Some fd \<and> open_fd (hist w) fd \<and> recvd (hist w) fd = sent (hist w) fd"
    if "(i, Read_some p) \<in> set (ops w)" for i p
    by (rule inv_v_conn [OF inv that]) (use d(6) in \<open>auto simp: conn_ok_def\<close>)
  moreover have "\<exists>c fd. heap w p = Some c \<and> v_sock c = Some fd \<and> open_fd (hist w) fd \<and> 0 < n \<and> n \<le> 4096 \<and>
      recvd (hist w) fd = sent (hist w) fd @ arr_slice (v_data c) 0 n" if "(i, Write p n) \<in> set (ops w)" for i p n
    by (rule inv_v_conn [OF inv that]) (use d(6) in \<open>auto simp: conn_ok_def MAX_LENGTH_def\<close>)
  moreover have "servers w i \<noteq> None \<longleftrightarrow> (\<exists>!p. (i, Accept_into p) \<in> set (ops w))" for i
    using d(8) [of i] d(9) [of i] by auto
  moreover have "\<exists>i op. (i, op) \<in> set (ops w) \<and> op_ptr op = p" if "heap w p = Some c" for p c
    using d(2) [of p] that by auto
  ultimately show ?thesis using d(1) by blast
qed

theorem one_operation_v_witness:
  "\<exists>c fd. heap demo_conn_v 1 = Some c \<and> v_sock c = Some fd \<and> recvd (hist demo_conn_v) fd = sent (hist demo_conn_v) fd"
proof -
  have "(0, Read_some 1) \<in> set (ops demo_conn_v)" by simp
  with one_operation_v [OF demo_asio_ok demo_reach_conn_v] show ?thesis by blast
qed

text \<open>C18: what the threads of \<^verbatim>\<open>server.cc\<close> accept on is the one socket \<open>main\<close> opened and bound,
  but only as far as its descriptor fits 16 bits: \<open>servicing\<close> takes the native handle as an
  \<open>unsigned short\<close>. The threads that were created are numbered from 0, each was given that
  socket, and each that runs is one of them.\<close>

theorem threads_v:
  assumes "asio_env_ok E" and "reach_v E w"
  shows "\<exists>fd port n. 0 \<le> fd \<and>
    (\<forall>d t p r. Socket d t p r \<in> set (hist w) \<longleftrightarrow> d = AF_INET \<and> t = SOCK_STREAM \<and> p = 0 \<and> r = Inr fd) \<and>
    (\<forall>x a r. Bind x a r \<in> set (hist w) \<longleftrightarrow> x = fd \<and> r = Inr 0 \<and>
       a = \<lparr>sin_family = AF_INET, sin_addr = [0, 0, 0, 0], sin_port = htons (uint (port :: 16 word))\<rparr>) \<and>
    (\<forall>i x r. Pthread_create i x r \<in> set (hist w) \<longleftrightarrow> i < n \<and> x = fd \<and> r = 0) \<and>
    (\<forall>i a. servers w i = Some a \<longrightarrow> i < n \<and> a_native a = fd mod 65536 \<and> (fd < 65536 \<longrightarrow> a_native a = fd))"
proof -
  obtain fd pn n h where fd: "0 \<le> fd" and h: "filter is_setup (hist w) = h @
        [Bind fd \<lparr>sin_family = AF_INET, sin_addr = [0, 0, 0, 0], sin_port = htons (uint (word_of_int pn :: 16 word))\<rparr> (Inr 0),
         Socket AF_INET SOCK_STREAM 0 (Inr fd)]" and t: "set h = {Pthread_create j fd 0 |j. j < (n :: nat)}"
    and srv': "\<forall>i a. servers w i = Some a \<longrightarrow> i < n \<and> a_native a = fd mod 65536"
    using threads_v_hist [OF assms] by (elim exE conjE) (rule that)
  then have srv: "i < n \<and> a_native a = fd mod 65536" if "servers w i = Some a" for i a using that by blast
  have set: "e \<in> set (hist w) \<longleftrightarrow> e \<in> set (filter is_setup (hist w))" if "is_setup e" for e
    using that by simp
  show ?thesis
  proof (intro exI [of _ fd] exI [of _ "word_of_int pn"] exI [of _ n] conjI allI impI)
    show "a_native a = fd" if "servers w i = Some a" "fd < 65536" for i a
      using srv [OF that(1)] that(2) fd by simp
    show "Socket d ty p r \<in> set (hist w) \<longleftrightarrow> d = AF_INET \<and> ty = SOCK_STREAM \<and> p = 0 \<and> r = Inr fd" for d ty p r
      using set [of "Socket d ty p r"] t unfolding h by (simp; blast)
    show "Bind x a r \<in> set (hist w) \<longleftrightarrow> x = fd \<and> r = Inr 0 \<and>
       a = \<lparr>sin_family = AF_INET, sin_addr = [0, 0, 0, 0], sin_port = htons (uint (word_of_int pn :: 16 word))\<rparr>" for x a r
      using set [of "Bind x a r"] t unfolding h by (simp; blast)
    show "Pthread_create i x r \<in> set (hist w) \<longleftrightarrow> i < n \<and> x = fd \<and> r = 0" for i x r
      using set [of "Pthread_create i x r"] t unfolding h by (simp; blast)
  qed (use fd srv in \<open>simp_all\<close>)
qed

theorem threads_v_witness:
  "\<exists>fd. servers demo_conn_v 0 = Some \<lparr>a_native = fd mod 65536\<rparr> \<and> Pthread_create 0 fd 0 \<in> set (hist demo_conn_v) \<and>
     Socket AF_INET SOCK_STREAM 0 (Inr fd) \<in> set (hist demo_conn_v)"
proof -
  obtain fd port n where x:
    "\<forall>d t p r. Socket d t p r \<in> set (hist demo_conn_v) \<longleftrightarrow> d = AF_INET \<and> t = SOCK_STREAM \<and> p = 0 \<and> r = Inr fd"
    "\<forall>i x r. Pthread_create i x r \<in> set (hist demo_conn_v) \<longleftrightarrow> i < n \<and> x = fd \<and> r = 0"
    "\<forall>i a. servers demo_conn_v i = Some a \<longrightarrow> i < n \<and> a_native a = fd mod 65536 \<and> (fd < 65536 \<longrightarrow> a_native a = fd)"
    using threads_v [OF demo_asio_ok demo_reach_conn_v] by (elim exE conjE) (rule that)
  from x(3) demo_conn_v_simps(3) have "0 < n" "3 = fd mod 65536" by fastforce+
  with x(1,2) demo_conn_v_simps(3) show ?thesis by (intro exI [of _ fd]) simp
qed

end
