(* ===== verification/CppEpoll.thy ===== *)
theory CppEpoll
  imports Asio "HOL-Library.Sublist"
begin

unbundle bit_operations_syntax

text \<open>
  \<^verbatim>\<open>c++-apolkanov/echo_tcp.cpp\<close>: the main thread accepts and hands each connection to the next
  of a fixed number of workers; a worker waits with \<open>epoll\<close> and, for each event, reads once
  and writes back what it read. One definition for each function.
\<close>

section \<open>Kernel calls of this program\<close>

text \<open>
  The state of a worker: the members of \<open>TestWorker\<close> and, while its thread is in the inner loop
  of \<open>process\<close>, the descriptors of the events it has still to handle.
\<close>

record worker =
  mEpollFd :: int
  mStarted :: bool
  batch :: "int list"

text \<open>The process, with the interest lists the kernel keeps for each \<open>epoll\<close> descriptor.\<close>

record epoll_world = "(unit, unit) world" +
  workers :: "worker list"
  servSock :: int
  counter :: "64 word"
  interest :: "int \<Rightarrow> int set"

record epoll_env =
  k_env :: "unit env"
  k_epoll_create :: "history \<Rightarrow> errno + int"
  k_fcntl :: "history \<Rightarrow> int \<Rightarrow> c_const \<Rightarrow> int \<Rightarrow> errno + int"
  k_epoll_ctl :: "history \<Rightarrow> int \<Rightarrow> int \<Rightarrow> errno + int"
  k_thread :: "history \<Rightarrow> errno option"

definition epoll_env_ok :: "epoll_env \<Rightarrow> bool" where
  "epoll_env_ok K \<longleftrightarrow> env_ok (k_env K) \<and>
     (\<forall>h fd. k_epoll_create K h = Inr fd \<longrightarrow> 0 \<le> fd \<and> fd < 2 ^ 31 \<and> \<not> open_fd h fd) \<and>
     (\<forall>h ep fd r. k_epoll_ctl K h ep fd = Inr r \<longrightarrow> r = 0)"

definition epoll_create1 :: "epoll_env \<Rightarrow> epoll_world \<Rightarrow> int \<times> epoll_world" where
  "epoll_create1 K w = status Epoll_create (k_epoll_create K (hist w)) w"

definition fcntl :: "epoll_env \<Rightarrow> int \<Rightarrow> c_const \<Rightarrow> int \<Rightarrow> epoll_world \<Rightarrow> int \<times> epoll_world" where
  "fcntl K fd cmd arg w = status (\<lambda>r. Cpp (Fcntl fd cmd arg r)) (k_fcntl K (hist w) fd cmd arg) w"

text \<open>\<open>epoll_ctl\<close> with \<open>EPOLL_CTL_ADD\<close>.\<close>

definition epoll_ctl_add :: "epoll_env \<Rightarrow> int \<Rightarrow> int \<Rightarrow> epoll_world \<Rightarrow> int \<times> epoll_world" where
  "epoll_ctl_add K ep fd w =
     (case status (\<lambda>r. Cpp (Epoll_ctl ep fd r)) (k_epoll_ctl K (hist w) ep fd) w of (rc, w) \<Rightarrow>
        (rc, if rc = -1 then w else w\<lparr>interest := (interest w)(ep := insert fd (interest w ep))\<rparr>))"

text \<open>Closing a descriptor takes it out of every interest list.\<close>

definition close_fd :: "int \<Rightarrow> epoll_world \<Rightarrow> epoll_world" where
  "close_fd fd w = (c_close fd w)\<lparr>interest := (\<lambda>ep. interest w ep - {fd})\<rparr>"

section \<open>The code\<close>

subsection \<open>TestWorker\<close>

definition TestWorker :: "epoll_env \<Rightarrow> epoll_world \<Rightarrow> exn + epoll_world" where
  "TestWorker K w = (case epoll_create1 K w of (fd, w) \<Rightarrow>
     if fd = -1 then Inl (Runtime_error ''epoll_create failed'')
     else Inr (w\<lparr>workers := workers w @ [\<lparr>mEpollFd = fd, mStarted = False, batch = []\<rparr>]\<rparr>))"

definition O_NONBLOCK :: "32 word" where
  "O_NONBLOCK = 2048"

definition addConnection :: "epoll_env \<Rightarrow> nat \<Rightarrow> int \<Rightarrow> epoll_world \<Rightarrow> exn + epoll_world" where
  "addConnection K k clientSock w = (
     let (oldVal, w) = fcntl K clientSock F_GETFL 0 w;
         (rc, w) = fcntl K clientSock F_SETFL (sint ((word_of_int oldVal :: 32 word) OR O_NONBLOCK)) w
     in if rc \<noteq> 0 then Inl (Runtime_error ''fcntl failed'')
     else let (rc, w) = epoll_ctl_add K (mEpollFd (workers w ! k)) clientSock w in
       if rc = -1 then Inl (Runtime_error ''epoll_ctl failed'')
       else if mStarted (workers w ! k) then Inr w
       else case k_thread K (hist w) of
           Some e \<Rightarrow> Inl (System_error e)
         | None \<Rightarrow> let w = emit (Pthread_create k (mEpollFd (workers w ! k)) 0) w
             in Inr (w\<lparr>workers := (workers w)[k := (workers w ! k)\<lparr>mStarted := True\<rparr>]\<rparr>))"

definition BUFF_SIZE :: nat where
  "BUFF_SIZE = 100"

text \<open>
  The result of \<open>read\<close> is stored in a \<open>size_t\<close>, so only 0 is below or equal to 0; \<open>write\<close> reads as
  many bytes of the buffer as this number says. Its result is not looked at.
\<close>

definition processConnection :: "epoll_env \<Rightarrow> int \<Rightarrow> epoll_world \<Rightarrow> epoll_world option" where
  "processConnection K sk w = do {
     let (n, bs, w) = c_recv (k_env K) sk (word_of_nat BUFF_SIZE) w;
     buffer \<leftarrow> arr_write BUFF_SIZE (\<lambda>_. 0) 0 bs;
     let data_size = (word_of_int n :: size_t);
     if data_size \<le> 0 then Some (close_fd sk w)
     else do {
       data \<leftarrow> arr_read BUFF_SIZE buffer 0 (unat data_size);
       let (_, w) = c_send (k_env K) sk data w;
       Some w
     }
   }"

definition MAX_EVENTS :: nat where
  "MAX_EVENTS = 128"

text \<open>
  The two loops of \<open>process\<close>: \<open>epoll_wait\<close> stores the events it reports, none if it fails; the
  inner loop takes them one by one.
\<close>

definition process_wait :: "nat \<Rightarrow> errno + int list \<Rightarrow> epoll_world \<Rightarrow> epoll_world" where
  "process_wait k r w = (
     let w = emit (Cpp (Epoll_wait (mEpollFd (workers w ! k)) r)) w
     in w\<lparr>workers := (workers w)[k := (workers w ! k)\<lparr>batch := (case r of Inl _ \<Rightarrow> [] | Inr fds \<Rightarrow> fds)\<rparr>]\<rparr>)"

definition process_next :: "epoll_env \<Rightarrow> nat \<Rightarrow> epoll_world \<Rightarrow> epoll_world option" where
  "process_next K k w = (case batch (workers w ! k) of
     [] \<Rightarrow> Some w
   | fd # fds \<Rightarrow> processConnection K fd (w\<lparr>workers := (workers w)[k := (workers w ! k)\<lparr>batch := fds\<rparr>]\<rparr>))"

subsection \<open>The main program\<close>

primrec make_workers :: "epoll_env \<Rightarrow> nat \<Rightarrow> epoll_world \<Rightarrow> exn + epoll_world" where
  "make_workers K 0 w = Inr w"
| "make_workers K (Suc n) w = (case TestWorker K w of Inl e \<Rightarrow> Inl e | Inr w \<Rightarrow> make_workers K n w)"

text \<open>
  \<open>main\<close> up to its loop. \<open>cast\<close> is \<open>boost::lexical_cast<int>\<close>, which throws where it gives
  nothing. An array of negative length is undefined; GNU C++ allows one of length 0.
\<close>

definition main_a :: "epoll_env \<Rightarrow> (string \<Rightarrow> int option) \<Rightarrow> string list \<Rightarrow> epoll_world \<Rightarrow> epoll_world run" where
  "main_a K cast argv w =
     (if length argv < 3 then Some (Inl (Runtime_error ''Usage: echo_tcp PORT WORKERS''))
      else case cast (argv ! 1) of None \<Rightarrow> Some (Inl Bad_lexical_cast) | Some port \<Rightarrow>
        (case cast (argv ! 2) of None \<Rightarrow> Some (Inl Bad_lexical_cast) | Some workerNumber \<Rightarrow>
          if workerNumber < 0 then None
          else case make_workers K (nat workerNumber) (w\<lparr>workers := []\<rparr>) of Inl e \<Rightarrow> Some (Inl e) | Inr w \<Rightarrow>
            (let (sd, w) = status (Socket AF_INET SOCK_STREAM 6) (e_socket (k_env K) (hist w)) w in
             if sd = -1 then Some (Inl (Runtime_error ''creating socket failed''))
             else
               let (_, w) = c_setsockopt (k_env K) sd SOL_SOCKET SO_REUSEADDR 1 w;
                   (rc, w) = c_bind (k_env K) sd \<lparr>sin_family = AF_INET, sin_addr = [0, 0, 0, 0], sin_port = htons port\<rparr> w
               in if rc = -1 then Some (Inl (Runtime_error ''bind failed''))
               else let (rc, w) = c_listen (k_env K) sd 1000 w
               in if rc = -1 then Some (Inl (Runtime_error ''listen failed''))
               else Some (Inr (w\<lparr>servSock := sd, counter := 0\<rparr>)))))"

text \<open>
  One round of the loop. \<open>counter % workerNumber\<close> is computed in 64 bits; by zero it is undefined.
\<close>

definition main_accept :: "epoll_env \<Rightarrow> epoll_world \<Rightarrow> epoll_world run" where
  "main_accept K w = (case c_accept (k_env K) (servSock w) zero_addr w of (clientSock, _, w) \<Rightarrow>
     if clientSock = -1 then Some (Inl (Runtime_error ''accept failed''))
     else if workers w = [] then None
     else case addConnection K (unat (counter w mod word_of_nat (length (workers w)))) clientSock w of
         Inl e \<Rightarrow> Some (Inl e)
       | Inr w \<Rightarrow> Some (Inr (w\<lparr>counter := counter w + 1\<rparr>)))"

section \<open>The threads\<close>

text \<open>
  Main accepts; a worker whose thread was started waits when it has no events left and handles
  the next one otherwise. \<open>epoll_wait\<close> reports each descriptor once, only such as are in its
  interest list, and at most \<open>MAX_EVENTS\<close>; which ones is open.
\<close>

definition events_ok :: "epoll_world \<Rightarrow> nat \<Rightarrow> errno + int list \<Rightarrow> bool" where
  "events_ok w k r \<longleftrightarrow> (case r of Inl _ \<Rightarrow> True
     | Inr fds \<Rightarrow> distinct fds \<and> length fds \<le> MAX_EVENTS \<and> set fds \<subseteq> interest w (mEpollFd (workers w ! k)))"

inductive tcp_step :: "epoll_env \<Rightarrow> epoll_world \<Rightarrow> epoll_world \<Rightarrow> bool" for K where
  accepts: "main_accept K w = Some (Inr w') \<Longrightarrow> tcp_step K w w'"
| waits: "k < length (workers w) \<Longrightarrow> mStarted (workers w ! k) \<Longrightarrow> batch (workers w ! k) = [] \<Longrightarrow>
     events_ok w k r \<Longrightarrow> tcp_step K w (process_wait k r w)"
| handles: "k < length (workers w) \<Longrightarrow> mStarted (workers w ! k) \<Longrightarrow> process_next K k w = Some w' \<Longrightarrow> tcp_step K w w'"

inductive tcp_reach :: "epoll_env \<Rightarrow> (string \<Rightarrow> int option) \<Rightarrow> epoll_world \<Rightarrow> bool" for K cast where
  tcp_start: "fresh_world w0 \<Longrightarrow> interest w0 = (\<lambda>_. {}) \<Longrightarrow> main_a K cast argv w0 = Some (Inr w) \<Longrightarrow> tcp_reach K cast w"
| tcp_next: "tcp_reach K cast w \<Longrightarrow> tcp_step K w w' \<Longrightarrow> tcp_reach K cast w'"

inductive_cases tcp_stepE: "tcp_step K w w'"

end
