(* ===== verification/CppEpollInv.thy ===== *)
theory CppEpollInv
  imports CppEpoll
begin

text \<open>
  The invariant of \<^verbatim>\<open>echo_tcp.cpp\<close> over all interleavings of its threads: each connection is in
  the interest list of exactly one worker, the events a worker has still to handle are for its
  own connections, and the connections are handed out in turn.
\<close>

section \<open>What was handed to whom\<close>

text \<open>How many connections were accepted, and how many were added to an \<open>epoll\<close> descriptor.\<close>

primrec accepted_n :: "history \<Rightarrow> nat" where
  "accepted_n [] = 0"
| "accepted_n (e # h) = (case e of Accept _ (Inr _) \<Rightarrow> 1 | _ \<Rightarrow> 0) + accepted_n h"

primrec handed :: "history \<Rightarrow> int \<Rightarrow> nat" where
  "handed [] ep = 0"
| "handed (e # h) ep = (case e of
     Cpp (Epoll_ctl ep' fd (Inr r)) \<Rightarrow> (if ep' = ep then 1 else 0) | _ \<Rightarrow> 0) + handed h ep"

text \<open>What \<open>n\<close> workers got of \<open>a\<close> connections handed out in turn.\<close>

definition share :: "nat \<Rightarrow> nat \<Rightarrow> nat \<Rightarrow> nat" where
  "share n a k = a div n + (if k < a mod n then 1 else 0)"

lemma share_Suc:
  assumes "k < n"
  shows "share n (Suc a) k = share n a k + (if k = a mod n then 1 else 0)"
proof (cases "Suc a mod n = 0")
  case True
  then have m: "a mod n = n - 1" "Suc a div n = Suc (a div n)"
    using assms by (auto simp: mod_Suc div_Suc split: if_splits)
  with True assms show ?thesis by (auto simp: share_def)
next
  case False
  then have "Suc a mod n = Suc (a mod n)" "Suc a div n = a div n"
    by (auto simp: mod_Suc div_Suc split: if_splits)
  with assms show ?thesis by (auto simp: share_def)
qed

section \<open>The invariant\<close>

definition ep :: "epoll_world \<Rightarrow> nat \<Rightarrow> int" where
  "ep w k = mEpollFd (workers w ! k)"

definition inv_a :: "epoll_world \<Rightarrow> bool" where
  "inv_a w \<longleftrightarrow> length (workers w) < 2 ^ 31 \<and> open_fd (hist w) (servSock w) \<and>
     (\<forall>i < length (workers w). open_fd (hist w) (ep w i) \<and> ep w i \<noteq> servSock w) \<and>
     (\<forall>i < length (workers w). \<forall>j < length (workers w). ep w i = ep w j \<longrightarrow> i = j) \<and>
     (\<forall>i < length (workers w). \<forall>fd \<in> interest w (ep w i). open_fd (hist w) fd \<and> fd \<noteq> servSock w \<and>
        subseq (sent (hist w) fd) (recvd (hist w) fd) \<and> (\<forall>j < length (workers w). fd \<noteq> ep w j)) \<and>
     (\<forall>i < length (workers w). \<forall>j < length (workers w). \<forall>fd.
        fd \<in> interest w (ep w i) \<longrightarrow> fd \<in> interest w (ep w j) \<longrightarrow> i = j) \<and>
     (\<forall>i < length (workers w). distinct (batch (workers w ! i)) \<and> set (batch (workers w ! i)) \<subseteq> interest w (ep w i)) \<and>
     (\<forall>i < length (workers w). interest w (ep w i) \<noteq> {} \<longrightarrow> mStarted (workers w ! i)) \<and>
     counter w = word_of_nat (accepted_n (hist w)) \<and>
     (accepted_n (hist w) < 2 ^ 64 \<longrightarrow> (\<forall>i < length (workers w).
        handed (hist w) (ep w i) = share (length (workers w)) (accepted_n (hist w)) i))"

lemma inv_aD:
  assumes "inv_a w"
  shows "length (workers w) < 2 ^ 31" and "open_fd (hist w) (servSock w)"
    and "i < length (workers w) \<Longrightarrow> open_fd (hist w) (ep w i) \<and> ep w i \<noteq> servSock w"
    and "i < length (workers w) \<Longrightarrow> j < length (workers w) \<Longrightarrow> ep w i = ep w j \<Longrightarrow> i = j"
    and "i < length (workers w) \<Longrightarrow> fd \<in> interest w (ep w i) \<Longrightarrow> open_fd (hist w) fd \<and> fd \<noteq> servSock w \<and>
        subseq (sent (hist w) fd) (recvd (hist w) fd) \<and> (\<forall>j < length (workers w). fd \<noteq> ep w j)"
    and "i < length (workers w) \<Longrightarrow> j < length (workers w) \<Longrightarrow> fd \<in> interest w (ep w i) \<Longrightarrow> fd \<in> interest w (ep w j) \<Longrightarrow> i = j"
    and "i < length (workers w) \<Longrightarrow> distinct (batch (workers w ! i)) \<and> set (batch (workers w ! i)) \<subseteq> interest w (ep w i)"
    and "i < length (workers w) \<Longrightarrow> interest w (ep w i) \<noteq> {} \<Longrightarrow> mStarted (workers w ! i)"
    and "counter w = word_of_nat (accepted_n (hist w))"
    and "accepted_n (hist w) < 2 ^ 64 \<Longrightarrow> i < length (workers w) \<Longrightarrow>
        handed (hist w) (ep w i) = share (length (workers w)) (accepted_n (hist w)) i"
  using assms unfolding inv_a_def by - metis+

section \<open>What each step does\<close>

text \<open>The workers after one was changed other than in its descriptor.\<close>

lemma ep_update [simp]: "mEpollFd f = ep w k \<Longrightarrow> k < length (workers w) \<Longrightarrow> ep (w\<lparr>workers := (workers w)[k := f]\<rparr>) i = ep w i"
  by (cases "i = k") (simp_all add: ep_def)

lemma addConnection_world:
  assumes ok: "epoll_env_ok K" and run: "addConnection K k sd w = Inr v" and k: "k < length (workers w)"
  shows "\<exists>r1 r2. hist v = (if mStarted (workers w ! k) then [] else [Pthread_create k (ep w k) 0]) @
      [Cpp (Epoll_ctl (ep w k) sd (Inr 0)), Cpp (Fcntl sd F_SETFL r1 (Inr 0)), Cpp (Fcntl sd F_GETFL 0 r2)] @ hist w \<and>
    interest v = (interest w)(ep w k := insert sd (interest w (ep w k))) \<and>
    workers v = (workers w)[k := (workers w ! k)\<lparr>mStarted := True\<rparr>] \<and>
    servSock v = servSock w \<and> counter v = counter w"
proof -
  obtain old w1 where get: "fcntl K sd F_GETFL 0 w = (old, w1)" by force
  obtain r2 where w1: "hist w1 = Cpp (Fcntl sd F_GETFL 0 r2) # hist w" "interest w1 = interest w" "workers w1 = workers w"
    "servSock w1 = servSock w" "counter w1 = counter w"
    using get by (auto simp: fcntl_def status_def emit_def split: sum.splits)
  define r1 where "r1 = sint ((word_of_int old :: 32 word) OR O_NONBLOCK)"
  obtain rc w2 where set: "fcntl K sd F_SETFL r1 w1 = (rc, w2)" by force
  from run get set have rc: "rc = 0" by (auto simp: addConnection_def r1_def split: if_splits)
  with set have w2: "hist w2 = Cpp (Fcntl sd F_SETFL r1 (Inr 0)) # hist w1" "interest w2 = interest w1"
    "workers w2 = workers w1" "servSock w2 = servSock w1" "counter w2 = counter w1"
    by (auto simp: fcntl_def status_def emit_def split: sum.splits)
  obtain rc' w3 where ctl: "epoll_ctl_add K (mEpollFd (workers w2 ! k)) sd w2 = (rc', w3)" by force
  with run get set rc have "rc' \<noteq> -1" by (auto simp: addConnection_def r1_def split: if_splits)
  with ctl ok have w3: "hist w3 = Cpp (Epoll_ctl (ep w k) sd (Inr 0)) # hist w2"
    "interest w3 = (interest w)(ep w k := insert sd (interest w (ep w k)))" "workers w3 = workers w"
    "servSock w3 = servSock w" "counter w3 = counter w"
    by (auto simp: epoll_ctl_add_def status_def emit_def ep_def epoll_env_ok_def w1 w2 split: sum.splits)
  have idem: "(workers w)[k := workers w ! k] = workers w" by simp
  from run get set rc ctl \<open>rc' \<noteq> -1\<close>
  have "v = (if mStarted (workers w ! k) then w3 else (emit (Pthread_create k (ep w k) 0) w3)
      \<lparr>workers := (workers w)[k := (workers w ! k)\<lparr>mStarted := True\<rparr>]\<rparr>)"
    by (auto simp: addConnection_def r1_def Let_def w3 ep_def emit_def split: if_splits option.splits)
  then show ?thesis
    using k by (intro exI [of _ r1] exI [of _ r2]) (cases "workers w ! k", auto simp: w1 w2 w3 emit_def list_eq_iff_nth_eq nth_list_update)
qed

lemma accept_world:
  assumes ok: "epoll_env_ok K" and run: "main_accept K w = Some (Inr w')" and len: "length (workers w) < 2 ^ 31"
  obtains sd a k r1 r2 where "k = unat (counter w mod word_of_nat (length (workers w)))" and "k < length (workers w)"
    and "\<not> open_fd (hist w) sd" and "0 \<le> sd"
    and "hist w' = (if mStarted (workers w ! k) then [] else [Pthread_create k (ep w k) 0]) @
      [Cpp (Epoll_ctl (ep w k) sd (Inr 0)), Cpp (Fcntl sd F_SETFL r1 (Inr 0)), Cpp (Fcntl sd F_GETFL 0 r2),
       Accept (servSock w) (Inr (sd, a))] @ hist w"
    and "interest w' = (interest w)(ep w k := insert sd (interest w (ep w k)))"
    and "workers w' = (workers w)[k := (workers w ! k)\<lparr>mStarted := True\<rparr>]"
    and "servSock w' = servSock w" and "counter w' = counter w + 1"
proof -
  have env: "env_ok (k_env K)" using ok by (simp add: epoll_env_ok_def)
  obtain sd a where acc: "e_accept (k_env K) (hist w) (servSock w) = Inr (sd, a)"
    using run by (auto simp: main_accept_def c_accept_def split: sum.splits)
  note new = env_okD(4) [OF env acc]
  let ?n = "word_of_nat (length (workers w)) :: 64 word" and ?w1 = "emit (Accept (servSock w) (Inr (sd, a))) w"
  define k where "k = unat (counter w mod ?n)"
  from run new have ne: "workers w \<noteq> []" and add: "\<exists>v. addConnection K k sd ?w1 = Inr v \<and> w' = v\<lparr>counter := counter v + 1\<rparr>"
    by (auto simp: main_accept_def c_accept_def acc k_def emit_def split: sum.splits if_splits)
  have "unat ?n = length (workers w)"
    using len by (simp add: unat_of_nat take_bit_nat_eq_self)
  then have "k = unat (counter w) mod length (workers w)" by (simp add: k_def unat_mod_distrib)
  with ne have k: "k < length (workers w)" by simp
  from add obtain v where v: "addConnection K k sd ?w1 = Inr v" "w' = v\<lparr>counter := counter v + 1\<rparr>" by blast
  have "ep ?w1 k = ep w k" by (simp add: ep_def emit_def)
  with addConnection_world [OF ok v(1)] k obtain r1 r2 where
    "hist v = (if mStarted (workers w ! k) then [] else [Pthread_create k (ep w k) 0]) @
      [Cpp (Epoll_ctl (ep w k) sd (Inr 0)), Cpp (Fcntl sd F_SETFL r1 (Inr 0)), Cpp (Fcntl sd F_GETFL 0 r2)] @
      Accept (servSock w) (Inr (sd, a)) # hist w"
    "interest v = (interest w)(ep w k := insert sd (interest w (ep w k)))"
    "workers v = (workers w)[k := (workers w ! k)\<lparr>mStarted := True\<rparr>]" "servSock v = servSock w" "counter v = counter w"
    by (auto simp: emit_def)
  with v(2) new k show thesis by (intro that [where sd = sd and a = a and k = k and ?r1.0 = r1 and ?r2.0 = r2]) (simp_all add: k_def)
qed


lemma close_fd_world:
  "close_fd fd w = w\<lparr>hist := Close fd # hist w, interest := (\<lambda>e. interest w e - {fd})\<rparr>"
  by (simp add: close_fd_def c_close_def emit_def)

text \<open>A callback of a worker: undefined exactly if \<open>read\<close> fails.\<close>

lemma processConnection_run:
  assumes ok: "epoll_env_ok K"
  shows "processConnection K fd w = (case e_recv (k_env K) (hist w) fd (word_of_nat BUFF_SIZE) of
      Inl e \<Rightarrow> None
    | Inr bs \<Rightarrow> (let w = emit (Recv fd (word_of_nat BUFF_SIZE) (Inr bs)) w in
        Some (if bs = [] then close_fd fd w else snd (c_send (k_env K) fd bs w))))"
proof (cases "e_recv (k_env K) (hist w) fd (word_of_nat BUFF_SIZE)")
  case (Inl e)
  have "unat (word_of_int (-1) :: size_t) = 2 ^ 64 - 1" by (simp add: unsigned_minus_1_eq_mask mask_eq_exp_minus_1)
  with Inl show ?thesis
    by (simp add: processConnection_def c_recv_def emit_def arr_write_def arr_read_def BUFF_SIZE_def)
next
  case (Inr bs)
  have env: "env_ok (k_env K)" using ok by (simp add: epoll_env_ok_def)
  have "unat (word_of_nat BUFF_SIZE :: size_t) = 100" by (simp add: BUFF_SIZE_def)
  with env_okD(1) [OF env Inr] have len: "length bs \<le> 100" by simp
  then have u: "unat (word_of_nat (length bs) :: size_t) = length bs"
    by (simp add: unat_of_nat take_bit_nat_eq_self)
  have z: "(word_of_nat (length bs) :: size_t) \<le> 0 \<longleftrightarrow> bs = []"
    using u by (auto simp: word_le_nat_alt)
  show ?thesis
    using Inr len z u arr_slice_store_same [of "\<lambda>_. 0" 0 bs]
    by (simp add: processConnection_def c_recv_def emit_def arr_write_def arr_read_def BUFF_SIZE_def Let_def
        split: prod.split)
qed


section \<open>Every step keeps the invariant\<close>

lemma accept_inv:
  assumes ok: "epoll_env_ok K" and inv: "inv_a w" and run: "main_accept K w = Some (Inr w')"
  shows "inv_a w'"
proof -
  note d = inv_aD [OF inv]
  obtain sd a k r1 r2 where k: "k = unat (counter w mod word_of_nat (length (workers w)))" "k < length (workers w)"
    and sd: "\<not> open_fd (hist w) sd"
    and h: "hist w' = (if mStarted (workers w ! k) then [] else [Pthread_create k (ep w k) 0]) @
      [Cpp (Epoll_ctl (ep w k) sd (Inr 0)), Cpp (Fcntl sd F_SETFL r1 (Inr 0)), Cpp (Fcntl sd F_GETFL 0 r2),
       Accept (servSock w) (Inr (sd, a))] @ hist w"
    and int: "interest w' = (interest w)(ep w k := insert sd (interest w (ep w k)))"
    and wk: "workers w' = (workers w)[k := (workers w ! k)\<lparr>mStarted := True\<rparr>]"
    and rest: "servSock w' = servSock w" "counter w' = counter w + 1"
    by (rule accept_world [OF ok run d(1)])
  let ?n = "length (workers w)" and ?a = "accepted_n (hist w)"
  have len: "length (workers w') = ?n" by (simp add: wk)
  have ep': "ep w' i = ep w i" for i using k(2) by (cases "i = k") (simp_all add: ep_def wk)
  have batch': "batch (workers w' ! i) = batch (workers w ! i)" for i using k(2) by (cases "i = k") (simp_all add: wk)
  have started': "mStarted (workers w' ! i) \<longleftrightarrow> i = k \<or> mStarted (workers w ! i)" if "i < ?n" for i
    using k(2) that by (cases "i = k") (simp_all add: wk)
  have views: "open_fd (hist w') f \<longleftrightarrow> f = sd \<or> open_fd (hist w) f"
    "recvd (hist w') f = (if f = sd then [] else recvd (hist w) f)"
    "sent (hist w') f = (if f = sd then [] else sent (hist w) f)" for f
    by (auto simp: h)
  have num: "accepted_n (hist w') = Suc ?a" "handed (hist w') e = (if e = ep w k then 1 else 0) + handed (hist w) e" for e
    by (auto simp: h)
  have int': "f \<in> interest w' (ep w i) \<longleftrightarrow> f \<in> interest w (ep w i) \<or> f = sd \<and> i = k" if "i < ?n" for f i
    using d(4) [OF that k(2)] by (auto simp: int)
  have notin: "sd \<notin> interest w (ep w i)" if "i < ?n" for i using d(5) [OF that] sd by blast
  have handed': "handed (hist w') (ep w i) = share ?n (Suc ?a) i" if "Suc ?a < 2 ^ 64" "i < ?n" for i
  proof -
    have "unat (word_of_nat ?n :: 64 word) = ?n" "unat (word_of_nat ?a :: 64 word) = ?a"
      using d(1) that(1) by (simp_all add: unat_of_nat take_bit_nat_eq_self)
    then have "k = ?a mod ?n" by (simp add: k(1) d(9) unat_mod_distrib)
    with that d(10) [OF _ that(2)] d(4) [OF that(2) k(2)] share_Suc [OF that(2), of ?a] show ?thesis
      by (auto simp: num)
  qed
  show ?thesis
    unfolding inv_a_def len ep' batch' rest
  proof (intro conjI allI ballI impI)
    show "?n < 2 ^ 31" "open_fd (hist w') (servSock w)" using d(1,2) views by simp_all
    show "open_fd (hist w') (ep w i)" "ep w i \<noteq> servSock w" if "i < ?n" for i using d(3) [OF that] views by simp_all
    show "i = j" if "i < ?n" "j < ?n" "ep w i = ep w j" for i j using d(4) [OF that] .
    fix i assume i: "i < ?n"
    show "open_fd (hist w') f" "f \<noteq> servSock w" "subseq (sent (hist w') f) (recvd (hist w') f)"
      if "f \<in> interest w' (ep w i)" for f
      using that d(2) d(5) [OF i, of f] i int' views sd by auto
    show "f \<noteq> ep w j" if "f \<in> interest w' (ep w i)" "j < ?n" for f j
      using that(2) d(5) [OF i, of f] d(3) [OF that(2)] sd that(1) [unfolded int' [OF i]] by blast
    show "i = j" if "j < ?n" "f \<in> interest w' (ep w i)" "f \<in> interest w' (ep w j)" for j f
      using that(2,3) [unfolded int' [OF i] int' [OF that(1)]] d(6) [OF i that(1), of f] notin [OF i] notin [OF that(1)] by auto
    show "distinct (batch (workers w ! i))" using d(7) [OF i] by simp
    show "set (batch (workers w ! i)) \<subseteq> interest w' (ep w i)" using d(7) [OF i] i int' by auto
    show "mStarted (workers w' ! i)" if "interest w' (ep w i) \<noteq> {}"
    proof -
      from that obtain f where "f \<in> interest w' (ep w i)" by blast
      with int' [OF i] d(8) [OF i] started' [OF i] show ?thesis by auto
    qed
  qed (use d(9) handed' num in auto)
qed

lemma wait_inv:
  assumes inv: "inv_a w" and k: "k < length (workers w)" and r: "events_ok w k r"
  shows "inv_a (process_wait k r w)"
proof -
  note d = inv_aD [OF inv]
  let ?w = "process_wait k r w" and ?n = "length (workers w)"
  have wk: "workers ?w = (workers w)[k := (workers w ! k)\<lparr>batch := (case r of Inl _ \<Rightarrow> [] | Inr fds \<Rightarrow> fds)\<rparr>]"
    "hist ?w = Cpp (Epoll_wait (ep w k) r) # hist w" "interest ?w = interest w" "servSock ?w = servSock w" "counter ?w = counter w"
    by (simp_all add: process_wait_def emit_def Let_def ep_def)
  have ep': "ep ?w i = ep w i" for i using k by (cases "i = k") (simp_all add: ep_def wk)
  have b: "distinct (batch (workers ?w ! i)) \<and> set (batch (workers ?w ! i)) \<subseteq> interest w (ep w i)" if "i < ?n" for i
    using d(7) [OF that] r k by (cases "i = k") (auto simp: wk events_ok_def ep_def split: sum.splits)
  have st: "mStarted (workers ?w ! i) = mStarted (workers w ! i)" for i
    using k by (cases "i = k") (simp_all add: wk)
  from inv b st show ?thesis by (simp add: inv_a_def ep' wk(2-5)) (simp add: wk(1))
qed

text \<open>Calls on one connection of a worker, which may be closed by them.\<close>

lemma inv_conn:
  assumes inv: "inv_a w" and k: "k < length (workers w)" and b: "batch (workers w ! k) = fd # fds"
    and w': "workers w' = (workers w)[k := (workers w ! k)\<lparr>batch := fds\<rparr>]" "servSock w' = servSock w" "counter w' = counter w"
    and x: "ext {} {fd} (hist w) (hist w')" and num: "accepted_n (hist w') = accepted_n (hist w)" "handed (hist w') = handed (hist w)"
    and keep: "interest w' = interest w \<and> open_fd (hist w') fd \<and> subseq (sent (hist w') fd) (recvd (hist w') fd) \<or>
      interest w' = (\<lambda>e. interest w e - {fd})"
  shows "inv_a w'"
proof -
  note d = inv_aD [OF inv]
  let ?n = "length (workers w)"
  have len: "length (workers w') = ?n" by (simp add: w')
  have ep': "ep w' i = ep w i" for i using k by (cases "i = k") (simp_all add: ep_def w')
  have st: "mStarted (workers w' ! i) = mStarted (workers w ! i)" for i
    using k by (cases "i = k") (simp_all add: w')
  have fdk: "fd \<in> interest w (ep w k)" "fd \<notin> set fds" using d(7) [OF k] b by auto
  have sub: "interest w' e \<subseteq> interest w e" for e using keep by auto
  have opn: "open_fd (hist w') f = open_fd (hist w) f" if "f \<noteq> fd" for f
    using open_fd_ext [OF x, of f] that by simp
  have fd: "fd \<noteq> servSock w" "j < ?n \<Longrightarrow> fd \<noteq> ep w j" for j using d(5) [OF k fdk(1)] by auto
  have good: "open_fd (hist w') f \<and> subseq (sent (hist w') f) (recvd (hist w') f)" if "i < ?n" "f \<in> interest w' (ep w i)" for i f
  proof (cases "f = fd")
    case True
    with that(2) keep show ?thesis by auto
  next
    case False
    with d(5) [OF that(1), of f] sub that(2) opn recvd_ext [OF x, of f] sent_ext [OF x, of f] show ?thesis by auto
  qed
  have b': "distinct (batch (workers w' ! i)) \<and> set (batch (workers w' ! i)) \<subseteq> interest w' (ep w i)" if "i < ?n" for i
  proof (cases "i = k")
    case True
    with k w' fdk d(7) [OF that] b keep show ?thesis by auto
  next
    case False
    then have "fd \<notin> interest w (ep w i)" using d(6) [OF that k _ fdk(1)] by blast
    with False d(7) [OF that] keep w' show ?thesis by auto
  qed
  show ?thesis
    unfolding inv_a_def len ep' w'(2,3) num st
  proof (intro conjI allI ballI impI)
    show "?n < 2 ^ 31" "open_fd (hist w') (servSock w)" using d(1,2) opn fd(1) by auto
    show "open_fd (hist w') (ep w i)" "ep w i \<noteq> servSock w" if "i < ?n" for i using d(3) [OF that] opn fd(2) [OF that] by auto
    show "i = j" if "i < ?n" "j < ?n" "ep w i = ep w j" for i j using d(4) [OF that] .
    fix i assume i: "i < ?n"
    show "open_fd (hist w') f" "subseq (sent (hist w') f) (recvd (hist w') f)"
      if "f \<in> interest w' (ep w i)" for f using good [OF i that] by simp_all
    show "f \<noteq> servSock w" if "f \<in> interest w' (ep w i)" for f using that d(5) [OF i, of f] sub by auto
    show "f \<noteq> ep w j" if "f \<in> interest w' (ep w i)" "j < ?n" for f j using that d(5) [OF i, of f] sub by auto
    show "i = j" if "j < ?n" "f \<in> interest w' (ep w i)" "f \<in> interest w' (ep w j)" for j f
      using that d(6) [OF i that(1)] sub by blast
    show "distinct (batch (workers w' ! i))" "set (batch (workers w' ! i)) \<subseteq> interest w' (ep w i)"
      using b' [OF i] by simp_all
    show "mStarted (workers w ! i)" if "interest w' (ep w i) \<noteq> {}" using that d(8) [OF i] sub by blast
  qed (use d(9,10) in auto)
qed

lemma handle_inv:
  assumes ok: "epoll_env_ok K" and inv: "inv_a w" and k: "k < length (workers w)" and run: "process_next K k w = Some w'"
  shows "inv_a w'"
proof (cases "batch (workers w ! k)")
  case Nil
  with run inv show ?thesis by (simp add: process_next_def)
next
  case (Cons fd fds)
  note d = inv_aD [OF inv]
  let ?w = "w\<lparr>workers := (workers w)[k := (workers w ! k)\<lparr>batch := fds\<rparr>]\<rparr>"
  have env: "env_ok (k_env K)" using ok by (simp add: epoll_env_ok_def)
  from run Cons have run': "processConnection K fd ?w = Some w'" by (simp add: process_next_def)
  then obtain bs where bs: "e_recv (k_env K) (hist w) fd (word_of_nat BUFF_SIZE) = Inr bs"
    by (auto simp: processConnection_run [OF ok] split: sum.splits)
  let ?h = "Recv fd (word_of_nat BUFF_SIZE) (Inr bs) # hist w"
  have good: "open_fd (hist w) fd" "subseq (sent (hist w) fd) (recvd (hist w) fd)"
    using d(5,7) [OF k] Cons by auto
  show ?thesis
  proof (cases "bs = []")
    case True
    with run' bs have w': "w' = ?w\<lparr>hist := Close fd # ?h, interest := (\<lambda>e. interest w e - {fd})\<rparr>"
      by (simp add: processConnection_run [OF ok] close_fd_world emit_def Let_def)
    have "ext {} {fd} (hist w) (Close fd # ?h)"
      by (auto simp: about_def ev_fd_def init_ok_def intro!: ext.intros)
    then show ?thesis by (intro inv_conn [OF inv k Cons]) (simp_all add: w' fun_eq_iff)
  next
    case False
    let ?r = "e_send (k_env K) ?h fd bs"
    from run' bs False have "w' = snd (c_send (k_env K) fd bs (?w\<lparr>hist := ?h\<rparr>))"
      by (simp add: processConnection_run [OF ok] emit_def Let_def)
    then have w': "hist w' = Send fd bs ?r # ?h" "workers w' = workers ?w" "servSock w' = servSock w" "counter w' = counter w"
      "interest w' = interest w"
      by (auto simp: c_send_def emit_def split: sum.splits)
    have "subseq (sent (hist w') fd) (recvd (hist w') fd)"
      using good(2) by (auto simp: w' split: sum.split intro: list_emb_append_mono subseq_append' subseq_order.trans [OF good(2)])
    moreover have "ext {} {fd} (hist w) (hist w')"
      by (auto simp: w' about_def ev_fd_def init_ok_def intro!: ext.intros)
    ultimately show ?thesis using good(1) by (intro inv_conn [OF inv k Cons]) (auto simp: w' fun_eq_iff split: sum.split)
  qed
qed

lemma step_inv_a:
  assumes "epoll_env_ok K" and "inv_a w" and "tcp_step K w w'"
  shows "inv_a w'"
  using assms(3)
  by (cases rule: tcp_stepE) (use accept_inv [OF assms(1,2)] wait_inv [OF assms(2)] handle_inv [OF assms(1,2)] in blast)+

end
