(* ===== verification/CppEpollProps.thy ===== *)
theory CppEpollProps
  imports CppEpollInv Demo
begin

text \<open>
  What holds of \<^verbatim>\<open>echo_tcp.cpp\<close>: the invariant in every state it reaches, then a run with one
  worker and one connection for the witnesses, then the properties.
\<close>

section \<open>Starting\<close>

text \<open>While the workers are made; \<open>boost::lexical_cast<int>\<close> gives an \<open>int\<close>.\<close>

definition cast_ok :: "(string \<Rightarrow> int option) \<Rightarrow> bool" where
  "cast_ok cast \<longleftrightarrow> (\<forall>s v. cast s = Some v \<longrightarrow> - (2 ^ 31) \<le> v \<and> v < 2 ^ 31)"

definition idle_workers :: "epoll_world \<Rightarrow> bool" where
  "idle_workers w \<longleftrightarrow> (\<forall>i < length (workers w). open_fd (hist w) (ep w i) \<and> batch (workers w ! i) = []) \<and>
     distinct (map mEpollFd (workers w)) \<and> interest w = (\<lambda>_. {}) \<and>
     accepted_n (hist w) = 0 \<and> (\<forall>e. handed (hist w) e = 0)"

lemma TestWorker_world:
  assumes ok: "epoll_env_ok K" and run: "TestWorker K w = Inr w'" and idle: "idle_workers w"
  shows "idle_workers w' \<and> length (workers w') = Suc (length (workers w))"
proof -
  from ok run obtain fd where fd: "\<not> open_fd (hist w) fd"
    and w': "w' = w\<lparr>hist := Epoll_create (Inr fd) # hist w,
      workers := workers w @ [\<lparr>mEpollFd = fd, mStarted = False, batch = []\<rparr>]\<rparr>"
    by (auto simp: TestWorker_def epoll_create1_def status_def emit_def epoll_env_ok_def split: sum.splits if_splits)
  from idle have old: "open_fd (hist w) (ep w i)" "batch (workers w ! i) = []" if "i < length (workers w)" for i
    using that by (simp_all add: idle_workers_def)
  have "open_fd (hist w') (ep w' i) \<and> batch (workers w' ! i) = []" if "i < length (workers w')" for i
    using that old by (cases "i = length (workers w)") (auto simp: w' ep_def nth_append)
  moreover have "fd \<notin> mEpollFd ` set (workers w)"
    using fd old(1) by (auto simp: in_set_conv_nth ep_def)
  ultimately show ?thesis using idle by (simp add: idle_workers_def w')
qed

lemma make_workers_world:
  "epoll_env_ok K \<Longrightarrow> make_workers K n w = Inr w' \<Longrightarrow> idle_workers w \<Longrightarrow>
     idle_workers w' \<and> length (workers w') = length (workers w) + n"
proof (induction n arbitrary: w)
  case 0
  then show ?case by simp
next
  case (Suc n)
  then obtain w1 where "TestWorker K w = Inr w1" "make_workers K n w1 = Inr w'"
    by (auto split: sum.splits)
  with Suc.IH [of w1] TestWorker_world [OF Suc.prems(1) _ Suc.prems(3)] Suc.prems(1) show ?case by auto
qed

lemma main_a_world:
  assumes ok: "epoll_env_ok K" and cast: "cast_ok cast" and w0: "fresh_world w0" "interest w0 = (\<lambda>_. {})"
    and run: "main_a K cast argv w0 = Some (Inr w)"
  shows "inv_a w \<and> cast (argv ! 2) = Some (int (length (workers w)))"
proof -
  have env: "env_ok (k_env K)" using ok by (simp add: epoll_env_ok_def)
  from run obtain port m where m: "cast (argv ! 1) = Some port" "cast (argv ! 2) = Some m" "0 \<le> m"
    by (auto simp: main_a_def split: if_splits option.splits)
  from run m obtain w1 where mk: "make_workers K (nat m) (w0\<lparr>workers := []\<rparr>) = Inr w1"
    by (auto simp: main_a_def split: if_splits sum.splits)
  have "idle_workers (w0\<lparr>workers := []\<rparr>)" using w0 by (simp add: idle_workers_def fresh_world_def)
  from make_workers_world [OF ok mk this] m(3) have w1: "idle_workers w1" "int (length (workers w1)) = m" by auto
  from run m mk obtain sd r1 r2 r3 x where e: "e_socket (k_env K) (hist w1) = Inr sd"
    and w: "hist w = Listen sd 1000 r3 # Bind sd x r2 # Setsockopt sd SOL_SOCKET SO_REUSEADDR 1 r1 #
      Socket AF_INET SOCK_STREAM 6 (Inr sd) # hist w1"
    "workers w = workers w1" "interest w = interest w1" "servSock w = sd" "counter w = 0"
    by (auto simp: main_a_def status_def c_setsockopt_def c_bind_def c_listen_def emit_def Let_def
        split: if_splits sum.splits)
  have new: "\<not> open_fd (hist w1) sd" using env_okD(3) [OF env e] by blast
  have ep': "ep w i = ep w1 i" for i by (simp add: ep_def w)
  from w1(1) have idle: "\<And>i. i < length (workers w1) \<Longrightarrow> open_fd (hist w1) (ep w1 i) \<and> batch (workers w1 ! i) = []"
    and dist: "distinct (map mEpollFd (workers w1))" and none: "interest w1 = (\<lambda>_. {})"
    and num: "accepted_n (hist w1) = 0" "\<And>e. handed (hist w1) e = 0"
    unfolding idle_workers_def by blast+
  have "inv_a w"
    unfolding inv_a_def ep' w(2-5)
  proof (intro conjI allI ballI impI)
    show "length (workers w1) < 2 ^ 31"
    proof -
      from cast m(2) have "m < 2 ^ 31" unfolding cast_ok_def by blast
      with w1(2) show ?thesis by simp
    qed
    show "i = j" if "i < length (workers w1)" "j < length (workers w1)" "ep w1 i = ep w1 j" for i j
      using that nth_eq_iff_index_eq [OF dist, of i j] by (simp add: ep_def)
    show "handed (hist w) (ep w1 i) = share (length (workers w1)) (accepted_n (hist w)) i" for i
      using num by (simp add: w(1) share_def)
  qed (use idle new none num in \<open>auto simp: w(1)\<close>)
  with m w w1(2) show ?thesis by simp
qed

lemma tcp_reach_inv:
  assumes "tcp_reach K cast w" and "epoll_env_ok K" and "cast_ok cast"
  shows "inv_a w"
  using assms(1)
  by (induction rule: tcp_reach.induct) (use main_a_world assms(2,3) step_inv_a in blast)+

section \<open>A run on a concrete environment\<close>

definition demo_k :: "(nat \<Rightarrow> errno + byte list) \<Rightarrow> (byte list \<Rightarrow> errno + nat) \<Rightarrow> epoll_env" where
  "demo_k rcv snt = \<lparr>k_env = demo_env () rcv snt,
     k_epoll_create = (\<lambda>h. if open_fd h 4 then Inl (Errno 24) else Inr 4),
     k_fcntl = (\<lambda>h fd cmd arg. Inr 0), k_epoll_ctl = (\<lambda>h e fd. Inr 0), k_thread = (\<lambda>h. None)\<rparr>"

lemma demo_k_ok: "epoll_env_ok (demo_k (deliver d) (accept_at_most n))"
  using demo_deliver_ok(1) [of "()" d n] by (auto simp: epoll_env_ok_def demo_k_def split: if_splits)

lemma demo_k_fail_ok: "epoll_env_ok (demo_k (\<lambda>_. Inl EAGAIN) (accept_at_most n))"
proof -
  have "env_ok (demo_env () (\<lambda>_. Inl EAGAIN) (accept_at_most n))"
    by (rule demo_env_ok) (auto simp: accept_at_most_def)
  then show ?thesis by (auto simp: epoll_env_ok_def demo_k_def split: if_splits)
qed

definition demo_cast :: "string \<Rightarrow> int option" where
  "demo_cast s = (if s = ''7'' then Some 7 else if s = ''1'' then Some 1 else if s = ''0'' then Some 0 else None)"

lemma demo_cast_ok: "cast_ok demo_cast"
  by (simp add: cast_ok_def demo_cast_def)

definition demo_world_a :: epoll_world where
  "demo_world_a = \<lparr>hist = [], errno = Errno 0, heap = \<lambda>_. None, servers = \<lambda>_. None, loop = 0,
     workers = [], servSock = 0, counter = 0, interest = \<lambda>_. {}\<rparr>"

definition demo_start_a :: epoll_world where
  "demo_start_a = demo_world_a\<lparr>hist := [Listen 3 1000 (Inr 0),
      Bind 3 \<lparr>sin_family = AF_INET, sin_addr = [0, 0, 0, 0], sin_port = htons 7\<rparr> (Inr 0),
      Setsockopt 3 SOL_SOCKET SO_REUSEADDR 1 (Inr 0), Socket AF_INET SOCK_STREAM 6 (Inr 3), Epoll_create (Inr 4)],
    workers := [\<lparr>mEpollFd = 4, mStarted = False, batch = []\<rparr>], servSock := 3\<rparr>"

definition demo_conn_a :: epoll_world where
  "demo_conn_a = demo_start_a\<lparr>hist := Pthread_create 0 4 0 # Cpp (Epoll_ctl 4 5 (Inr 0)) #
      Cpp (Fcntl 5 F_SETFL 2048 (Inr 0)) # Cpp (Fcntl 5 F_GETFL 0 (Inr 0)) #
      Accept 3 (Inr (5, \<lparr>sin_family = AF_INET, sin_addr = [127, 0, 0, 1], sin_port = [4, 0]\<rparr>)) # hist demo_start_a,
    workers := [\<lparr>mEpollFd = 4, mStarted = True, batch = []\<rparr>], counter := 1,
    interest := (\<lambda>_. {})(4 := {5})\<rparr>"

definition demo_event_a :: epoll_world where
  "demo_event_a = demo_conn_a\<lparr>hist := Cpp (Epoll_wait 4 (Inr [5])) # hist demo_conn_a,
    workers := [\<lparr>mEpollFd = 4, mStarted = True, batch = [5]\<rparr>]\<rparr>"

lemma demo_reach_start_a: "tcp_reach (demo_k rcv snt) demo_cast demo_start_a"
proof -
  have "main_a (demo_k rcv snt) demo_cast [''echo_tcp'', ''7'', ''1''] demo_world_a = Some (Inr demo_start_a)"
    by (simp add: main_a_def demo_cast_def TestWorker_def epoll_create1_def status_def emit_def demo_k_def demo_env_def
        c_setsockopt_def c_bind_def c_listen_def demo_world_a_def demo_start_a_def Let_def)
  then show ?thesis
    by (intro tcp_start) (simp_all add: fresh_world_def demo_world_a_def)
qed

lemma demo_reach_conn_a: "tcp_reach (demo_k rcv snt) demo_cast demo_conn_a"
proof -
  have "main_accept (demo_k rcv snt) demo_start_a = Some (Inr demo_conn_a)"
    by (simp add: main_accept_def c_accept_def addConnection_def fcntl_def epoll_ctl_add_def status_def emit_def
        demo_k_def demo_env_def demo_world_a_def demo_start_a_def demo_conn_a_def O_NONBLOCK_def Let_def)
  then show ?thesis by (intro tcp_next [OF demo_reach_start_a] accepts)
qed

lemma demo_reach_event_a: "tcp_reach (demo_k rcv snt) demo_cast demo_event_a"
proof -
  have "tcp_step (demo_k rcv snt) demo_conn_a (process_wait 0 (Inr [5]) demo_conn_a)"
    by (rule waits) (simp_all add: demo_conn_a_def demo_start_a_def events_ok_def MAX_EVENTS_def)
  moreover have "process_wait 0 (Inr [5]) demo_conn_a = demo_event_a"
    by (simp add: process_wait_def demo_event_a_def demo_conn_a_def emit_def)
  ultimately show ?thesis by (metis tcp_next demo_reach_conn_a)
qed

lemma demo_event_a_simps [simp]:
  "workers demo_event_a = [\<lparr>mEpollFd = 4, mStarted = True, batch = [5]\<rparr>]" "interest demo_event_a = (\<lambda>_. {})(4 := {5})"
  "workers demo_start_a = [\<lparr>mEpollFd = 4, mStarted = False, batch = []\<rparr>]"
  by (simp_all add: demo_event_a_def demo_conn_a_def demo_start_a_def)

section \<open>Properties\<close>

text \<open>C34: however the threads of \<^verbatim>\<open>echo_tcp.cpp\<close> interleave, every connection is in the interest
  list of one worker only and is open there; the events a worker has still to handle are for
  its own connections, without repetition, so no worker uses a descriptor that is closed or
  another's; what was written to a client is a subsequence of what came from it.\<close>

theorem own_connections_a:
  assumes "epoll_env_ok K" and "cast_ok cast" and "tcp_reach K cast w" and "k < length (workers w)"
  shows "distinct (batch (workers w ! k)) \<and>
    set (batch (workers w ! k)) \<subseteq> interest w (mEpollFd (workers w ! k)) \<and>
    (\<forall>fd \<in> interest w (mEpollFd (workers w ! k)). open_fd (hist w) fd \<and> fd \<noteq> servSock w \<and> mStarted (workers w ! k) \<and>
       subseq (sent (hist w) fd) (recvd (hist w) fd) \<and>
       (\<forall>j < length (workers w). fd \<in> interest w (mEpollFd (workers w ! j)) \<longrightarrow> j = k))"
proof -
  note d = inv_aD [OF tcp_reach_inv [OF assms(3,1,2)], unfolded ep_def]
  show ?thesis using d(5,7,8) [OF assms(4)] d(6) [OF _ assms(4)] by blast
qed

theorem own_connections_a_witness:
  "open_fd (hist demo_event_a) 5 \<and> subseq (sent (hist demo_event_a) 5) (recvd (hist demo_event_a) 5)"
  using own_connections_a [OF demo_k_ok [of "[]" 0] demo_cast_ok demo_reach_event_a, of 0] by simp

text \<open>C35: connections are handed out in turn: of the first \<open>a\<close> (below 2^64) connections, worker \<open>k\<close> of
  \<open>n\<close> got the quotient \<open>a div n\<close>, and one more if \<open>k < a mod n\<close>; two workers differ by at most one.\<close>

theorem round_robin_a:
  assumes "epoll_env_ok K" and "cast_ok cast" and "tcp_reach K cast w" and "accepted_n (hist w) < 2 ^ 64"
    and "j < length (workers w)" and "k < length (workers w)"
  shows "handed (hist w) (mEpollFd (workers w ! k)) =
      accepted_n (hist w) div length (workers w) + (if k < accepted_n (hist w) mod length (workers w) then 1 else 0) \<and>
    handed (hist w) (mEpollFd (workers w ! j)) \<le> handed (hist w) (mEpollFd (workers w ! k)) + 1"
  using inv_aD(10) [OF tcp_reach_inv [OF assms(3,1,2)] assms(4), of k] assms(6)
    inv_aD(10) [OF tcp_reach_inv [OF assms(3,1,2)] assms(4), of j] assms(5) by (simp add: ep_def share_def)

theorem round_robin_a_witness:
  "handed (hist demo_event_a) 4 = 1"
  using round_robin_a [OF demo_k_ok [of "[]" 0] demo_cast_ok demo_reach_event_a, of 0 0]
  by (simp add: demo_event_a_def demo_conn_a_def demo_start_a_def)

text \<open>One event is one \<open>read\<close> of at most 100 bytes. If it gives bytes they are written back
  once, and what \<open>write\<close> does not take is lost; at the end of the stream the connection is
  closed and leaves the interest lists. Descriptors are watched edge-triggered, so bytes
  beyond the first 100 wait for the next event.\<close>

lemma process_next_a:
  assumes "epoll_env_ok K" and "batch (workers w ! k) = fd # fds" and "k < length (workers w)"
    and "e_recv (k_env K) (hist w) fd 100 = Inr bs"
  shows "length bs \<le> 100 \<and> (\<exists>w'. process_next K k w = Some w' \<and> batch (workers w' ! k) = fds \<and>
    (if bs = [] then interest w' = (\<lambda>e. interest w e - {fd}) \<and> \<not> open_fd (hist w') fd
     else interest w' = interest w \<and> (\<exists>r. hist w' = Send fd bs r # Recv fd 100 (Inr bs) # hist w \<and>
       recvd (hist w') fd = recvd (hist w) fd @ bs \<and>
       sent (hist w') fd = sent (hist w) fd @ (case r of Inl _ \<Rightarrow> [] | Inr n \<Rightarrow> take n bs))))"
proof -
  have env: "env_ok (k_env K)" using assms(1) by (simp add: epoll_env_ok_def)
  have "length bs \<le> 100" using env_okD(1) [OF env assms(4)] by simp
  moreover have buf: "word_of_nat BUFF_SIZE = (100 :: size_t)" by (simp add: BUFF_SIZE_def)
  ultimately show ?thesis
    using assms
    by (auto simp: process_next_def processConnection_run [OF assms(1)] buf close_fd_world c_send_def emit_def Let_def
        split: sum.splits)
qed

text \<open>C36: the handling of an event is undefined exactly if \<open>read\<close> fails, for whatever reason: its -1
  becomes the \<open>size_t\<close> 2^64 - 1, which is not at most 0, so \<open>write\<close> is told to send that many
  bytes from the 100 bytes on the stack.\<close>

theorem read_error_undefined_a:
  assumes "epoll_env_ok K" and "cast_ok cast" and "tcp_reach K cast w" and "k < length (workers w)"
    and "batch (workers w ! k) = fd # fds"
  shows "process_next K k w = None \<longleftrightarrow> (\<exists>e. e_recv (k_env K) (hist w) fd 100 = Inl e)"
proof -
  have "word_of_nat BUFF_SIZE = (100 :: size_t)" by (simp add: BUFF_SIZE_def)
  with assms(5) show ?thesis
    by (auto simp: process_next_def processConnection_run [OF assms(1)] Let_def split: sum.splits)
qed

theorem read_error_undefined_a_witness:
  "process_next (demo_k (\<lambda>_. Inl EAGAIN) (accept_at_most 1)) 0 demo_event_a = None"
proof -
  have "e_recv (k_env (demo_k (\<lambda>_. Inl EAGAIN) (accept_at_most 1))) (hist demo_event_a) 5 100 = Inl EAGAIN"
    by (simp add: demo_k_def demo_env_def)
  with read_error_undefined_a [OF demo_k_fail_ok demo_cast_ok demo_reach_event_a, of 0 5 "[]"] show ?thesis by simp
qed

text \<open>Started with 0 workers the program listens, and the first connection it accepts makes it
  divide by zero; started with more it accepts, whatever the other calls give.\<close>

lemma no_workers_a:
  assumes "epoll_env_ok K" and "cast_ok cast" and "fresh_world w0" and "interest w0 = (\<lambda>_. {})"
    and "main_a K cast argv w0 = Some (Inr w)" and "e_accept (k_env K) (hist w) (servSock w) = Inr (fd, a)"
  shows "main_accept K w = None \<longleftrightarrow> cast (argv ! 2) = Some 0"
proof -
  have env: "env_ok (k_env K)" using assms(1) by (simp add: epoll_env_ok_def)
  from main_a_world [OF assms(1-5)] have "cast (argv ! 2) = Some 0 \<longleftrightarrow> workers w = []" by simp
  with env_okD(4) [OF env assms(6)] assms(6) show ?thesis
    by (auto simp: main_accept_def c_accept_def emit_def split: sum.split)
qed

end
