(* ===== verification/CppClient.thy ===== *)
theory CppClient
  imports Asio Addresses
begin

text \<open>
  \<^verbatim>\<open>client-c++-virtan/client.cc\<close>: the load generator on Boost.Asio. A chain of timers makes up
  to 10000 connections, one each millisecond; each sends a message of 32 bytes at random
  intervals, compares what comes back with it and measures the time. One definition for each
  function; \<open>connection_handler::connect\<close> is \<open>handler_connect\<close>, and so on. Each handler runs
  as one step; the attempts of \<open>async_connect\<close> that fail before one succeeds leave no trace.
  The main thread, which prints the statistics meanwhile, reads one counter at a step: any
  number of handlers may run between two of its reads.
\<close>

section \<open>The code\<close>

subsection \<open>Constants, data and global variables\<close>

definition clients_max :: size_t where
  "clients_max = 10000"

definition client_timeout_mcs :: size_t where
  "client_timeout_mcs = 30 * 1000 * 1000"

text \<open>A \<open>timer\<close> is the \<open>struct timeval\<close> of its start: seconds and microseconds.\<close>

type_synonym timer = "64 word \<times> 64 word"

record connection_handler =
  service_id :: size_t
  x_sock :: "int option"
  send_buf :: "nat \<Rightarrow> byte"
  read_buf :: "nat \<Rightarrow> byte"
  connect_timer :: timer
  exchange_timer :: timer
  errored :: bool
  tqueue :: "timer list"

text \<open>
  The operations, each with its handler: the two timers (how long they wait is not modelled:
  they may run out at any time) with \<open>new_connection_handler\<close> and
  \<open>send_staff\<close>, \<open>async_connect\<close> with \<open>connect\<close>, \<open>async_write\<close> with \<open>stub\<close> and \<open>async_read\<close> with
  \<open>compare_staff\<close>. The flag of \<open>Exch\<close> says that \<open>expires_from_now\<close> cancelled the wait.
\<close>

datatype async_cc =
    Bear (cc_ptr: ptr) | Connecting (cc_ptr: ptr) | Exch (cc_ptr: ptr) bool
  | Writing (cc_ptr: ptr) | Reading (cc_ptr: ptr)

text \<open>
  The counters that \<open>print_stat\<close> reads, its three statements with the averages, and where the
  main thread is: before or after a call of \<open>print_stat\<close>, or in one of its statements, with what it
  has read for it so far, in this order, and the values of \<open>conn_avg\<close> and \<open>lat_avg\<close>.
\<close>

datatype counter = Children | Connection_active | Connection_errors | Exchange_errors
  | Connection_summ_mcs | Latency_summ_mcs | Msgs

datatype stage = In_conn_avg | In_lat_avg | In_output

datatype main_at = Before_stat | In_stat stage "(counter \<times> size_t) list" size_t size_t | After_stat

record world_cc = "(connection_handler, unit, async_cc) asio_world" +
  n_threads :: size_t
  services_i :: size_t
  connect_to :: "sockaddr_in list"
  children :: size_t
  connection_active :: size_t
  connection_errors :: size_t
  exchange_errors :: size_t
  connection_summ_mcs :: size_t
  latency_summ_mcs :: size_t
  msgs :: size_t
  main_i :: size_t
  main_at :: main_at

subsection \<open>class timer\<close>

definition timer_new :: "connection_handler asio_env \<Rightarrow> world_cc \<Rightarrow> timer \<times> world_cc" where
  "timer_new E w = (let t = a_time E (hist w) in (t, emit (Cpp (Gettimeofday (fst t) (snd t))) w))"

definition timer_current :: "connection_handler asio_env \<Rightarrow> timer \<Rightarrow> world_cc \<Rightarrow> size_t \<times> world_cc" where
  "timer_current E start_time w = (let (now, w) = timer_new E w in
     (fst now * 1000000 + snd now - fst start_time * 1000000 - snd start_time, w))"

subsection \<open>connection_handler\<close>

text \<open>The service a handler belongs to.\<close>

definition my_service :: "connection_handler \<Rightarrow> world_cc \<Rightarrow> nat" where
  "my_service c w = unat (service_id c mod n_threads w)"

text \<open>\<open>new connection_handler\<close>; \<open>services[service_id % threads_]\<close> is undefined without threads.\<close>

definition new_connection :: "connection_handler asio_env \<Rightarrow> world_cc \<Rightarrow> world_cc run" where
  "new_connection E w = (case a_new E (hist w) of
     None \<Rightarrow> Some (Inl Bad_alloc)
   | Some (p, c) \<Rightarrow>
       let w = emit (Malloc (Some p)) w;
           c = c\<lparr>service_id := services_i w\<rparr>;
           w = w\<lparr>services_i := services_i w + 1\<rparr>
       in if n_threads w = 0 then None
       else
         let (t1, w) = timer_new E w;
             (t2, w) = timer_new E w;
             c = c\<lparr>x_sock := None, connect_timer := t1, exchange_timer := t2, errored := False, tqueue := []\<rparr>
         in if clients_max \<le> service_id c then Some (Inr (w\<lparr>heap := (heap w)(p := Some c)\<rparr>))
         else
           let w = async (my_service c w) (Bear p) w;
               (t, w) = timer_new E w;
               w = w\<lparr>heap := (heap w)(p := Some (c\<lparr>connect_timer := t\<rparr>))\<rparr>;
               w = w\<lparr>connection_active := connection_active w + 1\<rparr>
           in Some (Inr (async (my_service c w) (Connecting p) w)))"

definition new_connection_handler :: "connection_handler asio_env \<Rightarrow> error_code \<Rightarrow> world_cc \<Rightarrow> world_cc run" where
  "new_connection_handler E e w = (if e \<noteq> Success then Some (Inl Assertion_failed) else new_connection E w)"

text \<open>A failure after the connection was made is counted once.\<close>

definition exchange_error :: "ptr \<Rightarrow> connection_handler \<Rightarrow> world_cc \<Rightarrow> world_cc run" where
  "exchange_error p c w = do {
     w \<leftarrow> store p (c\<lparr>errored := True\<rparr>) w;
     Some (Inr (w\<lparr>exchange_errors := exchange_errors w + 1\<rparr>))
   }"

definition read_staff :: "ptr \<Rightarrow> error_code \<Rightarrow> world_cc \<Rightarrow> world_cc run" where
  "read_staff p e w = do {
     c \<leftarrow> load p w;
     if errored c then Some (Inr w)
     else if e \<noteq> Success then exchange_error p c w
     else do {
       buf \<leftarrow> arr_write 33 (read_buf c) 0 (replicate 33 0);
       w \<leftarrow> store p (c\<lparr>read_buf := buf\<rparr>) w;
       Some (Inr (async (my_service c w) (Reading p) w))
     }
   }"

text \<open>\<open>expires_from_now\<close> cancels what waits for the timer; then it is waited for anew.\<close>

definition expires_from_now :: "ptr \<Rightarrow> world_cc \<Rightarrow> world_cc" where
  "expires_from_now p w = w\<lparr>ops := map (\<lambda>(i, op). (i, case op of Exch q b \<Rightarrow> Exch q (b \<or> q = p) | _ \<Rightarrow> op)) (ops w)\<rparr>"

definition send_staff :: "connection_handler asio_env \<Rightarrow> ptr \<Rightarrow> error_code \<Rightarrow> world_cc \<Rightarrow> world_cc run" where
  "send_staff E p e w =
     (if e \<noteq> Success then Some (Inl Assertion_failed)
      else do {
        c \<leftarrow> load p w;
        if errored c then Some (Inr w)
        else do {
          let w = emit (Cpp (Rand (a_rand E (hist w)))) w;
          let w = expires_from_now p w;
          let w = async (my_service c w) (Exch p False) w;
          let (t, w) = timer_new E w;
          w \<leftarrow> store p (c\<lparr>tqueue := tqueue c @ [t]\<rparr>) w;
          let w = emit (Cpp (Async_write p 32)) w;
          Some (Inr (async (my_service c w) (Writing p) w))
        }
      })"

text \<open>\<open>memset\<close>, \<open>snprintf\<close> of a random number and the two last bytes.\<close>

definition fill_send_buf :: "int \<Rightarrow> (nat \<Rightarrow> byte) \<Rightarrow> (nat \<Rightarrow> byte) option" where
  "fill_send_buf n buf = do {
     buf \<leftarrow> arr_write 33 buf 0 (replicate 32 32);
     buf \<leftarrow> arr_write 33 buf 0 (take 31 (map of_char (decimal (nat n))) @ [0]);
     buf \<leftarrow> arr_write 33 buf 31 [10];
     arr_write 33 buf 32 [0]
   }"

definition connection_error :: "ptr \<Rightarrow> connection_handler \<Rightarrow> world_cc \<Rightarrow> world_cc run" where
  "connection_error p c w = do {
     w \<leftarrow> store p (c\<lparr>errored := True\<rparr>) w;
     Some (Inr (w\<lparr>connection_errors := connection_errors w + 1\<rparr>))
   }"

definition handler_connect :: "connection_handler asio_env \<Rightarrow> ptr \<Rightarrow> error_code \<Rightarrow> world_cc \<Rightarrow> world_cc run" where
  "handler_connect E p e w = do {
     let w = w\<lparr>children := children w + 1\<rparr>;
     let w = w\<lparr>connection_active := connection_active w - 1\<rparr>;
     c \<leftarrow> load p w;
     if e \<noteq> Success then connection_error p c w
     else do {
       let (spent_mcs, w) = timer_current E (connect_timer c) w;
       if client_timeout_mcs < spent_mcs then connection_error p c w
       else do {
         let w = w\<lparr>connection_summ_mcs := connection_summ_mcs w + spent_mcs\<rparr>;
         let n = a_rand E (hist w);
         let w = emit (Cpp (Rand n)) w;
         buf \<leftarrow> fill_send_buf n (send_buf c);
         w \<leftarrow> store p (c\<lparr>send_buf := buf\<rparr>) w;
         fd \<leftarrow> x_sock c;
         (case a_set_option E (hist w) fd of
            Some err \<Rightarrow> Some (Inl (System_error err))
          | None \<Rightarrow> do {
              let w = emit (Setsockopt fd IPPROTO_TCP TCP_NODELAY 1 (Inr 0)) w;
              r \<leftarrow> read_staff p Success w;
              (case r of Inl err \<Rightarrow> Some (Inl err) | Inr w \<Rightarrow> send_staff E p Success w)
            })
       }
     }
   }"

definition stub :: "ptr \<Rightarrow> error_code \<Rightarrow> world_cc \<Rightarrow> world_cc run" where
  "stub p e w = do {
     c \<leftarrow> load p w;
     if errored c then Some (Inr w)
     else if e \<noteq> Success then exchange_error p c w
     else Some (Inr w)
   }"

text \<open>\<open>strncmp\<close> of the bytes from \<open>i\<close> on, \<open>n\<close> of them: it stops at the first zero byte.\<close>

fun strncmp_eq :: "(nat \<Rightarrow> byte) \<Rightarrow> (nat \<Rightarrow> byte) \<Rightarrow> nat \<Rightarrow> nat \<Rightarrow> bool" where
  "strncmp_eq a b i 0 = True"
| "strncmp_eq a b i (Suc n) \<longleftrightarrow> a i = b i \<and> (a i = 0 \<or> strncmp_eq a b (Suc i) n)"

definition compare_staff ::
  "connection_handler asio_env \<Rightarrow> ptr \<Rightarrow> error_code \<Rightarrow> nat \<Rightarrow> world_cc \<Rightarrow> world_cc run" where
  "compare_staff E p e transferred w = do {
     c \<leftarrow> load p w;
     if errored c then Some (Inr w)
     else if e \<noteq> Success \<or> transferred \<noteq> 32 \<or> \<not> strncmp_eq (send_buf c) (read_buf c) 0 32 then exchange_error p c w
     else case tqueue c of
         [] \<Rightarrow> None
       | t # ts \<Rightarrow>
           let (spent_mcs, w) = timer_current E t w;
               c = c\<lparr>tqueue := ts\<rparr>
           in do {
             w \<leftarrow> store p c w;
             if client_timeout_mcs < spent_mcs then exchange_error p c w
             else
               let w = w\<lparr>msgs := msgs w + 1\<rparr>;
                   w = w\<lparr>latency_summ_mcs := latency_summ_mcs w + spent_mcs\<rparr>
               in read_staff p e w
           }
   }"

subsection \<open>Statistics and the main program\<close>

text \<open>The value of a counter, and the counters each statement of \<open>print_stat\<close> reads.\<close>

fun counter_value :: "counter \<Rightarrow> world_cc \<Rightarrow> size_t" where
  "counter_value Children w = children w"
| "counter_value Connection_active w = connection_active w"
| "counter_value Connection_errors w = connection_errors w"
| "counter_value Exchange_errors w = exchange_errors w"
| "counter_value Connection_summ_mcs w = connection_summ_mcs w"
| "counter_value Latency_summ_mcs w = latency_summ_mcs w"
| "counter_value Msgs w = msgs w"

fun read_by :: "bool \<Rightarrow> stage \<Rightarrow> counter list" where
  "read_by final In_conn_avg = [Connection_summ_mcs, Children, Connection_errors]"
| "read_by final In_lat_avg = [Latency_summ_mcs, Msgs]"
| "read_by final In_output =
     [Children, Connection_errors] @ (if final then [Connection_active] else []) @ [Exchange_errors, Msgs]"

definition value_read :: "(counter \<times> size_t) list \<Rightarrow> counter \<Rightarrow> size_t" where
  "value_read rs k = (case map_of rs k of Some v \<Rightarrow> v | None \<Rightarrow> 0)"

text \<open>
  One step of \<open>print_stat\<close>: with \<open>Some k\<close> it reads the counter \<open>k\<close> for the statement it is in, in any
  order, since C++ leaves the order open in which the operands of an expression are evaluated;
  with \<open>None\<close> it ends the statement, when all its counters are read.
\<close>

definition print_stat :: "bool \<Rightarrow> counter option \<Rightarrow> world_cc \<Rightarrow> world_cc option" where
  "print_stat final x w = (case (main_at w, x) of
     (Before_stat, None) \<Rightarrow>
       let w = (if final then emit (Cpp (Cout [A_str (ln (CHR 0x0A # ''Final statistics:''))])) w else w)
       in Some (w\<lparr>main_at := In_stat In_conn_avg [] 0 0\<rparr>)
   | (In_stat st rs conn_avg lat_avg, Some k) \<Rightarrow>
       (if k \<in> set (read_by final st) \<and> k \<notin> fst ` set rs
        then Some (w\<lparr>main_at := In_stat st (rs @ [(k, counter_value k w)]) conn_avg lat_avg\<rparr>)
        else None)
   | (In_stat st rs conn_avg lat_avg, None) \<Rightarrow>
       (if set (read_by final st) \<subseteq> fst ` set rs
        then let v = value_read rs
          in Some (case st of
            In_conn_avg \<Rightarrow> w\<lparr>main_at := In_stat In_lat_avg []
              (v Connection_summ_mcs div max (v Children - v Connection_errors) 1) lat_avg\<rparr>
          | In_lat_avg \<Rightarrow> w\<lparr>main_at := In_stat In_output [] conn_avg (v Latency_summ_mcs div max (v Msgs) 1)\<rparr>
          | In_output \<Rightarrow> (emit (Cpp (Cout [A_str ''Chld: '', A_int (uint (v Children)),
              A_str '' ConnErr: '', A_int (uint (if final then v Connection_errors + v Connection_active
                else v Connection_errors)),
              A_str '' ExchErr: '', A_int (uint (v Exchange_errors)),
              A_str '' ConnAvg: '', A_double (d_div (double_of_nat (unat conn_avg)) (double_of_nat 1000)),
              A_str ''ms LatAvg: '', A_double (d_div (double_of_nat (unat lat_avg)) (double_of_nat 1000)),
              A_str ''ms  Msgs: '', A_int (uint (v Msgs)), A_str [CHR 0x0A]])) w)\<lparr>main_at := After_stat\<rparr>)
        else None)
   | _ \<Rightarrow> None)"

primrec start_services :: "connection_handler asio_env \<Rightarrow> nat \<Rightarrow> nat \<Rightarrow> world_cc \<Rightarrow> exn + world_cc" where
  "start_services E i 0 w = Inr w"
| "start_services E i (Suc k) w = (case a_thread E (hist w) i of
     Some e \<Rightarrow> Inl (System_error e)
   | None \<Rightarrow> start_services E (i + 1) k (emit (Pthread_create i 0 0) w))"

text \<open>
  \<open>main\<close> up to its loop of \<open>print_stat\<close> and \<open>sleep\<close>, during which the services run; \<open>services[0]\<close>
  does not exist without threads.
\<close>

definition main_cc :: "connection_handler asio_env \<Rightarrow> string list \<Rightarrow> world_cc \<Rightarrow> world_cc process run" where
  "main_cc E argv w =
     (if length argv < 2 then
        Some (Inr (Exited 1 (emit (Cpp (Cout [A_str ''Usage: '', A_str (argv ! 0),
          A_str (ln '' <host> [port = 32000 [threads = 24]]'')])) w)))
      else do {
        let host = argv ! 1;
        let port = (if 2 < length argv then argv ! 2 else ''32000'');
        n \<leftarrow> atoi (if 3 < length argv then argv ! 3 else ''24'');
        let w = w\<lparr>n_threads := word_of_int n\<rparr>;
        if \<not> a_new_array E (hist w) (unat (n_threads w)) then Some (Inl Bad_alloc)
        else case start_services E 0 (unat (n_threads w)) w of
          Inl e \<Rightarrow> Some (Inl e)
        | Inr w \<Rightarrow>
            let w = emit (Cpp (Sleep 1)) w;
                w = emit (Cpp (Cout [A_str (ln ''Starting tests'')])) w
            in if n_threads w = 0 then None
            else case a_resolve E host port of
              Inl e \<Rightarrow> Some (Inl (System_error e))
            | Inr addrs \<Rightarrow> (case new_connection E (w\<lparr>connect_to := addrs\<rparr>) of
                None \<Rightarrow> None
              | Some (Inl e) \<Rightarrow> Some (Inl e)
              | Some (Inr w) \<Rightarrow> Some (Inr (Running w)))
      })"

text \<open>
  One step of the loop of \<open>main\<close>, with its variable \<open>i\<close> in \<open>main_i\<close>: a step of a report, or after
  it five seconds of sleep; after the last report the end.
\<close>

definition main_loop_cc :: "counter option \<Rightarrow> world_cc \<Rightarrow> world_cc process option" where
  "main_loop_cc x w = (case main_at w of
     After_stat \<Rightarrow>
       (if x \<noteq> None then None
        else if main_i w < 60 then Some (Running ((emit (Cpp (Sleep 5)) w)\<lparr>main_i := main_i w + 5, main_at := Before_stat\<rparr>))
        else Some (Exited 0 w))
   | _ \<Rightarrow> map_option Running (print_stat (\<not> main_i w < 60) x w))"

subsection \<open>The services\<close>

definition run_cc :: "connection_handler asio_env \<Rightarrow> nat \<Rightarrow> async_cc \<Rightarrow> reply \<Rightarrow> world_cc \<Rightarrow> world_cc run" where
  "run_cc E i op r w = (case (op, r) of
     (Bear p, R_wait e) \<Rightarrow> new_connection_handler E e w
   | (Connecting p, R_connect (Inl e)) \<Rightarrow> handler_connect E p (Sys e) w
   | (Connecting p, R_connect (Inr (fd, a))) \<Rightarrow> do {
       c \<leftarrow> load p w;
       let w = w\<lparr>hist := Connect fd a (Inr 0) # Socket AF_INET SOCK_STREAM 0 (Inr fd) # hist w\<rparr>;
       w \<leftarrow> store p (c\<lparr>x_sock := Some fd\<rparr>) w;
       handler_connect E p Success w
     }
   | (Exch p cancelled, R_wait e) \<Rightarrow> send_staff E p e w
   | (Writing p, R_write k e) \<Rightarrow> do {
       c \<leftarrow> load p w;
       fd \<leftarrow> x_sock c;
       bs \<leftarrow> arr_read 33 (send_buf c) 0 32;
       stub p e (w\<lparr>hist := send_events fd bs k e (hist w)\<rparr>)
     }
   | (Reading p, R_read bs e) \<Rightarrow> do {
       c \<leftarrow> load p w;
       fd \<leftarrow> x_sock c;
       buf \<leftarrow> arr_write 33 (read_buf c) 0 bs;
       let w = w\<lparr>hist := recv_events fd 32 bs e (hist w)\<rparr>;
       w \<leftarrow> store p (c\<lparr>read_buf := buf\<rparr>) w;
       compare_staff E p e (length bs) w
     }
   | _ \<Rightarrow> None)"

text \<open>
  What the documentation promises: a wait that was not cancelled ends without an error,
  \<open>async_read\<close> and \<open>async_write\<close> transfer all 32 bytes or give an error.
\<close>

definition reply_ok_cc :: "world_cc \<Rightarrow> async_cc \<Rightarrow> reply \<Rightarrow> bool" where
  "reply_ok_cc w op r = (case (op, r) of
     (Bear p, R_wait e) \<Rightarrow> e = Success
   | (Connecting p, R_connect (Inr (fd, a))) \<Rightarrow> 0 \<le> fd \<and> \<not> open_fd (hist w) fd \<and> a \<in> set (connect_to w)
   | (Connecting p, R_connect (Inl e)) \<Rightarrow> True
   | (Exch p cancelled, R_wait e) \<Rightarrow> \<not> cancelled \<longrightarrow> e = Success
   | (Writing p, R_write k e) \<Rightarrow> k \<le> 32 \<and> (e = Success \<longleftrightarrow> k = 32)
   | (Reading p, R_read bs e) \<Rightarrow> length bs \<le> 32 \<and> (e = Success \<longleftrightarrow> length bs = 32)
   | _ \<Rightarrow> False)"

text \<open>How many messages a handler has given to \<open>async_write\<close> since it was made.\<close>

primrec writes :: "history \<Rightarrow> ptr \<Rightarrow> nat" where
  "writes [] p = 0"
| "writes (e # h) p = (case e of
     Malloc (Some q) \<Rightarrow> (if q = p then 0 else writes h p)
   | Cpp (Async_write q n) \<Rightarrow> (if q = p then 1 else 0) + writes h p
   | _ \<Rightarrow> writes h p)"

text \<open>A peer that sends no more than it was sent: no byte comes that was not handed to \<open>async_write\<close>.\<close>

definition peer_ok :: "world_cc \<Rightarrow> async_cc \<Rightarrow> reply \<Rightarrow> bool" where
  "peer_ok w op r = (case (op, r) of
     (Reading p, R_read bs e) \<Rightarrow> (case heap w p of None \<Rightarrow> True | Some c \<Rightarrow>
       (case x_sock c of None \<Rightarrow> True | Some fd \<Rightarrow> length (recvd (hist w) fd) + length bs \<le> 32 * writes (hist w) p))
   | _ \<Rightarrow> True)"

text \<open>Between the completions the main thread makes its steps.\<close>

definition turn_cc :: "connection_handler asio_env \<Rightarrow> world_cc \<Rightarrow> world_cc \<Rightarrow> bool" where
  "turn_cc E w w' \<longleftrightarrow> (\<exists>x. main_loop_cc x w = Some (Running w'))"

definition start_cc :: "connection_handler asio_env \<Rightarrow> world_cc \<Rightarrow> bool" where
  "start_cc E w \<longleftrightarrow> (\<exists>argv w0. fresh_world w0 \<and> ops w0 = [] \<and> services_i w0 = 0 \<and> children w0 = 0 \<and>
     connection_active w0 = 0 \<and> connection_errors w0 = 0 \<and> exchange_errors w0 = 0 \<and> connection_summ_mcs w0 = 0 \<and>
     latency_summ_mcs w0 = 0 \<and> msgs w0 = 0 \<and> main_i w0 = 0 \<and> main_at w0 = Before_stat \<and>
     main_cc E argv w0 = Some (Inr (Running w)))"

end
