(* ===== verification/CppClientInv.thy ===== *)
theory CppClientInv
  imports CppClient
begin

text \<open>
  The invariant of \<^verbatim>\<open>client.cc\<close>: what is pending for each handler, how its timers' queue
  agrees with the bytes that went and came, and what the global counters count. Then the
  lemmas that say which changes keep it: the end of an operation, a change of one connected
  handler, the end of a connection attempt, a new handler.
\<close>

section \<open>The invariant\<close>

fun is_bear :: "async_cc \<Rightarrow> bool" where
  "is_bear (Bear p) = True"
| "is_bear _ = False"

fun is_connecting :: "async_cc \<Rightarrow> bool" where
  "is_connecting (Connecting p) = True"
| "is_connecting _ = False"

fun is_exch :: "async_cc \<Rightarrow> bool" where
  "is_exch (Exch p b) = True"
| "is_exch _ = False"

fun is_reading :: "async_cc \<Rightarrow> bool" where
  "is_reading (Reading p) = True"
| "is_reading _ = False"

text \<open>What is pending for a handler, apart from the timer that makes the next one.\<close>

definition ops_of :: "(nat \<times> async_cc) list \<Rightarrow> ptr \<Rightarrow> (nat \<times> async_cc) list" where
  "ops_of xs p = filter (\<lambda>(i, op). cc_ptr op = p \<and> \<not> is_bear op) xs"

definition cnt :: "(async_cc \<Rightarrow> bool) \<Rightarrow> (nat \<times> async_cc) list \<Rightarrow> nat" where
  "cnt P xs = length (filter (\<lambda>(i, op). P op) xs)"

text \<open>
  A connected handler waits for its timer at most once and reads at most once at a time; no
  wait of it was cancelled.
\<close>

definition exchanging :: "(nat \<times> async_cc) list \<Rightarrow> bool" where
  "exchanging xs \<longleftrightarrow> (\<forall>(i, op) \<in> set xs. \<not> is_connecting op \<and> (\<forall>p. op \<noteq> Exch p True)) \<and>
     cnt is_exch xs \<le> 1 \<and> cnt is_reading xs \<le> 1"

text \<open>Each timer in the queue stands for a message that was sent and has not come back.\<close>

definition streams :: "history \<Rightarrow> ptr \<Rightarrow> int \<Rightarrow> connection_handler \<Rightarrow> bool" where
  "streams h p fd c \<longleftrightarrow> (\<exists>k. length (recvd h fd) = 32 * k \<and> writes h p = k + length (tqueue c))"

definition handler_ok ::
  "history \<Rightarrow> size_t \<Rightarrow> (nat \<times> async_cc) list \<Rightarrow> ptr \<Rightarrow> connection_handler \<Rightarrow> bool" where
  "handler_ok h n xs p c \<longleftrightarrow> allocated h p \<and> (\<forall>(i, op) \<in> set xs. i = unat (service_id c mod n)) \<and>
     (case x_sock c of
        None \<Rightarrow> tqueue c = [] \<and> writes h p = 0 \<and>
          (if errored c \<or> clients_max \<le> service_id c then xs = [] else \<exists>i. xs = [(i, Connecting p)])
      | Some fd \<Rightarrow> open_fd h fd \<and> exchanging xs \<and> (errored c \<or> streams h p fd c))"

text \<open>The handlers whose connection attempt has ended, and those that gave up.\<close>

definition ended :: "world_cc \<Rightarrow> ptr set" where
  "ended w = {p. \<exists>c. heap w p = Some c \<and> (errored c \<or> x_sock c \<noteq> None)}"

definition failed :: "world_cc \<Rightarrow> ptr set" where
  "failed w = {p. \<exists>c. heap w p = Some c \<and> errored c}"

text \<open>Those that gave up before and after their connection was made and the first message given out.\<close>

definition failed_conn :: "world_cc \<Rightarrow> ptr set" where
  "failed_conn w = {p. \<exists>c. heap w p = Some c \<and> errored c \<and> writes (hist w) p = 0}"

definition failed_exch :: "world_cc \<Rightarrow> ptr set" where
  "failed_exch w = {p. \<exists>c. heap w p = Some c \<and> errored c \<and> 0 < writes (hist w) p}"

definition rounds :: "history \<Rightarrow> nat" where
  "rounds h = length (filter (\<lambda>e. e = Cpp (Sleep 5)) h)"

definition counters_ok :: "world_cc \<Rightarrow> bool" where
  "counters_ok w \<longleftrightarrow>
     unat (services_i w) \<le> 10001 \<and> card (dom (heap w)) = unat (services_i w) \<and>
     unat (connection_active w) = cnt is_connecting (ops w) \<and>
     unat (children w) + cnt is_connecting (ops w) = min (unat (services_i w)) 10000 \<and>
     unat (children w) = card (ended w) \<and>
     unat (connection_errors w) = card (failed_conn w) \<and>
     unat (exchange_errors w) = card (failed_exch w) \<and>
     unat (connection_summ_mcs w) + 30000000 * unat (connection_errors w) \<le> 30000000 * unat (children w) \<and>
     unat (main_i w) = 5 * rounds (hist w) \<and> rounds (hist w) \<le> 12"

definition handlers_ok :: "world_cc \<Rightarrow> bool" where
  "handlers_ok w \<longleftrightarrow>
     finite (dom (heap w)) \<and>
     (\<forall>p. heap w p = None \<longrightarrow> ops_of (ops w) p = []) \<and>
     (\<forall>p c. heap w p = Some c \<longrightarrow> handler_ok (hist w) (n_threads w) (ops_of (ops w) p) p c) \<and>
     (\<forall>p q c d fd. heap w p = Some c \<longrightarrow> heap w q = Some d \<longrightarrow> x_sock c = Some fd \<longrightarrow> x_sock d = Some fd \<longrightarrow> p = q)"

text \<open>A connected handler has given out its first message, unless it is in \<open>Z\<close>.\<close>

definition begun :: "ptr set \<Rightarrow> world_cc \<Rightarrow> bool" where
  "begun Z w \<longleftrightarrow> (\<forall>p c. heap w p = Some c \<longrightarrow> x_sock c \<noteq> None \<longrightarrow> errored c \<or> p \<in> Z \<or> 0 < writes (hist w) p)"

text \<open>The timer that makes the next handler belongs to a handler and runs in its service.\<close>

definition bears_ok :: "world_cc \<Rightarrow> bool" where
  "bears_ok w \<longleftrightarrow> (\<forall>i p. (i, Bear p) \<in> set (ops w) \<longrightarrow> (\<exists>c. heap w p = Some c \<and> i = my_service c w))"

text \<open>
  What the main thread has read for \<open>conn_avg\<close>: as long as \<open>children\<close> is not read, the other two
  agree with what it will be; and they agree with it if it was read last.
\<close>

definition stat_ok :: "(counter \<times> size_t) list \<Rightarrow> world_cc \<Rightarrow> bool" where
  "stat_ok rs w \<longleftrightarrow> distinct (map fst rs) \<and>
     (Children \<notin> fst ` set rs \<longrightarrow>
       (\<forall>s. (Connection_summ_mcs, s) \<in> set rs \<longrightarrow>
          unat s + 30000000 * unat (connection_errors w) \<le> 30000000 * unat (children w)) \<and>
       (\<forall>e. (Connection_errors, e) \<in> set rs \<longrightarrow> unat e \<le> unat (connection_errors w))) \<and>
     (\<forall>xs c e. rs = xs @ [(Children, c)] \<longrightarrow> (Connection_errors, e) \<in> set xs \<longrightarrow> unat e \<le> unat c \<and>
       (\<forall>s. (Connection_summ_mcs, s) \<in> set xs \<longrightarrow> unat s + 30000000 * unat e \<le> 30000000 * unat c))"

definition main_ok :: "world_cc \<Rightarrow> bool" where
  "main_ok w \<longleftrightarrow> (\<forall>rs a b. main_at w = In_stat In_conn_avg rs a b \<longrightarrow> stat_ok rs w)"

text \<open>One timer is left to make the next handler, until there are 10001.\<close>

definition inv_at :: "ptr set \<Rightarrow> world_cc \<Rightarrow> bool" where
  "inv_at Z w \<longleftrightarrow> n_threads w \<noteq> 0 \<and> handlers_ok w \<and> counters_ok w \<and> begun Z w \<and> bears_ok w \<and> main_ok w \<and>
     cnt is_bear (ops w) = (if unat (services_i w) \<le> 10000 then 1 else 0)"

abbreviation inv_cc :: "world_cc \<Rightarrow> bool" where
  "inv_cc \<equiv> inv_at {}"

text \<open>The same while a handler is to be made.\<close>

definition hole_cc :: "world_cc \<Rightarrow> bool" where
  "hole_cc w \<longleftrightarrow> n_threads w \<noteq> 0 \<and> handlers_ok w \<and> counters_ok w \<and> begun {} w \<and> main_ok w \<and>
     cnt is_bear (ops w) = 0 \<and> unat (services_i w) \<le> 10000"

lemma handlers_okD:
  assumes "handlers_ok w"
  shows "finite (dom (heap w))"
    and "heap w p = None \<Longrightarrow> ops_of (ops w) p = []"
    and "heap w p = Some c \<Longrightarrow> handler_ok (hist w) (n_threads w) (ops_of (ops w) p) p c"
    and "heap w p = Some c \<Longrightarrow> heap w q = Some d \<Longrightarrow> x_sock c = Some fd \<Longrightarrow> x_sock d = Some fd \<Longrightarrow> p = q"
  using assms unfolding handlers_ok_def by - metis+

lemma inv_ccD:
  assumes "inv_at Z w"
  shows "n_threads w \<noteq> 0" and "handlers_ok w" and "counters_ok w" and "begun Z w" and "bears_ok w" and "main_ok w"
    and "cnt is_bear (ops w) = (if unat (services_i w) \<le> 10000 then 1 else 0)"
  using assms by (simp_all add: inv_at_def)

lemma finite_sets:
  assumes "finite (dom (heap w))"
  shows "finite (ended w)" and "finite (failed w)" and "finite (failed_conn w)" and "finite (failed_exch w)"
  by (rule finite_subset [OF _ assms]; auto simp: ended_def failed_def failed_conn_def failed_exch_def)+

lemma failed_ended: "failed w \<subseteq> ended w"
  by (auto simp: failed_def ended_def)

lemma failed_split: "failed w = failed_conn w \<union> failed_exch w" "failed_conn w \<inter> failed_exch w = {}"
  by (auto simp: failed_def failed_conn_def failed_exch_def)

lemma errors_failed:
  assumes "counters_ok w" and "finite (dom (heap w))"
  shows "unat (connection_errors w) + unat (exchange_errors w) = card (failed w)"
  using assms(1) card_Un_disjoint [OF finite_sets(3,4) [OF assms(2)] failed_split(2)]
  by (simp add: counters_ok_def failed_split(1))

lemma errors_le_children:
  assumes "inv_at Z w"
  shows "unat (connection_errors w) + unat (exchange_errors w) \<le> unat (children w)"
    and "unat (children w) \<le> 10000"
proof -
  note fin = handlers_okD(1) [OF inv_ccD(2) [OF assms]]
  have "card (failed w) \<le> card (ended w)"
    by (rule card_mono [OF finite_sets(1) [OF fin] failed_ended])
  then show "unat (connection_errors w) + unat (exchange_errors w) \<le> unat (children w)" "unat (children w) \<le> 10000"
    using inv_ccD(3) [OF assms] errors_failed [OF _ fin] unfolding counters_ok_def by linarith+
qed

text \<open>While the main thread stands still, the counters it reads grow so that what it read stays right.\<close>

lemma main_ok_mono:
  assumes "main_ok w" and "main_at w' = main_at w" and "unat (connection_errors w) \<le> unat (connection_errors w')"
    and "unat (children w) + unat (connection_errors w') \<le> unat (children w') + unat (connection_errors w)"
  shows "main_ok w'"
proof -
  have "x + 30000000 * unat (connection_errors w') \<le> 30000000 * unat (children w')"
    if "x + 30000000 * unat (connection_errors w) \<le> 30000000 * unat (children w)" for x :: nat
    using that assms(4) by linarith
  moreover have "x \<le> unat (connection_errors w')" if "x \<le> unat (connection_errors w)" for x
    using that assms(3) by linarith
  ultimately show ?thesis using assms(1,2) unfolding main_ok_def stat_ok_def by auto
qed

lemma main_ok_same:
  "main_at w' = main_at w \<Longrightarrow> connection_errors w' = connection_errors w \<Longrightarrow> children w' = children w \<Longrightarrow>
     main_ok w' = main_ok w"
  by (simp add: main_ok_def stat_ok_def)

section \<open>Lists of operations\<close>

lemma cnt_simps [simp]:
  "cnt P [] = 0" "cnt P (x # xs) = (if P (snd x) then 1 else 0) + cnt P xs" "cnt P (xs @ ys) = cnt P xs + cnt P ys"
  by (simp_all add: cnt_def case_prod_beta)

lemma cnt_0: "cnt P xs = 0 \<longleftrightarrow> (\<forall>x \<in> set xs. \<not> P (snd x))"
  by (induction xs) auto

lemma cnt_remove1: "x \<in> set xs \<Longrightarrow> cnt P xs = (if P (snd x) then 1 else 0) + cnt P (remove1 x xs)"
  by (induction xs) auto

lemma ops_of_simps [simp]:
  "ops_of [] p = []" "ops_of (xs @ ys) p = ops_of xs p @ ops_of ys p"
  "ops_of (x # xs) p = (if cc_ptr (snd x) = p \<and> \<not> is_bear (snd x) then x # ops_of xs p else ops_of xs p)"
  by (simp_all add: ops_of_def case_prod_beta)

lemma set_ops_of: "x \<in> set (ops_of xs p) \<longleftrightarrow> x \<in> set xs \<and> cc_ptr (snd x) = p \<and> \<not> is_bear (snd x)"
  by (auto simp: ops_of_def)

lemma ops_of_remove1:
  "ops_of (remove1 x xs) p = (if cc_ptr (snd x) = p \<and> \<not> is_bear (snd x) then remove1 x (ops_of xs p) else ops_of xs p)"
  by (induction xs) auto

lemma cnt_remove1_le: "cnt P (remove1 x xs) \<le> cnt P xs"
  using cnt_remove1 [of x xs P] by (cases "x \<in> set xs") (simp_all add: remove1_idem)

lemma exchanging_remove1: "exchanging xs \<Longrightarrow> exchanging (remove1 x xs)"
  using cnt_remove1_le [of is_exch x xs] cnt_remove1_le [of is_reading x xs] set_remove1_subset [of x xs]
  unfolding exchanging_def by (meson le_trans subsetD)

text \<open>The handler of a pending operation.\<close>

lemma op_handler:
  assumes "handlers_ok w" and "(i, op) \<in> set (ops w)" and "\<not> is_bear op"
  obtains c where "heap w (cc_ptr op) = Some c"
    and "handler_ok (hist w) (n_threads w) (ops_of (ops w) (cc_ptr op)) (cc_ptr op) c"
    and "i = my_service c w"
proof -
  have x: "(i, op) \<in> set (ops_of (ops w) (cc_ptr op))" using assms(2,3) by (simp add: set_ops_of)
  then obtain c where "heap w (cc_ptr op) = Some c"
    using handlers_okD(2) [OF assms(1), of "cc_ptr op"] by (cases "heap w (cc_ptr op)") auto
  note ok = handlers_okD(3) [OF assms(1) this]
  then have "\<forall>(i, op) \<in> set (ops_of (ops w) (cc_ptr op)). i = my_service c w"
    by (simp add: handler_ok_def my_service_def)
  with x have "i = my_service c w" by blast
  with \<open>heap w (cc_ptr op) = Some c\<close> ok show thesis by (rule that)
qed

text \<open>A handler is connecting or connected, never both.\<close>

lemma connecting_handler:
  assumes "handler_ok h n xs p c" and "(i, op) \<in> set xs"
  shows "is_connecting op \<longleftrightarrow> x_sock c = None"
  using assms by (auto simp: handler_ok_def exchanging_def split: option.splits if_splits)

lemma connected_handler:
  assumes "handler_ok h n xs p c" and "(i, op) \<in> set xs" and "\<not> is_connecting op"
  obtains fd where "x_sock c = Some fd" and "open_fd h fd" and "exchanging xs" and "errored c \<or> streams h p fd c"
  using assms by (auto simp: handler_ok_def split: option.splits if_splits)

section \<open>The end of an operation\<close>

lemma inv_finish_cc:
  assumes inv: "inv_at Z w" and op: "(i, op) \<in> set (ops w)" "\<not> is_bear op" "\<not> is_connecting op"
  shows "inv_at Z (finish i op w)"
proof -
  note d = handlers_okD [OF inv_ccD(2) [OF inv]]
  have "handlers_ok (finish i op w)"
    unfolding handlers_ok_def
  proof (intro conjI allI impI)
    show "ops_of (ops (finish i op w)) p = []" if "heap (finish i op w) p = None" for p
      using that d(2) [of p] by (simp add: finish_def ops_of_remove1)
    show "handler_ok (hist (finish i op w)) (n_threads (finish i op w)) (ops_of (ops (finish i op w)) p) p c"
      if "heap (finish i op w) p = Some c" for p c
    proof -
      from that have p: "heap w p = Some c" by (simp add: finish_def)
      note ok = d(3) [OF this]
      show ?thesis
      proof (cases "cc_ptr op = p")
        case True
        with op(1,2) have "(i, op) \<in> set (ops_of (ops w) p)" by (simp add: set_ops_of)
        from connected_handler [OF ok this op(3)] obtain fd where fd: "x_sock c = Some fd" .
        have ops: "ops_of (remove1 (i, op) (ops w)) p = remove1 (i, op) (ops_of (ops w) p)"
          using True op(2) by (simp add: ops_of_remove1)
        have "set (remove1 (i, op) (ops_of (ops w) p)) \<subseteq> set (ops_of (ops w) p)" by (rule set_remove1_subset)
        with ok fd show ?thesis
          by (auto simp: handler_ok_def ops exchanging_remove1 finish_def)
      next
        case False
        with ok show ?thesis by (simp add: finish_def ops_of_remove1)
      qed
    qed
  qed (use d(1,4) in \<open>auto simp: finish_def\<close>)
  moreover have "counters_ok (finish i op w)"
    using inv_ccD(3) [OF inv] cnt_remove1 [OF op(1), of is_connecting] op(3)
    by (simp add: counters_ok_def finish_def ended_def failed_conn_def failed_exch_def)
  moreover have "begun Z (finish i op w)" "main_ok (finish i op w)"
    using inv_ccD(4,6) [OF inv] by (simp_all add: begun_def main_ok_def stat_ok_def finish_def)
  moreover have "bears_ok (finish i op w)"
    using inv_ccD(5) [OF inv] set_remove1_subset [of "(i, op)" "ops w"]
    by (auto simp: bears_ok_def finish_def my_service_def)
  ultimately show ?thesis using inv_ccD(1,7) [OF inv] cnt_remove1 [OF op(1), of is_bear] op(2)
    by (simp add: inv_at_def finish_def)
qed

lemma hole_finish:
  assumes inv: "inv_cc w" and op: "(i, Bear p) \<in> set (ops w)"
  shows "hole_cc (finish i (Bear p) w)"
proof -
  have "ops_of (remove1 (i, Bear p) (ops w)) q = ops_of (ops w) q" for q by (simp add: ops_of_remove1)
  moreover have "main_ok (finish i (Bear p) w) = main_ok w"
    by (rule main_ok_same) (simp_all add: finish_def)
  ultimately show ?thesis
    using inv cnt_remove1 [OF op, of is_bear] cnt_remove1 [OF op, of is_connecting]
    by (simp add: hole_cc_def inv_at_def handlers_ok_def counters_ok_def finish_def ended_def failed_conn_def
      failed_exch_def begun_def split: if_splits)
qed

text \<open>After the end of a wait or a read there is no other of the handler.\<close>

lemma finish_last:
  assumes inv: "inv_at Z w" and op: "(i, op) \<in> set (ops w)" "\<not> is_bear op" "\<not> is_connecting op"
    and P: "P = is_exch \<or> P = is_reading" "P op"
  shows "cnt P (ops_of (ops (finish i op w)) (cc_ptr op)) = 0"
proof -
  have x: "(i, op) \<in> set (ops_of (ops w) (cc_ptr op))" using op(1,2) by (simp add: set_ops_of)
  obtain c where "handler_ok (hist w) (n_threads w) (ops_of (ops w) (cc_ptr op)) (cc_ptr op) c"
    using op_handler [OF inv_ccD(2) [OF inv] op(1,2)] by blast
  from connected_handler [OF this x op(3)] have "exchanging (ops_of (ops w) (cc_ptr op))" by blast
  with P(1) have "cnt P (ops_of (ops w) (cc_ptr op)) \<le> 1" by (auto simp: exchanging_def)
  with cnt_remove1 [OF x, of P] P(2) op(2) show ?thesis by (simp add: finish_def ops_of_remove1)
qed

section \<open>A change of one connected handler\<close>

text \<open>Calls that open and close nothing and are about \<open>p\<close> and \<open>fd\<close> only.\<close>

definition about_cc :: "ptr \<Rightarrow> int \<Rightarrow> history \<Rightarrow> history \<Rightarrow> bool" where
  "about_cc p fd h h' \<longleftrightarrow> (\<forall>q. allocated h' q = allocated h q) \<and> (\<forall>f. open_fd h' f = open_fd h f) \<and>
     (\<forall>f. f \<noteq> fd \<longrightarrow> recvd h' f = recvd h f) \<and> (\<forall>q. q \<noteq> p \<longrightarrow> writes h' q = writes h q) \<and> rounds h' = rounds h"

lemma handler_ok_frame:
  assumes "handler_ok h n xs q c" and "x_sock c \<noteq> Some fd" and "q \<noteq> p" and "about_cc p fd h h'"
  shows "handler_ok h' n xs q c"
  using assms by (auto simp: handler_ok_def about_cc_def streams_def split: option.splits)

lemma inv_change:
  assumes inv: "inv_at Z w" and p: "heap w p = Some c" "x_sock c = Some fd" and h: "about_cc p fd (hist w) (hist w')"
    and heap: "heap w' = (heap w)(p := Some c')"
    and c': "service_id c' = service_id c" "x_sock c' = Some fd" "errored c \<Longrightarrow> errored c'"
      "errored c' \<or> streams (hist w') p fd c'"
    and ops: "ops w' = ops w @ xs" "\<forall>(i, op) \<in> set xs. i = my_service c w \<and> cc_ptr op = p \<and> \<not> is_bear op"
      "exchanging (ops_of (ops w) p @ xs)"
    and wr: "writes (hist w) p \<le> writes (hist w') p" "errored c' \<Longrightarrow> writes (hist w') p = writes (hist w) p"
      "errored c' \<Longrightarrow> errored c \<or> 0 < writes (hist w) p"
    and err: "exchange_errors w' = exchange_errors w + (if errored c' \<and> \<not> errored c then 1 else 0)"
    and same: "n_threads w' = n_threads w" "services_i w' = services_i w" "children w' = children w"
      "connection_active w' = connection_active w" "connection_errors w' = connection_errors w"
      "connection_summ_mcs w' = connection_summ_mcs w" "main_i w' = main_i w" "main_at w' = main_at w"
  shows "inv_at Z w'"
proof -
  note d = handlers_okD [OF inv_ccD(2) [OF inv]]
  have xs: "ops_of xs q = (if q = p then xs else [])" for q
    using ops(2) by (induction xs) auto
  have cnt: "cnt is_bear xs = 0" "cnt is_connecting xs = 0"
    using ops(2,3) by (auto simp: cnt_0 exchanging_def)
  note ok = d(3) [OF p(1)]
  have "handlers_ok w'"
    unfolding handlers_ok_def
  proof (intro conjI allI impI)
    show "ops_of (ops w') q = []" if "heap w' q = None" for q
      using that d(2) [of q] by (simp add: ops xs heap split: if_splits)
    show "handler_ok (hist w') (n_threads w') (ops_of (ops w') q) q d" if "heap w' q = Some d" for q d
    proof (cases "q = p")
      case True
      with that have "d = c'" by (simp add: heap)
      moreover have "\<forall>(i, op) \<in> set (ops_of (ops w) p @ xs). i = unat (service_id c' mod n_threads w')"
        using ok ops(2) by (auto simp: handler_ok_def my_service_def c'(1) same)
      ultimately show ?thesis
        using True ok h c'(2,4) ops(3) p(2) by (simp add: handler_ok_def about_cc_def xs ops(1))
    next
      case False
      with that have q: "heap w q = Some d" by (simp add: heap)
      with d(4) [OF q p(1)] p(2) False have "x_sock d \<noteq> Some fd" by blast
      from handler_ok_frame [OF d(3) [OF q] this False h] False show ?thesis by (simp add: ops(1) xs same)
    qed
    show "q = r" if "heap w' q = Some a" "heap w' r = Some b" "x_sock a = Some f" "x_sock b = Some f" for q r a b f
      using that d(4) p c'(2) by (auto simp: heap split: if_splits)
  qed (use d(1) heap in simp)
  moreover have "counters_ok w'"
  proof -
    have "dom (heap w') = dom (heap w)" using p(1) by (auto simp: heap)
    moreover have "ended w' = ended w" using p c'(2) by (auto simp: ended_def heap)
    moreover have other: "writes (hist w') q = writes (hist w) q" if "q \<noteq> p" for q
      using h that by (simp add: about_cc_def)
    have "failed_conn w' = failed_conn w"
      using p(1) wr c'(3) other by (auto simp: failed_conn_def heap split: if_splits)
    moreover have "unat (exchange_errors w') = card (failed_exch w')"
    proof (cases "errored c' \<and> \<not> errored c")
      case True
      then have "failed_exch w' = insert p (failed_exch w)" and "p \<notin> failed_exch w"
        using p(1) wr other by (auto simp: failed_exch_def heap)
      with finite_sets(4) [OF d(1)] have "card (failed_exch w') = card (failed_exch w) + 1" by simp
      moreover have "unat (exchange_errors w + 1) = unat (exchange_errors w) + 1"
        using errors_le_children [OF inv] by (simp add: unat_word_ariths)
      ultimately show ?thesis using True inv_ccD(3) [OF inv] by (simp add: counters_ok_def err same)
    next
      case False
      then have "failed_exch w' = failed_exch w"
        using p(1) wr c'(3) other by (auto simp: failed_exch_def heap split: if_splits)
      with False inv_ccD(3) [OF inv] show ?thesis by (auto simp: counters_ok_def err same)
    qed
    moreover have "rounds (hist w') = rounds (hist w)" using h by (simp add: about_cc_def)
    ultimately show ?thesis
      using inv_ccD(3) [OF inv] by (simp add: counters_ok_def same ops(1) cnt)
  qed
  moreover have "begun Z w'"
    unfolding begun_def
  proof (intro allI impI)
    fix q d assume q: "heap w' q = Some d" "x_sock d \<noteq> None"
    show "errored d \<or> q \<in> Z \<or> 0 < writes (hist w') q"
    proof (cases "q = p")
      case True
      have "errored c \<or> p \<in> Z \<or> 0 < writes (hist w) p"
        using inv_ccD(4) [OF inv] p by (simp add: begun_def)
      with True q c'(3) wr(1) show ?thesis by (auto simp: heap)
    next
      case False
      with q inv_ccD(4) [OF inv] h show ?thesis by (auto simp: begun_def heap about_cc_def)
    qed
  qed
  moreover have "bears_ok w'"
    using inv_ccD(5) [OF inv] ops(1,2) p c'(1) by (fastforce simp: bears_ok_def heap same my_service_def)
  moreover have "main_ok w'"
    using inv_ccD(6) [OF inv] main_ok_same [of w' w] same by simp
  ultimately show ?thesis using inv_ccD(1,7) [OF inv] by (simp add: inv_at_def same ops(1) cnt)
qed

section \<open>The end of a connection attempt\<close>

text \<open>What was pending for a connecting handler.\<close>

lemma connecting_ops:
  assumes inv: "inv_at Z w" and op: "(i, Connecting p) \<in> set (ops w)"
  obtains c where "heap w p = Some c" and "x_sock c = None" and "\<not> errored c" and "tqueue c = []"
    and "writes (hist w) p = 0" and "allocated (hist w) p" and "i = my_service c w"
    and "ops_of (remove1 (i, Connecting p) (ops w)) p = []"
proof -
  from op_handler [OF inv_ccD(2) [OF inv] op] obtain c where c: "heap w p = Some c"
    and ok: "handler_ok (hist w) (n_threads w) (ops_of (ops w) p) p c" and i: "i = my_service c w" by auto
  have x: "(i, Connecting p) \<in> set (ops_of (ops w) p)" using op by (simp add: set_ops_of)
  from connecting_handler [OF ok x] have none: "x_sock c = None" by simp
  with ok x have "\<not> errored c" "tqueue c = []" "writes (hist w) p = 0" "allocated (hist w) p"
    "ops_of (ops w) p = [(i, Connecting p)]" by (auto simp: handler_ok_def split: if_splits)
  with c none i show thesis by (intro that) (simp_all add: ops_of_remove1)
qed

lemma inv_connected:
  assumes inv: "inv_at Z w" and op: "(i, Connecting p) \<in> set (ops w)" and p: "heap w p = Some c"
    and ops: "ops w' = remove1 (i, Connecting p) (ops w)" and heap: "heap w' = (heap w)(p := Some c')"
    and h: "\<forall>q. allocated (hist w') q = allocated (hist w) q"
      "\<forall>f. open_fd (hist w') f \<longleftrightarrow> x_sock c' = Some f \<or> open_fd (hist w) f"
      "\<forall>f. x_sock c' \<noteq> Some f \<longrightarrow> recvd (hist w') f = recvd (hist w) f"
      "\<forall>q. writes (hist w') q = writes (hist w) q" "rounds (hist w') = rounds (hist w)"
    and fd: "\<forall>f. x_sock c' = Some f \<longrightarrow> \<not> open_fd (hist w) f \<and> recvd (hist w') f = []"
    and c': "service_id c' = service_id c" "tqueue c' = []" "errored c' \<or> x_sock c' \<noteq> None"
    and summ: "connection_summ_mcs w' = connection_summ_mcs w + (if errored c' then 0 else s)" "unat s \<le> 30000000"
    and cs: "children w' = children w + 1" "connection_active w' = connection_active w - 1"
      "connection_errors w' = connection_errors w + (if errored c' then 1 else 0)"
    and same: "n_threads w' = n_threads w" "services_i w' = services_i w" "exchange_errors w' = exchange_errors w"
      "main_i w' = main_i w" "main_at w' = main_at w"
  shows "inv_at (if errored c' then Z else insert p Z) w'"
proof -
  note d = handlers_okD [OF inv_ccD(2) [OF inv]]
  from connecting_ops [OF inv op] p have c: "x_sock c = None" "\<not> errored c" "writes (hist w) p = 0" "allocated (hist w) p"
    and own: "ops_of (ops w') p = []" by (auto simp: ops)
  have rest: "ops_of (ops w') q = ops_of (ops w) q" if "q \<noteq> p" for q using that by (simp add: ops ops_of_remove1)
  have old: "open_fd (hist w) f" if "heap w q = Some b" "x_sock b = Some f" for q b f
    using d(3) [OF that(1)] that(2) by (simp add: handler_ok_def)
  have "handlers_ok w'"
    unfolding handlers_ok_def
  proof (intro conjI allI impI)
    show "ops_of (ops w') q = []" if "heap w' q = None" for q
      using that d(2) [of q] rest [of q] by (auto simp: heap split: if_splits)
    show "handler_ok (hist w') (n_threads w') (ops_of (ops w') q) q b" if "heap w' q = Some b" for q b
    proof (cases "q = p")
      case True
      with that own h fd c(3,4) c'(2,3) show ?thesis
        by (auto simp: handler_ok_def heap exchanging_def streams_def split: option.splits)
    next
      case False
      with that have q: "heap w q = Some b" by (simp add: heap)
      have "x_sock c' \<noteq> Some f" if "x_sock b = Some f" for f using old [OF q that] fd by blast
      with d(3) [OF q] h False show ?thesis
        by (auto simp: handler_ok_def streams_def rest same split: option.splits)
    qed
    show "q = r" if "heap w' q = Some a" "heap w' r = Some b" "x_sock a = Some f" "x_sock b = Some f" for q r a b f
      using that d(4) fd old by (auto simp: heap split: if_splits)
  qed (use d(1) heap in simp)
  moreover have "counters_ok w'"
  proof -
    note k = inv_ccD(3) [OF inv, unfolded counters_ok_def]
    have n: "cnt is_connecting (ops w) = cnt is_connecting (ops w') + 1"
      using cnt_remove1 [OF op, of is_connecting] by (simp add: ops)
    have "ended w' = insert p (ended w)" "p \<notin> ended w"
      using p c(1,2) c'(3) by (auto simp: ended_def heap)
    then have e: "card (ended w') = card (ended w) + 1" using finite_sets(1) [OF d(1)] by simp
    have f: "card (failed_conn w') = card (failed_conn w) + (if errored c' then 1 else 0)"
    proof (cases "errored c'")
      case True
      then have "failed_conn w' = insert p (failed_conn w)" "p \<notin> failed_conn w"
        using p c(2,3) h(4) by (auto simp: failed_conn_def heap)
      with True show ?thesis using finite_sets(3) [OF d(1)] by simp
    next
      case False
      then have "failed_conn w' = failed_conn w" using p c(2) h(4) by (auto simp: failed_conn_def heap)
      with False show ?thesis by simp
    qed
    have x: "failed_exch w' = failed_exch w" using p c(2,3) h(4) by (auto simp: failed_exch_def heap)
    note b = errors_le_children [OF inv]
    have u: "unat (children w') = unat (children w) + 1"
      "unat (connection_errors w') = unat (connection_errors w) + (if errored c' then 1 else 0)"
      using b by (auto simp: cs unat_word_ariths)
    have a: "unat (connection_active w') = unat (connection_active w) - 1"
      using k n by (simp add: cs unat_minus_one [OF unat_gt_0 [THEN iffD1]] unat_sub word_le_nat_alt)
    have "unat (connection_summ_mcs w) \<le> 300000000000" using k b(2) by linarith
    then have "unat (connection_summ_mcs w') = unat (connection_summ_mcs w) + (if errored c' then 0 else unat s)"
      using summ by (auto simp: unat_word_ariths)
    then have m: "unat (connection_summ_mcs w') + 30000000 * unat (connection_errors w') \<le> 30000000 * unat (children w')"
      using k u summ(2) by (cases "errored c'") simp_all
    have "dom (heap w') = dom (heap w)" using p by (auto simp: heap)
    then show ?thesis
      unfolding counters_ok_def using k n e f x u a m by (auto simp: same h(5))
  qed
  moreover have "begun (if errored c' then Z else insert p Z) w'"
    using inv_ccD(4) [OF inv] h(4) by (auto simp: begun_def heap)
  moreover have "bears_ok w'"
    using inv_ccD(5) [OF inv] set_remove1_subset [of "(i, Connecting p)" "ops w"] p c'(1)
    by (fastforce simp: bears_ok_def heap ops same my_service_def)
  moreover have "main_ok w'"
  proof (rule main_ok_mono [OF inv_ccD(6) [OF inv] same(5)])
    have "unat (children w') = unat (children w) + 1"
      "unat (connection_errors w') = unat (connection_errors w) + (if errored c' then 1 else 0)"
      using errors_le_children [OF inv] by (auto simp: cs unat_word_ariths)
    then show "unat (connection_errors w) \<le> unat (connection_errors w')"
      "unat (children w) + unat (connection_errors w') \<le> unat (children w') + unat (connection_errors w)" by auto
  qed
  moreover have "cnt is_bear (ops w') = cnt is_bear (ops w)"
    using cnt_remove1 [OF op, of is_bear] by (simp add: ops)
  ultimately show ?thesis using inv_ccD(1,7) [OF inv] by (simp add: inv_at_def same)
qed

section \<open>A new handler\<close>

lemma inv_new_handler:
  assumes hole: "hole_cc w" and p: "heap w p = None" and heap: "heap w' = (heap w)(p := Some c)"
    and c: "service_id c = services_i w" "x_sock c = None" "\<not> errored c" "tqueue c = []"
    and h: "\<forall>q. allocated (hist w') q \<longleftrightarrow> q = p \<or> allocated (hist w) q" "\<forall>f. open_fd (hist w') f = open_fd (hist w) f"
      "\<forall>f. recvd (hist w') f = recvd (hist w) f" "\<forall>q. writes (hist w') q = (if q = p then 0 else writes (hist w) q)"
      "rounds (hist w') = rounds (hist w)"
    and ops: "ops w' = ops w @ (if clients_max \<le> service_id c then [] else [(my_service c w, Bear p), (my_service c w, Connecting p)])"
    and cs: "services_i w' = services_i w + 1"
      "connection_active w' = connection_active w + (if clients_max \<le> service_id c then 0 else 1)"
    and same: "n_threads w' = n_threads w" "children w' = children w" "connection_errors w' = connection_errors w"
      "exchange_errors w' = exchange_errors w" "connection_summ_mcs w' = connection_summ_mcs w" "main_i w' = main_i w" "main_at w' = main_at w"
  shows "inv_cc w'"
proof -
  from hole have "handlers_ok w" and k: "counters_ok w" "n_threads w \<noteq> 0" "cnt is_bear (ops w) = 0"
    "unat (services_i w) \<le> 10000" and bg: "begun {} w" and mn: "main_ok w" by (simp_all add: hole_cc_def)
  note d = handlers_okD [OF this(1)]
  have max: "clients_max \<le> service_id c \<longleftrightarrow> unat (services_i w) = 10000"
    using k(4) by (auto simp: c(1) clients_max_def word_le_nat_alt)
  have own: "ops_of (ops w) p = []" using d(2) p by blast
  have rest: "ops_of (ops w') q = ops_of (ops w) q" if "q \<noteq> p" for q using that by (simp add: ops)
  have "handlers_ok w'"
    unfolding handlers_ok_def
  proof (intro conjI allI impI)
    show "ops_of (ops w') q = []" if "heap w' q = None" for q
      using that d(2) [of q] rest [of q] by (auto simp: heap split: if_splits)
    show "handler_ok (hist w') (n_threads w') (ops_of (ops w') q) q b" if "heap w' q = Some b" for q b
    proof (cases "q = p")
      case True
      with that own c h show ?thesis by (simp add: handler_ok_def heap ops my_service_def same)
    next
      case False
      with that have "heap w q = Some b" by (simp add: heap)
      from d(3) [OF this] h False show ?thesis
        by (cases "x_sock b") (simp_all add: handler_ok_def rest same streams_def)
    qed
    show "q = r" if "heap w' q = Some a" "heap w' r = Some b" "x_sock a = Some f" "x_sock b = Some f" for q r a b f
      using that d(4) c(2) by (auto simp: heap split: if_splits)
  qed (use d(1) heap in simp)
  moreover have "ended w' = ended w" "failed_conn w' = failed_conn w" "failed_exch w' = failed_exch w"
    using p c(2,3) h(4) by (auto simp: ended_def failed_conn_def failed_exch_def heap)
  moreover have "dom (heap w') = insert p (dom (heap w))" "p \<notin> dom (heap w)" using p by (auto simp: heap)
  then have "card (dom (heap w')) = card (dom (heap w)) + 1" using d(1) by simp
  moreover have n: "unat (services_i w') = unat (services_i w) + 1" using k(4) by (simp add: cs unat_word_ariths)
  moreover have "cnt is_connecting (ops w) \<le> 10000" using k(1) unfolding counters_ok_def by linarith
  then have "unat (connection_active w') = unat (connection_active w) + (if clients_max \<le> service_id c then 0 else 1)"
    using k(1) by (auto simp: cs counters_ok_def unat_word_ariths)
  ultimately have "counters_ok w'"
    using k(1,4) max by (auto simp: counters_ok_def same h(5) ops)
  moreover have "begun {} w'"
    using bg p c(2) h(4) by (auto simp: begun_def heap)
  moreover have "(i, Bear q) \<notin> set (ops w)" for i q using k(3) by (auto simp: cnt_0)
  then have "bears_ok w'" by (auto simp: bears_ok_def ops heap my_service_def same split: if_splits)
  moreover have "main_ok w'" using mn main_ok_same [of w' w] same by simp
  ultimately show ?thesis using \<open>handlers_ok w'\<close> k(2,3,4) n max by (auto simp: inv_at_def same ops)
qed

lemma writes_simps [hist_simps, simp]:
  "writes (recv_events fd n bs e h) p = writes h p" "writes (send_events fd bs k e h) p = writes h p"
  by (auto simp: recv_events_def send_events_def Let_def split: error_code.split)

lemma rounds_simps [hist_simps, simp]:
  "rounds (e # h) = (if e = Cpp (Sleep 5) then 1 else 0) + rounds h"
  "rounds (recv_events fd n bs err h) = rounds h" "rounds (send_events fd bs k err h) = rounds h"
  by (auto simp: rounds_def recv_events_def send_events_def Let_def split: error_code.split)

lemma new_run:
  assumes hole: "hole_cc w" and ok: "asio_env_ok E"
  shows "new_connection E w = Some (Inl Bad_alloc) \<or> (\<exists>w'. new_connection E w = Some (Inr w') \<and> inv_cc w')"
proof (cases "a_new E (hist w)")
  case None
  then show ?thesis by (simp add: new_connection_def)
next
  case (Some pc)
  then obtain p c0 where new: "a_new E (hist w) = Some (p, c0)" by (cases pc) auto
  from hole have "handlers_ok w" "n_threads w \<noteq> 0" by (simp_all add: hole_cc_def)
  then have free: "heap w p = None"
    using handlers_okD(3) [of w p] asio_env_okD(1) [OF ok new] by (cases "heap w p") (auto simp: handler_ok_def)
  obtain w' where run: "new_connection E w = Some (Inr w')"
    using new \<open>n_threads w \<noteq> 0\<close>
    by (cases "clients_max \<le> services_i w") (auto simp: new_connection_def Let_def timer_new_def emit_def)
  obtain c where "heap w' = (heap w)(p := Some c)" "service_id c = services_i w" "x_sock c = None" "\<not> errored c"
    "tqueue c = []"
    "ops w' = ops w @ (if clients_max \<le> service_id c then [] else [(my_service c w, Bear p), (my_service c w, Connecting p)])"
    using run new \<open>n_threads w \<noteq> 0\<close>
    by (auto simp: new_connection_def Let_def case_prod_beta timer_new_def emit_def async_def my_service_def split: if_splits)
  moreover from this have "inv_cc w'"
    by (intro inv_new_handler [OF hole free, of w' c])
       (use run new \<open>n_threads w \<noteq> 0\<close> in \<open>auto simp: new_connection_def Let_def case_prod_beta timer_new_def emit_def async_def
         my_service_def split: if_splits\<close>)
  ultimately show ?thesis using run by blast
qed

end
