(* ===== verification/CppClientRun.thy ===== *)
theory CppClientRun
  imports CppClientInv
begin

text \<open>
  The handlers of \<^verbatim>\<open>client.cc\<close> keep the invariant: first the functions that a handler is made
  of, each on any connected handler, then the completion of each operation.
\<close>

section \<open>The functions\<close>

lemma about_ccI [intro]:
  assumes "\<And>q. allocated h' q = allocated h q" and "\<And>f. open_fd h' f = open_fd h f"
    and "\<And>f. f \<noteq> fd \<Longrightarrow> recvd h' f = recvd h f" and "\<And>q. q \<noteq> p \<Longrightarrow> writes h' q = writes h q" and "rounds h' = rounds h"
  shows "about_cc p fd h h'"
  using assms by (simp add: about_cc_def)

lemma exchanging_conn:
  assumes "inv_at Z w" and "heap w p = Some c" and "x_sock c = Some fd"
  shows "exchanging (ops_of (ops w) p)" and "errored c \<or> streams (hist w) p fd c"
  using handlers_okD(3) [OF inv_ccD(2) [OF assms(1)] assms(2)] assms(3) by (auto simp: handler_ok_def)

lemma begun_conn:
  "inv_at Z w \<Longrightarrow> heap w p = Some c \<Longrightarrow> x_sock c = Some fd \<Longrightarrow> p \<notin> Z \<Longrightarrow> errored c \<or> 0 < writes (hist w) p"
  using inv_ccD(4) [of Z w] unfolding begun_def by (metis option.distinct(1))

lemma inv_leave:
  assumes "inv_at Z w" and "heap w p = Some c" and "errored c \<or> 0 < writes (hist w) p"
  shows "inv_at (Z - {p}) w"
proof -
  have "errored d \<or> q \<in> Z - {p} \<or> 0 < writes (hist w) q" if "heap w q = Some d" "x_sock d \<noteq> None" for q d
    using that assms(2,3) inv_ccD(4) [OF assms(1)] unfolding begun_def by (cases "q = p") auto
  then have "begun (Z - {p}) w" by (auto simp: begun_def)
  with assms(1) show ?thesis by (simp add: inv_at_def)
qed

lemma exchange_error_ok:
  assumes "inv_at Z w" and "heap w p = Some c" and "x_sock c = Some fd" and "\<not> errored c" and "p \<notin> Z"
  shows "\<exists>w'. exchange_error p c w = Some (Inr w') \<and> inv_at Z w'"
proof -
  let ?w = "w\<lparr>heap := (heap w)(p := Some (c\<lparr>errored := True\<rparr>)), exchange_errors := exchange_errors w + 1\<rparr>"
  have "exchange_error p c w = Some (Inr ?w)" using assms(2) by (simp add: exchange_error_def store_def)
  moreover have "inv_at Z ?w"
    by (rule inv_change [OF assms(1-3), where c' = "c\<lparr>errored := True\<rparr>" and xs = "[]"])
       (use exchanging_conn(1) [OF assms(1-3)] begun_conn [OF assms(1-3,5)] assms(3,4) in auto)
  ultimately show ?thesis by blast
qed

lemma read_staff_ok:
  assumes inv: "inv_at Z w" and p: "heap w p = Some c" "x_sock c = Some fd"
    and r: "errored c \<or> e \<noteq> Success \<or> cnt is_reading (ops_of (ops w) p) = 0" and z: "e = Success \<or> p \<notin> Z"
  shows "\<exists>w'. read_staff p e w = Some (Inr w') \<and> inv_at Z w' \<and>
    (\<not> errored c \<and> e = Success \<longrightarrow> (\<exists>c'. heap w' p = Some c' \<and> x_sock c' = Some fd \<and> \<not> errored c') \<and>
       cnt is_exch (ops_of (ops w') p) = cnt is_exch (ops_of (ops w) p))"
proof (cases "errored c \<or> e \<noteq> Success")
  case True
  with inv p z exchange_error_ok [OF inv p] show ?thesis
    by (cases "errored c") (auto simp: read_staff_def load_def)
next
  case False
  let ?buf = "arr_store (read_buf c) 0 (replicate 33 0)"
  let ?w = "w\<lparr>heap := (heap w)(p := Some (c\<lparr>read_buf := ?buf\<rparr>)), ops := ops w @ [(my_service c w, Reading p)]\<rparr>"
  have "read_staff p e w = Some (Inr ?w)"
    using False p by (simp add: read_staff_def load_def store_def arr_write_def async_def my_service_def)
  moreover have "inv_at Z ?w"
  proof (rule inv_change [OF inv p, where c' = "c\<lparr>read_buf := ?buf\<rparr>" and xs = "[(my_service c w, Reading p)]"])
    show "exchanging (ops_of (ops w) p @ [(my_service c w, Reading p)])"
      using exchanging_conn(1) [OF inv p] r False by (auto simp: exchanging_def)
    show "errored (c\<lparr>read_buf := ?buf\<rparr>) \<or> streams (hist ?w) p fd (c\<lparr>read_buf := ?buf\<rparr>)"
      using exchanging_conn(2) [OF inv p] by (simp add: streams_def)
  qed (use p in auto)
  ultimately show ?thesis using p False by auto
qed

text \<open>Without a wait that is pending there is nothing to cancel.\<close>

lemma expires_none:
  assumes "cnt is_exch (ops_of (ops w) p) = 0"
  shows "expires_from_now p w = w"
proof -
  have "(case x of (i, op) \<Rightarrow> (i, case op of Exch q b \<Rightarrow> Exch q (b \<or> q = p) | _ \<Rightarrow> op)) = x" if "x \<in> set (ops w)" for x
  proof (cases x)
    case (Pair i op)
    have "\<not> is_exch op" if "cc_ptr op = p" "\<not> is_bear op"
    proof -
      from that Pair \<open>x \<in> set (ops w)\<close> have "x \<in> set (ops_of (ops w) p)" by (simp add: set_ops_of)
      with assms Pair show ?thesis by (auto simp: cnt_0)
    qed
    with Pair show ?thesis by (cases op) auto
  qed
  then have "map (\<lambda>(i, op). (i, case op of Exch q b \<Rightarrow> Exch q (b \<or> q = p) | _ \<Rightarrow> op)) (ops w) = ops w"
    by (rule map_idI)
  then show ?thesis by (simp add: expires_from_now_def)
qed

lemma send_staff_ok:
  assumes inv: "inv_at Z w" and p: "heap w p = Some c" "x_sock c = Some fd"
    and s: "cnt is_exch (ops_of (ops w) p) = 0"
  shows "\<exists>w'. send_staff E p Success w = Some (Inr w') \<and> inv_at (Z - {p}) w'"
proof (cases "errored c")
  case True
  with inv_leave [OF inv p(1)] p show ?thesis by (auto simp: send_staff_def load_def)
next
  case False
  define n where "n = a_rand E (hist w)"
  define t where "t = a_time E (Cpp (Rand n) # hist w)"
  define c' where "c' = c\<lparr>tqueue := tqueue c @ [t]\<rparr>"
  define xs where "xs = [(my_service c w, Exch p False), (my_service c w, Writing p)]"
  define w' where "w' = w\<lparr>hist := Cpp (Async_write p 32) # Cpp (Gettimeofday (fst t) (snd t)) # Cpp (Rand n) # hist w,
    heap := (heap w)(p := Some c'), ops := ops w @ xs\<rparr>"
  have "expires_from_now p (w\<lparr>hist := Cpp (Rand n) # hist w\<rparr>) = w\<lparr>hist := Cpp (Rand n) # hist w\<rparr>"
    by (rule expires_none) (use s in simp)
  then have "send_staff E p Success w = Some (Inr w')"
    using False p
    by (simp add: send_staff_def load_def store_def timer_new_def emit_def async_def my_service_def Let_def w'_def xs_def c'_def
      t_def n_def)
  moreover have "inv_at Z w'"
  proof (rule inv_change [OF inv p, where c' = c' and xs = xs])
    show "exchanging (ops_of (ops w) p @ xs)"
      using exchanging_conn(1) [OF inv p] s by (auto simp: exchanging_def xs_def)
    show "errored c' \<or> streams (hist w') p fd c'"
      using exchanging_conn(2) [OF inv p] False by (auto simp: streams_def c'_def w'_def)
  qed (use p False in \<open>auto simp: w'_def c'_def xs_def\<close>)
  then have "inv_at (Z - {p}) w'"
    by (rule inv_leave [of Z w' p c']) (simp_all add: w'_def)
  ultimately show ?thesis by blast
qed

section \<open>Completions\<close>

text \<open>A write.\<close>

lemma writing_run:
  assumes inv: "inv_cc w" and op: "(i, Writing p) \<in> set (ops w)"
  shows "\<exists>w'. run_cc E i (Writing p) (R_write k e) (finish i (Writing p) w) = Some (Inr w') \<and> inv_cc w'"
proof -
  let ?w = "finish i (Writing p) w"
  have inv1: "inv_cc ?w" by (rule inv_finish_cc [OF inv op]) simp_all
  from op_handler [OF inv_ccD(2) [OF inv] op] obtain c where c: "heap w p = Some c"
    and ok: "handler_ok (hist w) (n_threads w) (ops_of (ops w) p) p c" by auto
  have "(i, Writing p) \<in> set (ops_of (ops w) p)" using op by (simp add: set_ops_of)
  with ok obtain fd where fd: "x_sock c = Some fd" by (rule connected_handler) simp
  let ?v = "?w\<lparr>hist := send_events fd (arr_slice (send_buf c) 0 32) k e (hist ?w)\<rparr>"
  have p1: "heap ?w p = Some c" and p2: "heap ?v p = Some c" using c by (simp_all add: finish_def)
  have "inv_cc ?v"
  proof (rule inv_change [OF inv1 p1 fd, where c' = c and xs = "[]"])
    show "errored c \<or> streams (hist ?v) p fd c"
      using exchanging_conn(2) [OF inv1 p1 fd] by (simp add: streams_def)
  qed (use exchanging_conn(1) [OF inv1 p1 fd] fd c in \<open>auto simp: finish_def\<close>)
  moreover have "run_cc E i (Writing p) (R_write k e) ?w = stub p e ?v"
    using c fd by (simp add: run_cc_def load_def arr_read_def finish_def)
  ultimately show ?thesis
    using exchange_error_ok [OF _ p2 fd] p2 by (auto simp: stub_def load_def)
qed

text \<open>A read: what came is compared and the next read is started.\<close>

lemma reading_run:
  assumes inv: "inv_cc w" and op: "(i, Reading p) \<in> set (ops w)"
    and r: "reply_ok_cc w (Reading p) (R_read bs e)" "peer_ok w (Reading p) (R_read bs e)"
  shows "\<exists>w'. run_cc E i (Reading p) (R_read bs e) (finish i (Reading p) w) = Some (Inr w') \<and> inv_cc w'"
proof -
  let ?w = "finish i (Reading p) w"
  have inv1: "inv_cc ?w" by (rule inv_finish_cc [OF inv op]) simp_all
  have reads: "cnt is_reading (ops_of (ops ?w) p) = 0"
    using finish_last [OF inv op, of is_reading] by simp
  from op_handler [OF inv_ccD(2) [OF inv] op] obtain c where c: "heap w p = Some c"
    and ok: "handler_ok (hist w) (n_threads w) (ops_of (ops w) p) p c" by auto
  have "(i, Reading p) \<in> set (ops_of (ops w) p)" using op by (simp add: set_ops_of)
  with ok obtain fd where fd: "x_sock c = Some fd" and str: "errored c \<or> streams (hist w) p fd c"
    by (rule connected_handler) simp
  from r(1) have bs: "length bs \<le> 32" "e = Success \<longleftrightarrow> length bs = 32" by (simp_all add: reply_ok_cc_def)
  let ?b = "c\<lparr>read_buf := arr_store (read_buf c) 0 bs\<rparr>"
  let ?h = "recv_events fd 32 bs e (hist w)"
  let ?v = "?w\<lparr>hist := ?h, heap := (heap w)(p := Some ?b)\<rparr>"
  have p1: "heap ?w p = Some c" using c by (simp add: finish_def)
  have ex: "exchanging (ops_of (ops ?w) p)" by (rule exchanging_conn(1) [OF inv1 p1 fd])
  have run: "run_cc E i (Reading p) (R_read bs e) ?w = compare_staff E p e (length bs) ?v"
    using c fd bs(1) by (simp add: run_cc_def load_def store_def arr_write_def finish_def)
  show ?thesis
  proof (cases "errored c")
    case True
    have "inv_cc ?v"
      by (rule inv_change [OF inv1 p1 fd, where c' = ?b and xs = "[]"]) (use True ex fd in \<open>auto simp: finish_def\<close>)
    with True run show ?thesis by (simp add: compare_staff_def load_def)
  next
    case good: False
    show ?thesis
    proof (cases "e \<noteq> Success \<or> length bs \<noteq> 32 \<or> \<not> strncmp_eq (send_buf ?b) (read_buf ?b) 0 32")
      case True
      let ?u = "?v\<lparr>heap := (heap w)(p := Some (?b\<lparr>errored := True\<rparr>)), exchange_errors := exchange_errors w + 1\<rparr>"
      have "compare_staff E p e (length bs) ?v = Some (Inr ?u)"
        using True good by (simp add: compare_staff_def load_def exchange_error_def store_def finish_def)
      moreover have "inv_cc ?u"
        by (rule inv_change [OF inv1 p1 fd, where c' = "?b\<lparr>errored := True\<rparr>" and xs = "[]"])
           (use ex fd good begun_conn [OF inv1 p1 fd] in \<open>auto simp: finish_def\<close>)
      ultimately show ?thesis using run by simp
    next
      case False
      with bs have e: "e = Success" "length bs = 32" by auto
      from str good obtain k where k: "length (recvd (hist w) fd) = 32 * k" "writes (hist w) p = k + length (tqueue c)"
        by (auto simp: streams_def)
      from r(2) c fd e(2) k have "1 \<le> length (tqueue c)" by (simp add: peer_ok_def)
      then have "tqueue c \<noteq> []" by (cases "tqueue c") simp_all
      then obtain t ts where q: "tqueue c = t # ts" by (auto simp: neq_Nil_conv)
      define now where "now = a_time E ?h"
      define spent where "spent = fst now * 1000000 + snd now - fst t * 1000000 - snd t"
      let ?g = "Cpp (Gettimeofday (fst now) (snd now)) # ?h"
      let ?d = "?b\<lparr>tqueue := ts\<rparr>"
      let ?x = "?v\<lparr>hist := ?g, heap := (heap w)(p := Some ?d)\<rparr>"
      have popped: "compare_staff E p e (length bs) ?v =
          (if client_timeout_mcs < spent then exchange_error p ?d ?x
           else read_staff p e (?x\<lparr>msgs := msgs w + 1, latency_summ_mcs := latency_summ_mcs w + spent\<rparr>))"
        using False good q
        by (simp add: compare_staff_def load_def store_def timer_current_def timer_new_def emit_def Let_def finish_def
          now_def spent_def)
      have k1: "\<exists>k'. 32 * k + 32 = 32 * k' \<and> k + length (tqueue c) = k' + length ts"
        by (rule exI [of _ "k + 1"]) (simp add: q)
      have str': "streams ?g p fd ?d" using k k1 e(2) by (simp add: streams_def)
      have inv2: "inv_cc ?x"
        by (rule inv_change [OF inv1 p1 fd, where c' = ?d and xs = "[]"])
           (use ex fd good str' in \<open>auto simp: finish_def\<close>)
      show ?thesis
      proof (cases "client_timeout_mcs < spent")
        case True
        with popped run exchange_error_ok [OF inv2, of p ?d fd] fd good show ?thesis by simp
      next
        case late: False
        let ?y = "?x\<lparr>msgs := msgs w + 1, latency_summ_mcs := latency_summ_mcs w + spent\<rparr>"
        have "inv_cc ?y"
          by (rule inv_change [OF inv1 p1 fd, where c' = ?d and xs = "[]"])
             (use ex fd good str' in \<open>auto simp: finish_def\<close>)
        from read_staff_ok [OF this, of p ?d fd e] fd reads have "\<exists>w'. read_staff p e ?y = Some (Inr w') \<and> inv_cc w'"
          by auto
        with popped run late show ?thesis by simp
      qed
    qed
  qed
qed

text \<open>The timer between two messages.\<close>

lemma exch_run:
  assumes inv: "inv_cc w" and op: "(i, Exch p b) \<in> set (ops w)" and r: "reply_ok_cc w (Exch p b) (R_wait e)"
  shows "\<exists>w'. run_cc E i (Exch p b) (R_wait e) (finish i (Exch p b) w) = Some (Inr w') \<and> inv_cc w'"
proof -
  let ?w = "finish i (Exch p b) w"
  have inv1: "inv_cc ?w" by (rule inv_finish_cc [OF inv op]) simp_all
  have none: "cnt is_exch (ops_of (ops ?w) p) = 0" using finish_last [OF inv op, of is_exch] by simp
  from op_handler [OF inv_ccD(2) [OF inv] op] obtain c where c: "heap w p = Some c"
    and ok: "handler_ok (hist w) (n_threads w) (ops_of (ops w) p) p c" by auto
  have x: "(i, Exch p b) \<in> set (ops_of (ops w) p)" using op by (simp add: set_ops_of)
  with ok obtain fd where fd: "x_sock c = Some fd" and ex: "exchanging (ops_of (ops w) p)"
    by (rule connected_handler) simp
  from ex x have "\<not> b" by (cases b) (auto simp: exchanging_def)
  with r have "e = Success" by (simp add: reply_ok_cc_def)
  moreover from c have "heap ?w p = Some c" by (simp add: finish_def)
  ultimately show ?thesis using send_staff_ok [OF inv1 _ fd none, of E] by (simp add: run_cc_def)
qed

text \<open>The timer that makes the next handler.\<close>

lemma bear_run:
  assumes inv: "inv_cc w" and ok: "asio_env_ok E" and op: "(i, Bear p) \<in> set (ops w)" and r: "reply_ok_cc w (Bear p) (R_wait e)"
  shows "run_cc E i (Bear p) (R_wait e) (finish i (Bear p) w) = Some (Inl Bad_alloc) \<or>
    (\<exists>w'. run_cc E i (Bear p) (R_wait e) (finish i (Bear p) w) = Some (Inr w') \<and> inv_cc w')"
  using new_run [OF hole_finish [OF inv op] ok] r by (simp add: run_cc_def reply_ok_cc_def new_connection_handler_def)

text \<open>The end of a connection attempt.\<close>

lemma fill_send_buf_ok: "\<exists>buf'. fill_send_buf n buf = Some buf'"
  by (simp add: fill_send_buf_def arr_write_def)

lemma connecting_run:
  assumes inv: "inv_cc w" and op: "(i, Connecting p) \<in> set (ops w)"
    and r: "reply_ok_cc w (Connecting p) (R_connect a)"
  shows "(\<exists>x. run_cc E i (Connecting p) (R_connect a) (finish i (Connecting p) w) = Some (Inl (System_error x))) \<or>
    (\<exists>w'. run_cc E i (Connecting p) (R_connect a) (finish i (Connecting p) w) = Some (Inr w') \<and> inv_cc w')"
proof -
  let ?w = "finish i (Connecting p) w"
  from connecting_ops [OF inv op] obtain c where c: "heap w p = Some c" "x_sock c = None" "\<not> errored c" "tqueue c = []"
    and own: "ops_of (ops ?w) p = []" by (metis finish_def asio_world.select_convs(1) asio_world.surjective asio_world.update_convs(1))
  show ?thesis
  proof (cases a)
    case (Inl e)
    let ?c = "c\<lparr>errored := True\<rparr>"
    let ?v = "?w\<lparr>heap := (heap w)(p := Some ?c), children := children w + 1, connection_active := connection_active w - 1,
      connection_errors := connection_errors w + 1\<rparr>"
    have "run_cc E i (Connecting p) (R_connect a) ?w = Some (Inr ?v)"
      using Inl c by (simp add: run_cc_def handler_connect_def connection_error_def load_def store_def finish_def)
    moreover have "inv_at (if errored ?c then {} else insert p {}) ?v"
      by (rule inv_connected [OF inv op c(1), where c' = ?c and s = 0]) (use c in \<open>auto simp: finish_def\<close>)
    ultimately show ?thesis by auto
  next
    case (Inr fa)
    then obtain fd ad where a: "a = Inr (fd, ad)" by (cases fa) auto
    with r have fresh: "\<not> open_fd (hist w) fd" by (simp add: reply_ok_cc_def)
    define h1 where "h1 = Connect fd ad (Inr 0) # Socket AF_INET SOCK_STREAM 0 (Inr fd) # hist w"
    define now where "now = a_time E h1"
    define h2 where "h2 = Cpp (Gettimeofday (fst now) (snd now)) # h1"
    define spent where "spent = fst now * 1000000 + snd now - fst (connect_timer c) * 1000000 - snd (connect_timer c)"
    define n where "n = a_rand E h2"
    obtain buf where buf: "fill_send_buf n (send_buf c) = Some buf" using fill_send_buf_ok by blast
    let ?u = "?w\<lparr>children := children w + 1, connection_active := connection_active w - 1\<rparr>"
    show ?thesis
    proof (cases "client_timeout_mcs < spent")
      case True
      let ?c = "c\<lparr>x_sock := Some fd, errored := True\<rparr>"
      let ?v = "?u\<lparr>hist := h2, heap := (heap w)(p := Some ?c), connection_errors := connection_errors w + 1\<rparr>"
      have "run_cc E i (Connecting p) (R_connect a) ?w = Some (Inr ?v)"
        using a c True
        by (simp add: run_cc_def handler_connect_def connection_error_def load_def store_def finish_def timer_current_def
          timer_new_def emit_def Let_def h1_def h2_def now_def spent_def)
      moreover have "inv_at (if errored ?c then {} else insert p {}) ?v"
        by (rule inv_connected [OF inv op c(1), where c' = ?c and s = 0]) (use c fresh in \<open>auto simp: finish_def h1_def h2_def\<close>)
      ultimately show ?thesis by auto
    next
      case False
      let ?c = "c\<lparr>x_sock := Some fd, send_buf := buf\<rparr>"
      let ?h = "Cpp (Rand n) # h2"
      let ?v = "?u\<lparr>connection_summ_mcs := connection_summ_mcs w + spent, heap := (heap w)(p := Some ?c)\<rparr>"
      show ?thesis
      proof (cases "a_set_option E ?h fd")
        case (Some err)
        then have "run_cc E i (Connecting p) (R_connect a) ?w = Some (Inl (System_error err))"
          using a c False buf
          by (simp add: run_cc_def handler_connect_def load_def store_def finish_def timer_current_def
            timer_new_def emit_def Let_def h1_def h2_def now_def spent_def n_def)
        then show ?thesis by blast
      next
        case None
        let ?x = "?v\<lparr>hist := Setsockopt fd IPPROTO_TCP TCP_NODELAY 1 (Inr 0) # ?h\<rparr>"
        have run: "run_cc E i (Connecting p) (R_connect a) ?w = (do {
            r \<leftarrow> read_staff p Success ?x;
            case_sum (\<lambda>err. Some (Inl err)) (send_staff E p Success) r})"
          using a c False buf None
          by (simp add: run_cc_def handler_connect_def load_def store_def finish_def timer_current_def
            timer_new_def emit_def Let_def h1_def h2_def now_def spent_def n_def)
        have "unat spent \<le> 30000000"
          using False by (simp add: client_timeout_mcs_def word_less_nat_alt not_less)
        then have "inv_at (if errored ?c then {} else insert p {}) ?x"
          by (intro inv_connected [OF inv op c(1), where c' = ?c and s = spent])
             (use c fresh in \<open>auto simp: finish_def h1_def h2_def\<close>)
        then have "inv_at {p} ?x" using c(3) by simp
        from read_staff_ok [OF this, of p ?c fd Success] own c obtain w1 c1
          where w1: "read_staff p Success ?x = Some (Inr w1)" "inv_at {p} w1" "heap w1 p = Some c1" "x_sock c1 = Some fd"
            "cnt is_exch (ops_of (ops w1) p) = 0" by auto
        from send_staff_ok [OF w1(2-5), of E] w1(1) run show ?thesis by auto
      qed
    qed
  qed
qed

end
