(* ===== verification/CppClientProps.thy ===== *)
theory CppClientProps
  imports CppClientRun AsioDemo
begin

text \<open>
  What holds of \<^verbatim>\<open>client.cc\<close>: no completion is undefined as long as the server sends no more
  than it was sent, what is pending for each handler, what the counters and the reports say,
  and what the comparison of the answers does not see. Then a run on a concrete environment,
  whose states are the inputs of the witnesses, and the properties.
\<close>

section \<open>Starting\<close>

lemma start_services_hist:
  "start_services E i k w = Inr w' \<Longrightarrow>
     \<exists>h. w' = w\<lparr>hist := h @ hist w\<rparr> \<and> (\<forall>e \<in> set h. \<exists>j. e = Pthread_create j 0 0)"
proof (induction k arbitrary: i w)
  case 0
  then show ?case by (intro exI [of _ "[]"]) auto
next
  case (Suc k)
  then have "start_services E (i + 1) k (emit (Pthread_create i 0 0) w) = Inr w'"
    by (auto split: option.splits)
  from Suc.IH [OF this] obtain h where h: "w' = (emit (Pthread_create i 0 0) w)\<lparr>hist := h @ hist (emit (Pthread_create i 0 0) w)\<rparr>"
    "\<forall>e \<in> set h. \<exists>j. e = Pthread_create j 0 0" by blast
  then show ?case by (intro exI [of _ "h @ [Pthread_create i 0 0]"]) (auto simp: emit_def)
qed

lemma rounds_threads: "\<forall>e \<in> set h. \<exists>j. e = Pthread_create j 0 0 \<Longrightarrow> rounds h = 0"
  by (induction h) (auto simp: rounds_def)

lemma rounds_append: "rounds (h @ h') = rounds h + rounds h'"
  by (simp add: rounds_def)

lemma start_cc_inv:
  assumes ok: "asio_env_ok E" and start: "start_cc E w"
  shows "inv_cc w"
proof -
  from start obtain argv w0 where w0: "hist w0 = []" "heap w0 = (\<lambda>_. None)" "ops w0 = []"
      "services_i w0 = 0" "children w0 = 0" "connection_active w0 = 0" "connection_errors w0 = 0"
      "exchange_errors w0 = 0" "connection_summ_mcs w0 = 0" "main_i w0 = 0"
      "main_at w0 = Before_stat"
    and main: "main_cc E argv w0 = Some (Inr (Running w))"
    unfolding start_cc_def fresh_world_def by (elim exE conjE) (rule that, auto)
  from main obtain n w1 addrs where s: "start_services E 0 (unat n) (w0\<lparr>n_threads := n\<rparr>) = Inr w1"
    and new: "n_threads w1 \<noteq> 0"
      "new_connection E ((emit (Cpp (Cout [A_str (ln ''Starting tests'')])) (emit (Cpp (Sleep 1)) w1))\<lparr>connect_to := addrs\<rparr>) =
        Some (Inr w)"
    by (auto simp: main_cc_def bind_some Let_def emit_def split: if_splits sum.splits option.splits)
  let ?w = "(emit (Cpp (Cout [A_str (ln ''Starting tests'')])) (emit (Cpp (Sleep 1)) w1))\<lparr>connect_to := addrs\<rparr>"
  from start_services_hist [OF s] obtain h where h: "w1 = w0\<lparr>n_threads := n, hist := h\<rparr>" "rounds h = 0"
    using rounds_threads w0(1) by auto
  have "hole_cc ?w"
    using new(1) h w0
    by (simp add: hole_cc_def handlers_ok_def counters_ok_def emit_def ended_def failed_conn_def failed_exch_def
      begun_def main_ok_def)
  from new_run [OF this ok] new(2) show ?thesis by auto
qed

text \<open>
  A step of the main thread changes no handler, no counter and no operation; it emits output,
  or sleeps.
\<close>

definition main_frame :: "world_cc \<Rightarrow> world_cc \<Rightarrow> bool" where
  "main_frame w w' \<longleftrightarrow> (\<exists>h. w' = w\<lparr>hist := h @ hist w, main_i := main_i w', main_at := main_at w'\<rparr> \<and>
     (\<forall>e \<in> set h. \<exists>x. e = Cpp (Cout x) \<or> e = Cpp (Sleep 5)))"

lemma main_frame_at: "main_frame w (w\<lparr>main_at := m\<rparr>)"
  unfolding main_frame_def by (rule exI [of _ "[]"]) simp

lemma main_frame_cout: "main_frame w (w\<lparr>hist := Cpp (Cout x) # hist w, main_at := m\<rparr>)"
  unfolding main_frame_def by (rule exI [of _ "[Cpp (Cout x)]"]) simp

lemma main_views:
  assumes "\<forall>e \<in> set h. \<exists>x. e = Cpp (Cout x) \<or> e = Cpp (Sleep 5)"
  shows "writes (h @ g) p = writes g p" and "recvd (h @ g) fd = recvd g fd" and "open_fd (h @ g) fd = open_fd g fd"
    and "allocated (h @ g) p = allocated g p"
proof (atomize (full), use assms in \<open>induction h\<close>)
  case (Cons e h)
  then obtain x where "e = Cpp (Cout x) \<or> e = Cpp (Sleep 5)" by (metis list.set_intros(1))
  with Cons show ?case by (elim disjE) simp_all
qed simp

lemma main_frame_inv:
  assumes inv: "inv_cc w" and fr: "main_frame w w'" and main: "main_ok w'"
    and i: "unat (main_i w') = 5 * rounds (hist w')" "rounds (hist w') \<le> 12"
  shows "inv_cc w'"
proof -
  from fr obtain h where w': "w' = w\<lparr>hist := h @ hist w, main_i := main_i w', main_at := main_at w'\<rparr>"
    and h: "\<forall>e \<in> set h. \<exists>x. e = Cpp (Cout x) \<or> e = Cpp (Sleep 5)" by (auto simp: main_frame_def)
  note views = main_views [OF h]
  have f: "heap w' = heap w" "ops w' = ops w" "n_threads w' = n_threads w" "hist w' = h @ hist w"
    "services_i w' = services_i w" "children w' = children w" "connection_active w' = connection_active w"
    "connection_errors w' = connection_errors w" "exchange_errors w' = exchange_errors w"
    "connection_summ_mcs w' = connection_summ_mcs w"
    by (subst w', simp)+
  have "handler_ok (hist w') n xs q c = handler_ok (hist w) n xs q c" for n xs q c
    by (cases "x_sock c") (simp_all add: handler_ok_def streams_def f views)
  then have "handlers_ok w'" using inv_ccD(2) [OF inv] by (simp add: handlers_ok_def f)
  moreover have "counters_ok w'"
    using inv_ccD(3) [OF inv] i by (simp add: counters_ok_def f ended_def failed_conn_def failed_exch_def views)
  moreover have "begun {} w'" "bears_ok w'"
    using inv_ccD(4,5) [OF inv] by (simp_all add: begun_def bears_ok_def f views my_service_def)
  ultimately show ?thesis using inv_ccD(1,7) [OF inv] main by (simp add: inv_at_def f)
qed

text \<open>Reading one more counter.\<close>

lemma stat_ok_read:
  assumes ok: "stat_ok rs w" and k: "k \<notin> fst ` set rs"
    and ce: "unat (connection_errors w) \<le> unat (children w)"
      "unat (connection_summ_mcs w) + 30000000 * unat (connection_errors w) \<le> 30000000 * unat (children w)"
  shows "stat_ok (rs @ [(k, counter_value k w)]) w"
proof -
  let ?rs = "rs @ [(k, counter_value k w)]"
  have d: "distinct (map fst ?rs)" using ok k by (auto simp: stat_ok_def)
  have first: "unat s + 30000000 * unat (connection_errors w) \<le> 30000000 * unat (children w)"
    if "Children \<notin> fst ` set ?rs" "(Connection_summ_mcs, s) \<in> set ?rs" for s
    using that ok ce(2) by (auto simp: stat_ok_def)
  have second: "unat e \<le> unat (connection_errors w)"
    if "Children \<notin> fst ` set ?rs" "(Connection_errors, e) \<in> set ?rs" for e
    using that ok by (auto simp: stat_ok_def)
  have last: "unat e \<le> unat c \<and> (\<forall>s. (Connection_summ_mcs, s) \<in> set xs \<longrightarrow> unat s + 30000000 * unat e \<le> 30000000 * unat c)"
    if "?rs = xs @ [(Children, c)]" "(Connection_errors, e) \<in> set xs" for xs c e
  proof -
    from that(1) have x: "xs = rs" "k = Children" "c = children w" by auto
    with ok k have "unat e \<le> unat (connection_errors w)"
      "\<And>s. (Connection_summ_mcs, s) \<in> set xs \<Longrightarrow>
        unat s + 30000000 * unat (connection_errors w) \<le> 30000000 * unat (children w)"
      using that(2) by (auto simp: stat_ok_def)
    with ce(1) show ?thesis unfolding x(3) by (meson add_left_mono le_trans mult_le_mono2)
  qed
  show ?thesis unfolding stat_ok_def using d first second last by blast
qed

lemma value_read_mem: "stat_ok rs w \<Longrightarrow> (k, v) \<in> set rs \<Longrightarrow> value_read rs k = v"
  by (simp add: stat_ok_def value_read_def map_of_eq_Some_iff)

lemma turn_inv:
  assumes inv: "inv_cc w" and turn: "turn_cc E w w'"
  shows "inv_cc w'"
proof -
  from turn obtain x where x: "main_loop_cc x w = Some (Running w')" by (auto simp: turn_cc_def)
  have k: "unat (main_i w) = 5 * rounds (hist w)" "rounds (hist w) \<le> 12"
    "unat (connection_summ_mcs w) + 30000000 * unat (connection_errors w) \<le> 30000000 * unat (children w)"
    using inv_ccD(3) [OF inv] unfolding counters_ok_def by linarith+
  have ce: "unat (connection_errors w) \<le> unat (children w)" using errors_le_children [OF inv] by linarith
  have main: "main_ok w'" if "\<And>rs a b. main_at w' = In_stat In_conn_avg rs a b \<Longrightarrow> rs = []"
    using that by (fastforce simp: main_ok_def stat_ok_def)
  show ?thesis
  proof (cases "main_at w = After_stat")
    case True
    with x have i: "main_i w < 60"
      and w': "w' = (emit (Cpp (Sleep 5)) w)\<lparr>main_i := main_i w + 5, main_at := Before_stat\<rparr>"
      by (auto simp: main_loop_cc_def split: if_splits)
    have "unat (main_i w) < 60" using i by (simp add: word_less_nat_alt)
    then have u: "unat (main_i w + 5) = unat (main_i w) + 5" by (simp add: unat_word_ariths)
    show ?thesis
    proof (rule main_frame_inv [OF inv])
      show "main_frame w w'" unfolding main_frame_def by (rule exI [of _ "[Cpp (Sleep 5)]"]) (simp add: w' emit_def)
      show "main_ok w'" by (rule main) (simp add: w')
    qed (use k u \<open>unat (main_i w) < 60\<close> in \<open>auto simp: w' emit_def\<close>)
  next
    case False
    with x have p: "print_stat (\<not> main_i w < 60) x w = Some w'"
      by (auto simp: main_loop_cc_def split: main_at.splits)
    have fr: "main_frame w w' \<and> main_i w' = main_i w \<and> rounds (hist w') = rounds (hist w)"
      using p by (auto simp: print_stat_def main_frame_at main_frame_cout emit_def Let_def
        split: main_at.splits option.splits if_splits stage.splits)
    have "main_ok w'"
    proof (cases "\<exists>rs a b c. main_at w = In_stat In_conn_avg rs a b \<and> x = Some c")
      case True
      then obtain rs a b c where m: "main_at w = In_stat In_conn_avg rs a b" "x = Some c" by blast
      with p have c: "c \<notin> fst ` set rs" and w': "w' = w\<lparr>main_at := In_stat In_conn_avg (rs @ [(c, counter_value c w)]) a b\<rparr>"
        by (simp_all add: print_stat_def split: if_splits)
      have "stat_ok rs w" using inv_ccD(6) [OF inv] m(1) by (simp add: main_ok_def)
      from stat_ok_read [OF this c ce k(3)] show ?thesis by (simp add: main_ok_def stat_ok_def w')
    next
      case False
      with p show ?thesis
        by (intro main) (auto simp: print_stat_def Let_def split: main_at.splits option.splits if_splits stage.splits)
    qed
    with fr k show ?thesis by (intro main_frame_inv [OF inv]) auto
  qed
qed

definition ok_cc :: "world_cc \<Rightarrow> async_cc \<Rightarrow> reply \<Rightarrow> bool" where
  "ok_cc w op r \<longleftrightarrow> reply_ok_cc w op r \<and> peer_ok w op r"

interpretation cc: asio_program run_cc ok_cc turn_cc start_cc asio_env_ok inv_cc "insert Bad_alloc (range System_error)"
proof unfold_locales
  fix E w
  assume "asio_env_ok E" and "start_cc E w"
  then show "inv_cc w" by (rule start_cc_inv)
next
  fix E w w'
  assume "inv_cc w" and "turn_cc E w w'"
  then show "inv_cc w'" by (rule turn_inv)
next
  fix E :: "connection_handler asio_env" and w i op r
  assume ok: "asio_env_ok E" and inv: "inv_cc w" and op: "(i, op) \<in> set (ops w)" and "ok_cc w op r"
  then have r: "reply_ok_cc w op r" "peer_ok w op r" by (simp_all add: ok_cc_def)
  show "(\<exists>e \<in> insert Bad_alloc (range System_error). run_cc E i op r (finish i op w) = Some (Inl e)) \<or>
    (\<exists>w'. run_cc E i op r (finish i op w) = Some (Inr w') \<and> inv_cc w')"
  proof (cases op)
    case (Bear p)
    with r(1) obtain e where "r = R_wait e" by (cases r) (auto simp: reply_ok_cc_def)
    with bear_run [OF inv ok] op r(1) Bear show ?thesis by blast
  next
    case (Connecting p)
    with r(1) obtain a where "r = R_connect a" by (cases r) (auto simp: reply_ok_cc_def)
    with connecting_run [OF inv] op r(1) Connecting show ?thesis by blast
  next
    case (Exch p b)
    with r(1) obtain e where "r = R_wait e" by (cases r) (auto simp: reply_ok_cc_def)
    with exch_run [OF inv] op r(1) Exch show ?thesis by blast
  next
    case (Writing p)
    with r(1) obtain k e where "r = R_write k e" by (cases r) (auto simp: reply_ok_cc_def)
    with writing_run [OF inv] op Writing show ?thesis by blast
  next
    case (Reading p)
    with r(1) obtain bs e where "r = R_read bs e" by (cases r) (auto simp: reply_ok_cc_def)
    with reading_run [OF inv] op r Reading show ?thesis by blast
  qed
qed

abbreviation reach_cc :: "connection_handler asio_env \<Rightarrow> world_cc \<Rightarrow> bool" where
  "reach_cc E \<equiv> asio_reach (run_cc E) ok_cc (turn_cc E) (start_cc E)"

section \<open>A run on a concrete environment\<close>

text \<open>One thread; the first handler is block 1 and gets descriptor 5; its message is the numeral 7.\<close>

definition blank_cc :: connection_handler where
  "blank_cc = \<lparr>service_id = 0, x_sock = None, send_buf = (\<lambda>_. 0), read_buf = (\<lambda>_. 0), connect_timer = (0, 0),
     exchange_timer = (0, 0), errored = False, tqueue = []\<rparr>"

abbreviation demo_cc :: "connection_handler asio_env" where
  "demo_cc \<equiv> demo_asio blank_cc"

definition demo_world_cc :: world_cc where
  "demo_world_cc = \<lparr>hist = [], errno = Errno 0, heap = \<lambda>_. None, servers = \<lambda>_. None, loop = 0, ops = [], n_threads = 0,
     services_i = 0, connect_to = [], children = 0, connection_active = 0, connection_errors = 0, exchange_errors = 0,
     connection_summ_mcs = 0, latency_summ_mcs = 0, msgs = 0, main_i = 0, main_at = Before_stat\<rparr>"

definition demo_start_cc :: world_cc where
  "demo_start_cc = demo_world_cc\<lparr>
     hist := [Cpp (Gettimeofday 0 0), Cpp (Gettimeofday 0 0), Cpp (Gettimeofday 0 0), Malloc (Some 1),
       Cpp (Cout [A_str (ln ''Starting tests'')]), Cpp (Sleep 1), Pthread_create 0 0 0],
     heap := (\<lambda>_. None)(1 := Some blank_cc), ops := [(0, Bear 1), (0, Connecting 1)], n_threads := 1, services_i := 1,
     connect_to := [zero_addr], connection_active := 1\<rparr>"

definition demo_buf :: "nat \<Rightarrow> byte" where
  "demo_buf = arr_store (arr_store (arr_store (arr_store (\<lambda>_. 0) 0 (replicate 32 32)) 0 [55, 0]) 31 [10]) 32 [0]"

definition demo_handler :: connection_handler where
  "demo_handler = blank_cc\<lparr>x_sock := Some 5, send_buf := demo_buf, read_buf := arr_store (\<lambda>_. 0) 0 (replicate 33 0),
     tqueue := [(0, 0)]\<rparr>"

definition demo_conn_cc :: world_cc where
  "demo_conn_cc = demo_start_cc\<lparr>
     hist := [Cpp (Async_write 1 32), Cpp (Gettimeofday 0 0), Cpp (Rand 7), Setsockopt 5 IPPROTO_TCP TCP_NODELAY 1 (Inr 0),
       Cpp (Rand 7), Cpp (Gettimeofday 0 0), Connect 5 zero_addr (Inr 0), Socket AF_INET SOCK_STREAM 0 (Inr 5)] @ hist demo_start_cc,
     heap := (\<lambda>_. None)(1 := Some demo_handler),
     ops := [(0, Bear 1), (0, Reading 1), (0, Exch 1 False), (0, Writing 1)], children := 1, connection_active := 0\<rparr>"

lemma demo_main_cc_run:
  "main_cc demo_cc [''client'', ''host'', ''7'', ''1''] demo_world_cc = Some (Inr (Running demo_start_cc))"
proof -
  have "atoi ''1'' = Some 1" by (simp add: atoi_def is_space_def digit_val_def)
  then show ?thesis
    by (simp add: main_cc_def demo_asio_def Let_def emit_def demo_world_cc_def demo_start_cc_def new_connection_def
        timer_new_def async_def my_service_def clients_max_def blank_cc_def)
qed

lemma demo_reach_start_cc: "reach_cc demo_cc demo_start_cc"
proof -
  have "fresh_world demo_world_cc" by (simp add: fresh_world_def demo_world_cc_def)
  with demo_main_cc_run have "start_cc demo_cc demo_start_cc"
    unfolding start_cc_def
    by (intro exI [of _ "[''client'', ''host'', ''7'', ''1'']"] exI [of _ demo_world_cc]) (simp add: demo_world_cc_def)
  then show ?thesis by (rule asio_start)
qed

lemma digit_byte: "d < 10 \<Longrightarrow> (of_char (digit d) :: byte) = word_of_nat (48 + d)"
  by (subst of_nat_of_char [symmetric]) simp

lemma demo_fill: "fill_send_buf 7 (\<lambda>_. 0) = Some demo_buf"
  by (simp add: fill_send_buf_def arr_write_def demo_buf_def decimal.simps [of 7] digit_byte)

lemma demo_connect_run:
  "run_cc demo_cc 0 (Connecting 1) (R_connect (Inr (5, zero_addr))) (finish 0 (Connecting 1) demo_start_cc) =
     Some (Inr demo_conn_cc)"
  by (simp add: run_cc_def load_def store_def finish_def handler_connect_def timer_current_def timer_new_def
      demo_asio_def emit_def client_timeout_mcs_def demo_fill arr_write_def read_staff_def send_staff_def expires_from_now_def
      async_def my_service_def demo_conn_cc_def demo_start_cc_def demo_world_cc_def blank_cc_def demo_handler_def Let_def)

lemma demo_step_conn_cc: "asio_step (run_cc demo_cc) ok_cc demo_start_cc demo_conn_cc"
  by (rule complete [where i = 0 and op = "Connecting 1" and r = "R_connect (Inr (5, zero_addr))"])
     (simp_all add: demo_connect_run, simp_all add: ok_cc_def reply_ok_cc_def peer_ok_def demo_start_cc_def demo_world_cc_def)

lemma demo_reach_conn_cc: "reach_cc demo_cc demo_conn_cc"
  by (rule asio_complete [OF demo_reach_start_cc demo_step_conn_cc])

lemma demo_conn_cc_simps [simp]:
  "ops demo_conn_cc = [(0, Bear 1), (0, Reading 1), (0, Exch 1 False), (0, Writing 1)]"
  "heap demo_conn_cc 1 = Some demo_handler" "n_threads demo_conn_cc = 1" "children demo_conn_cc = 1"
  "x_sock demo_handler = Some 5" "errored demo_handler = False" "tqueue demo_handler = [(0, 0)]"
  "service_id demo_handler = 0"
  by (simp_all add: demo_conn_cc_def demo_start_cc_def demo_handler_def blank_cc_def)

text \<open>The timer of the exchange runs out before the first message is written.\<close>

definition demo_over_cc :: world_cc where
  "demo_over_cc = demo_conn_cc\<lparr>
     hist := Cpp (Async_write 1 32) # Cpp (Gettimeofday 0 0) # Cpp (Rand 7) # hist demo_conn_cc,
     heap := (\<lambda>_. None)(1 := Some (demo_handler\<lparr>tqueue := [(0, 0), (0, 0)]\<rparr>)),
     ops := [(0, Bear 1), (0, Reading 1), (0, Writing 1), (0, Exch 1 False), (0, Writing 1)]\<rparr>"

lemma demo_reach_over_cc: "reach_cc demo_cc demo_over_cc"
proof -
  have "run_cc demo_cc 0 (Exch 1 False) (R_wait Success) (finish 0 (Exch 1 False) demo_conn_cc) = Some (Inr demo_over_cc)"
    by (simp add: run_cc_def load_def store_def finish_def send_staff_def expires_from_now_def timer_new_def demo_asio_def emit_def
        async_def my_service_def demo_over_cc_def Let_def)
       (simp add: demo_conn_cc_def demo_start_cc_def demo_world_cc_def)
  then have "asio_step (run_cc demo_cc) ok_cc demo_conn_cc demo_over_cc"
    by (intro complete [where i = 0 and op = "Exch 1 False" and r = "R_wait Success"])
       (simp_all add: ok_cc_def reply_ok_cc_def peer_ok_def)
  then show ?thesis by (rule asio_complete [OF demo_reach_conn_cc])
qed

text \<open>The message comes back.\<close>

definition demo_bytes :: "byte list" where
  "demo_bytes = [55, 0] @ replicate 29 32 @ [10]"

lemma length_demo_bytes [simp]: "length demo_bytes = 32"
  by (simp add: demo_bytes_def)

definition demo_echo_cc :: world_cc where
  "demo_echo_cc = demo_conn_cc\<lparr>
     hist := Cpp (Gettimeofday 0 0) # Recv 5 32 (Inr demo_bytes) # hist demo_conn_cc,
     heap := (\<lambda>_. None)(1 := Some (demo_handler\<lparr>tqueue := [],
       read_buf := arr_store (arr_store (read_buf demo_handler) 0 demo_bytes) 0 (replicate 33 0)\<rparr>)),
     ops := [(0, Bear 1), (0, Exch 1 False), (0, Writing 1), (0, Reading 1)], msgs := 1\<rparr>"

lemma demo_equal: "strncmp_eq demo_buf (arr_store b 0 demo_bytes) 0 32"
  by (simp add: numeral_eq_Suc demo_buf_def arr_store_def demo_bytes_def)

lemma demo_reach_echo_cc: "reach_cc demo_cc demo_echo_cc"
proof -
  have "send_buf demo_handler = demo_buf" by (simp add: demo_handler_def)
  then have "run_cc demo_cc 0 (Reading 1) (R_read demo_bytes Success) (finish 0 (Reading 1) demo_conn_cc) = Some (Inr demo_echo_cc)"
    using demo_equal [of "read_buf demo_handler"]
    by (simp add: run_cc_def load_def store_def finish_def compare_staff_def read_staff_def timer_current_def timer_new_def
        arr_write_def demo_asio_def emit_def async_def my_service_def recv_events_def client_timeout_mcs_def demo_echo_cc_def Let_def)
       (simp add: demo_conn_cc_def demo_start_cc_def demo_world_cc_def demo_bytes_def)
  moreover have "ok_cc demo_conn_cc (Reading 1) (R_read demo_bytes Success)"
    by (simp add: ok_cc_def reply_ok_cc_def peer_ok_def) (simp add: demo_conn_cc_def)
  ultimately have "asio_step (run_cc demo_cc) ok_cc demo_conn_cc demo_echo_cc"
    by (intro complete [where i = 0 and op = "Reading 1" and r = "R_read demo_bytes Success"]) simp_all
  then show ?thesis by (rule asio_complete [OF demo_reach_conn_cc])
qed

text \<open>The first attempt fails; while it does, the main thread computes its first average.\<close>

definition demo_failed_cc :: world_cc where
  "demo_failed_cc = demo_start_cc\<lparr>heap := (\<lambda>_. None)(1 := Some (blank_cc\<lparr>errored := True\<rparr>)), ops := [(0, Bear 1)],
     children := 1, connection_active := 0, connection_errors := 1\<rparr>"

lemma demo_fail_run:
  "run_cc demo_cc 0 (Connecting 1) (R_connect (Inl e)) (finish 0 (Connecting 1) (demo_start_cc\<lparr>main_at := m\<rparr>)) =
     Some (Inr (demo_failed_cc\<lparr>main_at := m\<rparr>))"
  by (simp add: run_cc_def load_def store_def finish_def handler_connect_def connection_error_def demo_failed_cc_def
      demo_start_cc_def demo_world_cc_def blank_cc_def)

lemma demo_step_failed_cc: "asio_step (run_cc demo_cc) ok_cc (demo_start_cc\<lparr>main_at := m\<rparr>) (demo_failed_cc\<lparr>main_at := m\<rparr>)"
  by (rule complete [where i = 0 and op = "Connecting 1" and r = "R_connect (Inl (Errno 111))"])
     (simp_all add: demo_fail_run, simp_all add: ok_cc_def reply_ok_cc_def peer_ok_def demo_start_cc_def demo_world_cc_def)

lemma demo_main_at: "demo_start_cc\<lparr>main_at := Before_stat\<rparr> = demo_start_cc" "demo_failed_cc\<lparr>main_at := Before_stat\<rparr> = demo_failed_cc"
  "demo_conn_cc\<lparr>main_at := Before_stat\<rparr> = demo_conn_cc"
  by (simp_all add: demo_start_cc_def demo_failed_cc_def demo_conn_cc_def demo_world_cc_def)

lemma demo_reach_failed_cc: "reach_cc demo_cc demo_failed_cc"
  using asio_complete [OF demo_reach_start_cc demo_step_failed_cc [of Before_stat, unfolded demo_main_at]] .

lemma main_step: "reach_cc E w \<Longrightarrow> main_loop_cc x w = Some (Running w') \<Longrightarrow> reach_cc E w'"
  by (rule asio_spawn) (auto simp: turn_cc_def)

definition demo_wrap_cc :: world_cc where
  "demo_wrap_cc = demo_failed_cc\<lparr>main_at := In_stat In_conn_avg [(Children, 0), (Connection_errors, 1)] 0 0\<rparr>"

lemma demo_reach_wrap_cc: "reach_cc demo_cc demo_wrap_cc"
proof -
  have "reach_cc demo_cc (demo_start_cc\<lparr>main_at := In_stat In_conn_avg [] 0 0\<rparr>)"
    by (rule main_step [OF demo_reach_start_cc, where x = None])
       (simp add: main_loop_cc_def print_stat_def demo_start_cc_def demo_world_cc_def)
  then have "reach_cc demo_cc (demo_start_cc\<lparr>main_at := In_stat In_conn_avg [(Children, 0)] 0 0\<rparr>)"
    by (rule main_step [where x = "Some Children"])
       (simp add: main_loop_cc_def print_stat_def demo_start_cc_def demo_world_cc_def)
  from asio_complete [OF this demo_step_failed_cc] show ?thesis
    by (rule main_step [where x = "Some Connection_errors"])
       (simp add: main_loop_cc_def print_stat_def demo_failed_cc_def demo_wrap_cc_def demo_start_cc_def demo_world_cc_def)
qed

definition demo_stat_cc :: world_cc where
  "demo_stat_cc = demo_conn_cc\<lparr>main_at := In_stat In_conn_avg
     [(Connection_summ_mcs, 0), (Connection_errors, 0), (Children, 1)] 0 0\<rparr>"

lemma demo_reach_stat_cc: "reach_cc demo_cc demo_stat_cc"
proof -
  note run = main_loop_cc_def print_stat_def demo_conn_cc_def demo_start_cc_def demo_world_cc_def
  have "reach_cc demo_cc (demo_conn_cc\<lparr>main_at := In_stat In_conn_avg [] 0 0\<rparr>)"
    by (rule main_step [OF demo_reach_conn_cc, where x = None]) (simp add: run)
  then have "reach_cc demo_cc (demo_conn_cc\<lparr>main_at := In_stat In_conn_avg [(Connection_summ_mcs, 0)] 0 0\<rparr>)"
    by (rule main_step [where x = "Some Connection_summ_mcs"]) (simp add: run)
  then have "reach_cc demo_cc (demo_conn_cc\<lparr>main_at := In_stat In_conn_avg [(Connection_summ_mcs, 0), (Connection_errors, 0)] 0 0\<rparr>)"
    by (rule main_step [where x = "Some Connection_errors"]) (simp add: run)
  then show ?thesis
    by (rule main_step [where x = "Some Children"]) (simp add: run demo_stat_cc_def)
qed

section \<open>What the comparison sees\<close>

lemma all_le_Suc: "(\<forall>j\<le>Suc m. P j) \<longleftrightarrow> P 0 \<and> (\<forall>j\<le>m. P (Suc j))"
  using All_less_Suc2 [of "Suc m" P] by (simp only: less_Suc_eq_le)

lemma strncmp_stop:
  assumes "m < n" and "\<forall>j<m. a (i + j) \<noteq> 0" and "a (i + m) = 0"
  shows "strncmp_eq a b i n \<longleftrightarrow> (\<forall>j\<le>m. b (i + j) = a (i + j))"
  using assms
proof (induction n arbitrary: i m)
  case 0
  then show ?case by simp
next
  case (Suc n)
  show ?case
  proof (cases m)
    case 0
    with Suc.prems show ?thesis by auto
  next
    case (Suc m')
    have "(\<forall>j\<le>m. b (i + j) = a (i + j)) \<longleftrightarrow> b i = a i \<and> (\<forall>j\<le>m'. b (Suc i + j) = a (Suc i + j))"
      by (simp add: Suc all_le_Suc)
    moreover have "strncmp_eq a b (Suc i) n \<longleftrightarrow> (\<forall>j\<le>m'. b (Suc i + j) = a (Suc i + j))"
      using Suc.prems Suc by (intro Suc.IH) (auto dest: spec [of _ "Suc _"])
    moreover have "a i \<noteq> 0" using Suc.prems(2) Suc by auto
    ultimately show ?thesis by auto
  qed
qed

lemma decimal_digits: "c \<in> set (decimal n) \<Longrightarrow> \<exists>d<10. c = digit d"
proof (induction n rule: decimal.induct)
  case (1 n)
  show ?case
  proof (cases "n < 10")
    case True
    with 1(2) show ?thesis by (intro exI [of _ n]) (simp add: decimal.simps [of n])
  next
    case False
    with 1(2) have "c \<in> set (decimal (n div 10)) \<or> c = digit (n mod 10)" by (auto simp: decimal.simps [of n])
    moreover have "n mod 10 < 10" by simp
    ultimately show ?thesis using 1(1) [OF False] by blast
  qed
qed

lemma length_decimal: "n < 10 ^ Suc m \<Longrightarrow> length (decimal n) \<le> Suc m"
proof (induction m arbitrary: n)
  case 0
  then show ?case by (simp add: decimal.simps [of n])
next
  case (Suc m)
  show ?case
  proof (cases "n < 10")
    case False
    from Suc.prems have "n div 10 < 10 ^ Suc m" by (simp add: div_less_iff_less_mult mult.commute)
    from Suc.IH [OF this] False show ?thesis by (simp add: decimal.simps [of n])
  qed (simp add: decimal.simps [of n])
qed

text \<open>The message is the numeral, a zero byte, blanks and the end of the line.\<close>

lemma fill_send_buf_bytes:
  assumes "0 \<le> n" and "n < 2 ^ 31" and "fill_send_buf n b = Some buf"
  shows "length (decimal (nat n)) \<le> 10"
    and "i < length (decimal (nat n)) \<Longrightarrow> buf i = of_char (decimal (nat n) ! i)"
    and "buf (length (decimal (nat n))) = 0"
proof -
  have "nat n < 10 ^ Suc 9" using assms(1,2) by simp
  then show l: "length (decimal (nat n)) \<le> 10" using length_decimal [of "nat n" 9] by simp
  then have "buf = arr_store (arr_store (arr_store (arr_store b 0 (replicate 32 32)) 0
      (map of_char (decimal (nat n)) @ [0])) 31 [10]) 32 [0]"
    using assms(3) by (simp add: fill_send_buf_def arr_write_def)
  with l show "i < length (decimal (nat n)) \<Longrightarrow> buf i = of_char (decimal (nat n) ! i)"
    "buf (length (decimal (nat n))) = 0"
    by (simp_all add: arr_store_def nth_append)
qed

section \<open>Properties\<close>

text \<open>C28: whatever operation of the load generator \<^verbatim>\<open>client.cc\<close> completes next, with whatever the
  documentation of Boost lets it complete with, and as long as the server sends no more bytes
  than it was sent, its handler returns: no assertion fails, no missing socket is used and
  \<open>tqueue.front()\<close> finds a timer. Only \<open>new\<close> and \<open>set_option\<close> can end the program early.\<close>

theorem completions_defined_cc:
  assumes "asio_env_ok E" and "reach_cc E w" and "(i, op) \<in> set (ops w)"
    and "reply_ok_cc w op r" and "peer_ok w op r"
  shows "run_cc E i op r (finish i op w) = Some (Inl Bad_alloc) \<or>
    (\<exists>x. run_cc E i op r (finish i op w) = Some (Inl (System_error x))) \<or>
    (\<exists>w'. run_cc E i op r (finish i op w) = Some (Inr w') \<and> reach_cc E w')"
  using cc.reach_defined [OF assms(2,1,3)] assms(4,5) by (auto simp: ok_cc_def)

theorem completions_defined_cc_witness:
  "run_cc demo_cc 0 (Reading 1) (R_read demo_bytes Success) (finish 0 (Reading 1) demo_conn_cc) = Some (Inl Bad_alloc) \<or>
   (\<exists>x. run_cc demo_cc 0 (Reading 1) (R_read demo_bytes Success) (finish 0 (Reading 1) demo_conn_cc) =
      Some (Inl (System_error x))) \<or>
   (\<exists>w'. run_cc demo_cc 0 (Reading 1) (R_read demo_bytes Success) (finish 0 (Reading 1) demo_conn_cc) = Some (Inr w') \<and>
      reach_cc demo_cc w')"
  by (rule completions_defined_cc [OF demo_asio_ok demo_reach_conn_cc])
     (simp_all add: reply_ok_cc_def peer_ok_def, simp add: demo_conn_cc_def)

text \<open>C29: six of the global counters of \<^verbatim>\<open>client.cc\<close> in every reachable state. \<open>services_i\<close> is the
  number of handlers, never more than 10001; \<open>connection_active\<close> is the number of connection
  attempts under way, which with \<open>children\<close> makes all handlers that may connect; \<open>children\<close> is the
  number of handlers whose attempt has ended; \<open>connection_errors\<close> is the number of those that gave
  up before their first message was given out, \<open>exchange_errors\<close> of those that gave up after it;
  and \<open>connection_summ_mcs\<close> has at most 30 seconds for each attempt that was counted and did not
  fail. None of the six wraps around. (\<open>msgs\<close> and \<open>latency_summ_mcs\<close> are not bounded here.)\<close>

theorem counters_cc:
  assumes "asio_env_ok E" and "reach_cc E w"
  shows "card (dom (heap w)) = unat (services_i w) \<and> unat (services_i w) \<le> 10001 \<and>
    unat (connection_active w) = length (filter (\<lambda>(i, op). is_connecting op) (ops w)) \<and>
    unat (children w) + unat (connection_active w) = min (card (dom (heap w))) 10000 \<and>
    unat (children w) = card {p. \<exists>c. heap w p = Some c \<and> (errored c \<or> x_sock c \<noteq> None)} \<and>
    unat (connection_errors w) = card {p. \<exists>c. heap w p = Some c \<and> errored c \<and> writes (hist w) p = 0} \<and>
    unat (exchange_errors w) = card {p. \<exists>c. heap w p = Some c \<and> errored c \<and> 0 < writes (hist w) p} \<and>
    unat (connection_errors w) + unat (exchange_errors w) \<le> unat (children w) \<and>
    unat (connection_summ_mcs w) \<le> 30000000 * (unat (children w) - unat (connection_errors w))"
proof -
  note inv = cc.reach_inv [OF assms(2,1)]
  have "unat (connection_summ_mcs w) \<le> 30000000 * (unat (children w) - unat (connection_errors w))"
    using inv_ccD(3) [OF inv] unfolding counters_ok_def diff_mult_distrib2 by linarith
  with inv_ccD(3) [OF inv] errors_le_children(1) [OF inv] show ?thesis
    by (simp add: counters_ok_def cnt_def ended_def failed_conn_def failed_exch_def)
qed

theorem counters_cc_witness:
  "card {p. \<exists>c. heap demo_conn_cc p = Some c \<and> (errored c \<or> x_sock c \<noteq> None)} = 1 \<and>
   card {p. \<exists>c. heap demo_failed_cc p = Some c \<and> errored c \<and> writes (hist demo_failed_cc) p = 0} = 1"
proof
  have "unat (children demo_conn_cc) = 1" by (simp add: demo_conn_cc_def)
  with counters_cc [OF demo_asio_ok demo_reach_conn_cc]
  show "card {p. \<exists>c. heap demo_conn_cc p = Some c \<and> (errored c \<or> x_sock c \<noteq> None)} = 1" by (elim conjE) (rule trans [OF sym])
  have "unat (connection_errors demo_failed_cc) = 1" by (simp add: demo_failed_cc_def)
  with counters_cc [OF demo_asio_ok demo_reach_failed_cc]
  show "card {p. \<exists>c. heap demo_failed_cc p = Some c \<and> errored c \<and> writes (hist demo_failed_cc) p = 0} = 1"
    by (elim conjE) (rule trans [OF sym])
qed

text \<open>C30: every pending operation of \<^verbatim>\<open>client.cc\<close>, the timer that makes the next handler included,
  belongs to a handler that is allocated and to its service, and so to the thread of that handler:
  no two functions of a handler run at once. One timer at most is left to make a handler. A
  connected handler has its own open descriptor and at most one wait of its exchange timer and one
  read pending; as long as it did not give up, its queue of timers holds one for each message that
  was sent and has not come back.\<close>

theorem handlers_cc:
  assumes "asio_env_ok E" and "reach_cc E w"
  shows "(\<forall>i op. (i, op) \<in> set (ops w) \<longrightarrow>
      (\<exists>c. heap w (cc_ptr op) = Some c \<and> i = unat (service_id c mod n_threads w) \<and>
         (\<not> is_bear op \<longrightarrow> (is_connecting op \<longleftrightarrow> x_sock c = None)))) \<and>
    length (filter (\<lambda>(i, op). is_bear op) (ops w)) \<le> 1 \<and>
    (\<forall>p c fd. heap w p = Some c \<longrightarrow> x_sock c = Some fd \<longrightarrow> open_fd (hist w) fd \<and>
       length (filter (\<lambda>(i, op). cc_ptr op = p \<and> is_exch op) (ops w)) \<le> 1 \<and>
       length (filter (\<lambda>(i, op). cc_ptr op = p \<and> is_reading op) (ops w)) \<le> 1 \<and>
       (\<not> errored c \<longrightarrow> 32 * writes (hist w) p = length (recvd (hist w) fd) + 32 * length (tqueue c))) \<and>
    (\<forall>p q c d fd. heap w p = Some c \<longrightarrow> heap w q = Some d \<longrightarrow> x_sock c = Some fd \<longrightarrow> x_sock d = Some fd \<longrightarrow> p = q)"
proof -
  note inv0 = cc.reach_inv [OF assms(2,1)]
  note inv = inv_ccD(2) [OF inv0]
  have "\<exists>c. heap w (cc_ptr op) = Some c \<and> i = unat (service_id c mod n_threads w) \<and>
      (\<not> is_bear op \<longrightarrow> (is_connecting op \<longleftrightarrow> x_sock c = None))"
    if op: "(i, op) \<in> set (ops w)" for i op
  proof (cases "is_bear op")
    case True
    then obtain p where "op = Bear p" by (cases op) auto
    with op inv_ccD(5) [OF inv0] show ?thesis by (auto simp: bears_ok_def my_service_def)
  next
    case False
    from op_handler [OF inv op False] obtain c where c: "heap w (cc_ptr op) = Some c" "i = my_service c w"
      and ok: "handler_ok (hist w) (n_threads w) (ops_of (ops w) (cc_ptr op)) (cc_ptr op) c" by metis
    from op False have "(i, op) \<in> set (ops_of (ops w) (cc_ptr op))" by (simp add: set_ops_of)
    with c connecting_handler [OF ok this] show ?thesis by (simp add: my_service_def)
  qed
  moreover have "length (filter (\<lambda>(i, op). is_bear op) (ops w)) \<le> 1"
    using inv_ccD(7) [OF inv0] by (simp add: cnt_def split: if_splits)
  moreover have "open_fd (hist w) fd \<and>
      length (filter (\<lambda>(i, op). cc_ptr op = p \<and> is_exch op) (ops w)) \<le> 1 \<and>
      length (filter (\<lambda>(i, op). cc_ptr op = p \<and> is_reading op) (ops w)) \<le> 1 \<and>
      (\<not> errored c \<longrightarrow> 32 * writes (hist w) p = length (recvd (hist w) fd) + 32 * length (tqueue c))"
    if c: "heap w p = Some c" "x_sock c = Some fd" for p c fd
  proof -
    have "filter (\<lambda>(i, op). P op) (ops_of xs p) = filter (\<lambda>(i, op). cc_ptr op = p \<and> P op) xs"
      if "P = is_exch \<or> P = is_reading" for P and xs :: "(nat \<times> async_cc) list"
      using that by (auto simp: ops_of_def intro!: filter_cong) (case_tac b; simp)+
    with handlers_okD(3) [OF inv c(1)] c(2) show ?thesis
      by (auto simp: handler_ok_def exchanging_def cnt_def streams_def)
  qed
  ultimately show ?thesis using handlers_okD(4) [OF inv] by blast
qed

theorem handlers_cc_witness:
  "32 * writes (hist demo_conn_cc) 1 = length (recvd (hist demo_conn_cc) 5) + 32 * length (tqueue demo_handler)"
  using handlers_cc [OF demo_asio_ok demo_reach_conn_cc] demo_conn_cc_simps by blast

text \<open>C31: the average time of a connection in a report of \<^verbatim>\<open>client.cc\<close>, which the main thread
  computes from three counters that it reads one by one while the services change them. If
  \<open>children\<close> is the last one it reads, the subtraction of the connection errors does not wrap
  around, there is no division by zero and the average is at most the 30 seconds of the timeout,
  whatever handlers ran between the reads.\<close>

theorem report_cc:
  assumes "asio_env_ok E" and "reach_cc E w"
    and "main_at w = In_stat In_conn_avg rs a b" and "rs = xs @ [(Children, c)]"
    and "(Connection_summ_mcs, s) \<in> set xs" and "(Connection_errors, e) \<in> set xs"
  shows "unat e \<le> unat c \<and> unat (c - e) = unat c - unat e \<and>
    (\<exists>avg. main_loop_cc None w = Some (Running (w\<lparr>main_at := In_stat In_lat_avg [] avg b\<rparr>)) \<and>
       unat avg = unat s div max (unat c - unat e) 1 \<and> unat avg \<le> 30000000)"
proof -
  have ok: "stat_ok rs w"
    using inv_ccD(6) [OF cc.reach_inv [OF assms(2,1)]] assms(3) by (simp add: main_ok_def)
  with assms(4,6) have le: "unat e \<le> unat c" by (simp add: stat_ok_def)
  from ok assms(4-6) have summ: "unat s + 30000000 * unat e \<le> 30000000 * unat c" by (simp add: stat_ok_def)
  from le have sub: "unat (c - e) = unat c - unat e" by (simp add: unat_sub word_le_nat_alt)
  have v: "value_read rs Connection_summ_mcs = s" "value_read rs Connection_errors = e" "value_read rs Children = c"
    by (intro value_read_mem [OF ok]; use assms(4-6) in simp)+
  have all: "set (read_by final In_conn_avg) \<subseteq> fst ` set rs" for final
    using assms(4-6) by (auto intro: rev_image_eqI)
  define avg where "avg = s div max (c - e) 1"
  have "main_loop_cc None w = Some (Running (w\<lparr>main_at := In_stat In_lat_avg [] avg b\<rparr>))"
    using assms(3) all v by (simp add: main_loop_cc_def print_stat_def avg_def Let_def del: read_by.simps)
  moreover have "unat (max (c - e) 1) = max (unat c - unat e) 1"
    using sub by (simp add: max_def word_le_nat_alt)
  then have avg: "unat avg = unat s div max (unat c - unat e) 1" by (simp add: avg_def unat_div)
  moreover have "unat s \<le> 30000000 * max (unat c - unat e) 1"
    using summ le by (simp add: max_def) linarith
  then have "unat s div max (unat c - unat e) 1 \<le> 30000000"
    by (metis div_le_mono nonzero_mult_div_cancel_right max.cobounded2 mult.commute not_one_le_zero)
  ultimately show ?thesis using le sub by auto
qed

theorem report_cc_witness:
  "\<exists>avg. main_loop_cc None demo_stat_cc = Some (Running (demo_stat_cc\<lparr>main_at := In_stat In_lat_avg [] avg 0\<rparr>)) \<and>
     unat avg \<le> 30000000"
proof -
  have m: "main_at demo_stat_cc = In_stat In_conn_avg [(Connection_summ_mcs, 0), (Connection_errors, 0), (Children, 1)] 0 0"
    by (simp add: demo_stat_cc_def)
  have rs: "[(Connection_summ_mcs, 0), (Connection_errors, 0), (Children, 1)] =
      [(Connection_summ_mcs, 0), (Connection_errors, 0 :: size_t)] @ [(Children, 1)]"
    and mem: "(Connection_summ_mcs, 0 :: size_t) \<in> set [(Connection_summ_mcs, 0), (Connection_errors, 0)]"
      "(Connection_errors, 0 :: size_t) \<in> set [(Connection_summ_mcs, 0), (Connection_errors, 0)]" by simp_all
  from report_cc [OF demo_asio_ok demo_reach_stat_cc m rs mem] show ?thesis by blast
qed

text \<open>Read in another order, a connection attempt that fails in between makes the subtraction wrap
  around: \<open>children\<close> was read as 0, and \<open>connection_errors\<close> is 1.\<close>

lemma stat_wraps_cc:
  "\<exists>E w rs c e. asio_env_ok E \<and> reach_cc E w \<and> main_at w = In_stat In_conn_avg rs 0 0 \<and>
     (Children, c) \<in> set rs \<and> (Connection_errors, e) \<in> set rs \<and> unat c < unat e \<and> unat (c - e) = 2 ^ 64 - 1"
  using demo_asio_ok [of blank_cc] demo_reach_wrap_cc
  by (intro exI [of _ demo_cc] exI [of _ demo_wrap_cc] exI [of _ "[(Children, 0), (Connection_errors, 1)]"]
    exI [of _ 0] exI [of _ 1]) (simp add: demo_wrap_cc_def unsigned_minus_1_eq_mask mask_eq_exp_minus_1)

text \<open>The main thread of \<^verbatim>\<open>client.cc\<close> makes 12 reports and then the final one, after which the
  program exits with 0, however the operations of the services are interleaved with it: it is
  never stuck.\<close>

lemma rounds_cc:
  assumes "asio_env_ok E" and "reach_cc E w"
  shows "rounds (hist w) \<le> 12 \<and>
    (\<exists>x. (rounds (hist w) = 12 \<and> main_loop_cc x w = Some (Exited 0 w)) \<or>
      (\<exists>w'. main_loop_cc x w = Some (Running w') \<and> reach_cc E w'))"
proof -
  have k: "unat (main_i w) = 5 * rounds (hist w)" "rounds (hist w) \<le> 12"
    using inv_ccD(3) [OF cc.reach_inv [OF assms(2,1)]] by (simp_all add: counters_ok_def)
  have run: ?thesis if "main_loop_cc x w = Some (Running w')" for x w'
    using asio_spawn [OF assms(2), of w'] that k(2) by (auto simp: turn_cc_def)
  show ?thesis
  proof (cases "main_at w")
    case Before_stat
    then show ?thesis by (intro run [of None]) (simp add: main_loop_cc_def print_stat_def Let_def)
  next
    case (In_stat st rs a b)
    let ?r = "set (read_by (\<not> main_i w < 60) st)"
    show ?thesis
    proof (cases "?r \<subseteq> fst ` set rs")
      case True
      with In_stat show ?thesis
        by (intro run [of None]) (simp add: main_loop_cc_def print_stat_def Let_def)
    next
      case False
      then obtain c where "c \<in> ?r" "c \<notin> fst ` set rs" by blast
      with In_stat show ?thesis
        by (intro run [of "Some c"]) (simp add: main_loop_cc_def print_stat_def)
    qed
  next
    case After_stat
    show ?thesis
    proof (cases "rounds (hist w) = 12")
      case True
      with k After_stat show ?thesis by (auto simp: main_loop_cc_def word_less_nat_alt intro!: exI [of _ None])
    next
      case False
      with k have "main_i w < 60" by (simp add: word_less_nat_alt)
      with After_stat show ?thesis by (intro run [of None]) (simp add: main_loop_cc_def)
    qed
  qed
qed

text \<open>C32: what \<open>compare_staff\<close> of \<^verbatim>\<open>client.cc\<close> compares: \<open>snprintf\<close> puts a zero byte behind the number
  in the message, and \<open>strncmp\<close> stops there, so of the 32 bytes that come back only the digits
  and the zero byte, 11 at most, decide; the others may be anything.\<close>

theorem compare_prefix_cc:
  assumes "0 \<le> n" and "n < 2 ^ 31" and "fill_send_buf n b = Some buf"
  shows "length (decimal (nat n)) \<le> 10 \<and>
    (strncmp_eq buf r 0 32 \<longleftrightarrow> (\<forall>i\<le>length (decimal (nat n)). r i = buf i))"
proof -
  note f = fill_send_buf_bytes [OF assms]
  have "buf j \<noteq> 0" if "j < length (decimal (nat n))" for j
  proof -
    from decimal_digits [OF nth_mem [OF that]] obtain d where "d < 10" "decimal (nat n) ! j = digit d" by blast
    moreover from this(1) have "unat (word_of_nat (48 + d) :: byte) = 48 + d"
      by (simp add: unat_of_nat take_bit_nat_eq_self del: of_nat_add)
    ultimately show ?thesis using f(2) [OF that] by (auto simp: digit_byte)
  qed
  then have "strncmp_eq buf r 0 32 \<longleftrightarrow> (\<forall>j\<le>length (decimal (nat n)). r (0 + j) = buf (0 + j))"
    using f(1,3) by (intro strncmp_stop) auto
  with f(1) show ?thesis by simp
qed

theorem compare_prefix_cc_witness: "strncmp_eq demo_buf (\<lambda>i. if i \<le> 1 then demo_buf i else 88) 0 32"
proof -
  have "length (decimal 7) = 1" by (simp add: decimal.simps [of 7])
  with compare_prefix_cc [of 7 _ demo_buf "\<lambda>i. if i \<le> 1 then demo_buf i else 88", OF _ _ demo_fill] show ?thesis by simp
qed

text \<open>\<^verbatim>\<open>client.cc\<close> starts a message whenever its timer runs out, also while the one before is
  still being written: two \<open>async_write\<close> on one socket are pending at once, which the
  documentation of Boost forbids.\<close>

lemma overlapping_writes_cc:
  "\<exists>E w p. asio_env_ok E \<and> reach_cc E w \<and> length (filter (\<lambda>(i, op). op = Writing p) (ops w)) = 2"
  using demo_asio_ok [of blank_cc] demo_reach_over_cc
  by (intro exI [of _ demo_cc] exI [of _ demo_over_cc] exI [of _ 1]) (simp add: demo_over_cc_def)

text \<open>C33: a server that sends a message back twice makes \<^verbatim>\<open>client.cc\<close> call \<open>tqueue.front()\<close> on an
  empty queue, which is undefined.\<close>

theorem empty_queue_cc:
  "\<exists>E w i p bs. asio_env_ok E \<and> reach_cc E w \<and> (i, Reading p) \<in> set (ops w) \<and>
     reply_ok_cc w (Reading p) (R_read bs Success) \<and>
     run_cc E i (Reading p) (R_read bs Success) (finish i (Reading p) w) = None"
proof -
  have "send_buf demo_handler = demo_buf" by (simp add: demo_handler_def)
  then have "run_cc demo_cc 0 (Reading 1) (R_read demo_bytes Success) (finish 0 (Reading 1) demo_echo_cc) = None"
    using demo_equal
    by (simp add: run_cc_def load_def store_def finish_def compare_staff_def arr_write_def demo_echo_cc_def)
  moreover have "(0, Reading 1) \<in> set (ops demo_echo_cc)" by (simp add: demo_echo_cc_def)
  moreover have "reply_ok_cc demo_echo_cc (Reading 1) (R_read demo_bytes Success)" by (simp add: reply_ok_cc_def)
  ultimately show ?thesis using demo_asio_ok [of blank_cc] demo_reach_echo_cc by blast
qed

end
