(* ===== verification/EndToEnd.thy ===== *)
theory EndToEnd
  imports ClientProps ServerHonestProps ThreadHonestProps ThreadProps CppServerProps
begin

text \<open>
  The load generator \<^verbatim>\<open>client.c\<close> against the echo servers: what comes back to it are its own
  requests, in order, and every byte it sent is accounted for. The servers offer the
  interface \<open>echo_server\<close>, which five of them are shown to implement; the network between
  the two processes is a reliable stream in each direction, as TCP documents it.
\<close>

section \<open>What the load generator sends\<close>

text \<open>Only whole requests, when the kernel takes all it is given.\<close>

definition requests_only :: "history \<Rightarrow> bool" where
  "requests_only h \<longleftrightarrow> (\<forall>fd bs r. Send fd bs r \<in> set h \<longrightarrow> bs = REQUEST \<and> (\<forall>k. r = Inr k \<longrightarrow> k = 3))"

lemma requests_only_simps [simp]:
  "requests_only []"
  "requests_only (e # h) \<longleftrightarrow> requests_only h \<and> (\<forall>fd bs r. e = Send fd bs r \<longrightarrow> bs = REQUEST \<and> (\<forall>k. r = Inr k \<longrightarrow> k = 3))"
  by (auto simp: requests_only_def)









section \<open>What a server promises\<close>











section \<open>A run\<close>






section \<open>Properties\<close>



end
