(* ===== verification/Spec2Isabelle.thy ===== *)
theory Spec2Isabelle
  imports Prelude Binary64 Libc Environment World Header Reactor EchoConn EchoSpec
    Accepting ServerCommon ThreadCommon PlainClient HonestClient HonestRecv HonestAccept Demo
    ServerHonest ServerHonestRuns ServerHonestProps ThreadHonest ThreadHonestProps
    Server ServerProps Thread ThreadProps Client ClientConn ClientLoop ClientProps
    BufferQueue Addresses ServerHonestSafe
    Asio AsioDemo CppServer CppServerInv CppServerRun CppServerProps
    CppEpoll CppEpollInv CppEpollProps CppClient CppClientInv CppClientRun CppClientProps
    EndToEnd
begin

text \<open>
  The C and C++ programs of a benchmark of TCP echo servers: in \<^verbatim>\<open>src/c-bachan\<close> four servers
  on the libev event library and the load generator that measures them, in
  \<^verbatim>\<open>src/c++-virtan\<close> a server and in \<^verbatim>\<open>src/client-c++-virtan\<close> a load generator on Boost.Asio, in
  \<^verbatim>\<open>src/c++-apolkanov\<close> a server on \<open>epoll\<close>.

  \<^bold>\<open>The programs.\<close> A server waits in an event loop. When a client connects, the accept
  callback allocates an \<open>echo_client_t\<close>, whose members are libev watchers; the receive
  callback sends back what it reads; a timer of 60 seconds closes idle connections.
  \<^verbatim>\<open>server.c\<close> and \<^verbatim>\<open>thread.c\<close> send each chunk at once and keep nothing;
  \<^verbatim>\<open>server-honest.c\<close> and \<^verbatim>\<open>thread-honest.c\<close> keep what the kernel did not take in a buffer of
  16384 bytes per connection and send it from a second watcher. The \<open>thread\<close> programs run
  one loop per processor, all accepting on one socket under a mutex. \<^verbatim>\<open>client.c\<close> opens up
  to 10000 connections, one each millisecond, sends requests and times the answers.
  \<^verbatim>\<open>header.h\<close> has the helpers of all five. \<^verbatim>\<open>server.cc\<close> runs an \<open>io_service\<close> in each of its
  threads, all accepting on one socket; a connection reads, writes all of it back, and
  reads again. \<^verbatim>\<open>echo_tcp.cpp\<close> accepts in the main thread and hands the connections to its
  workers in turn; a worker reads and writes once for each event. \<^verbatim>\<open>client.cc\<close> makes a new
  connection each millisecond from a chain of timers; each sends messages at random
  intervals, compares what comes back, and \<open>main\<close> reports the counters twelve times.

  \<^bold>\<open>The outside.\<close> The kernel, the C heap, libev and pthreads are not in the repository.
  \<open>Environment\<close> gives them as a history of calls and as views of it (which descriptors are
  open, which watchers are active with which callback, what was received and sent);
  \<open>World\<close> has one operation for each call, whose replies come from a parameter \<open>E\<close>, a
  function of the history. The hypotheses about it are \<open>env_ok\<close> (what the manual pages
  promise) and, where a callback is shown to return, \<open>recv_returns\<close> (no \<open>recv\<close> is
  interrupted for ever). \<open>Demo\<close> has a concrete environment for the witnesses. \<open>Binary64\<close>
  computes the \<open>double\<close>s of the timers and of the statistics, \<open>Libc\<close> is \<open>atoi\<close>, \<open>htons\<close>
  and \<open>inet_addr\<close>.

  \<^bold>\<open>State.\<close> \<open>world\<close> is a process: the history, \<open>errno\<close>, the heap of connection structures,
  the server structures on the stacks of the threads, the variable \<open>loop\<close>. A structure is a
  record with the fields of the code, a pointer into it is the watcher \<open>Member ob m\<close>, and
  \<open>aux_memberof\<close> goes back from it. A C function is a function from \<open>world\<close> to an \<open>option\<close>:
  \<open>None\<close> is undefined behaviour (a dangling pointer, an access outside an array, a signed
  overflow, \<open>memcpy\<close> between regions that overlap) or a loop that does not end. Error codes
  are the \<open>int\<close>s of the code; integers have their C width where it can matter.

  \<^bold>\<open>Which theory models which file.\<close>
    \<^item> \<open>Header\<close>: \<^verbatim>\<open>header.h\<close>. The loop of \<open>aux_unix_recv\<close> is a \<open>partial_function\<close>; its result
      is shown to be that of the first call that is not interrupted.
    \<^item> \<open>HonestClient\<close>, \<open>HonestRecv\<close>, \<open>HonestAccept\<close>: the structure, the buffer and the
      functions that \<^verbatim>\<open>server-honest.c\<close> and \<^verbatim>\<open>thread-honest.c\<close> have in common; \<open>BufferQueue\<close>
      compares the buffer with a list.
    \<^item> \<open>PlainClient\<close>: the same for \<^verbatim>\<open>server.c\<close> and \<^verbatim>\<open>thread.c\<close>.
    \<^item> \<open>ServerCommon\<close>: accepting, \<open>echo_server_listen\<close> and \<open>main\<close> of \<^verbatim>\<open>server.c\<close> and
      \<^verbatim>\<open>server-honest.c\<close>; \<open>ThreadCommon\<close>: \<open>echo_socket_listen\<close>, \<open>thread_func\<close>, accepting and
      the threads of \<^verbatim>\<open>thread.c\<close> and \<^verbatim>\<open>thread-honest.c\<close>.
    \<^item> \<open>ServerHonest\<close>, \<open>ThreadHonest\<close>, \<open>Server\<close>, \<open>Thread\<close>: the functions of the four files under
      the suffixes \<open>_sh\<close>, \<open>_th\<close>, \<open>_s\<close>, \<open>_t\<close>, with \<open>invoke_\<close> (which function a registered
      callback is), \<open>start_\<close> (the states in which \<open>main\<close> enters the loop) and \<open>reach_\<close>.
    \<^item> \<open>Client\<close>: \<^verbatim>\<open>client.c\<close>, with its global variables in \<open>client_world\<close>; \<open>ClientConn\<close> and
      \<open>ClientLoop\<close> have its invariants.

  \<^bold>\<open>The event loop.\<close> \<open>Reactor\<close> runs any of the programs: \<open>ev_step\<close> calls the registered
  callback of some active watcher with any set of events, \<open>ev_reach\<close> are the states so
  reached, also when created threads start. Its locale \<open>reactor\<close> is the contract of
  a program: each callback changes at most one connection and keeps that one's invariant.
  It gives the global invariant \<open>ginv\<close>, which all five programs get by interpretation
  (\<open>sh\<close>, \<open>th\<close>, \<open>s\<close>, \<open>t\<close>, \<open>c\<close>). Extensions are \<open>safe_reactor\<close> (no undefined behaviour) and
  \<open>echo_reactor\<close> (\<open>EchoSpec\<close>: the program refines an abstract server that has a queue of
  bytes for each connection). A step of that server has a label, and \<open>echo_obs\<close> is what the
  label says of the history: exactly its bytes were received and sent on its connection,
  and on every other connection, for \<open>Idle\<close> on all, not a byte. \<open>acceptor\<close>, \<open>honest_receiver\<close> and \<open>byte_queue\<close> are the
  contracts of the functions that the files share or hand to one another.

  \<^bold>\<open>Boost.Asio.\<close> \<open>Asio\<close> has what the two programs rely on: the operations that are pending, each
  with its service, and \<open>asio_step\<close>, which completes any of them with any reply that the
  documentation allows and calls its handler. A function gives \<open>Inl\<close> of an exception or a
  failed assertion, which ends the program, or \<open>Inr\<close> of the process. The locale \<open>asio_program\<close>
  is the contract of a program on it; \<open>v\<close> and \<open>cc\<close> are its interpretations. \<open>AsioDemo\<close> has a
  concrete environment.
    \<^item> \<open>CppServer\<close>: \<^verbatim>\<open>server.cc\<close>, suffix \<open>_v\<close>; \<open>CppServerInv\<close> has its invariant, with a hole for the
      connection whose handler runs, and \<open>CppServerRun\<close> what a completion does. The abstract
      server's queues, \<open>abs_v\<close>, are what the buffers hold for the pending writes.
    \<^item> \<open>CppClient\<close>: \<^verbatim>\<open>client.cc\<close>, suffix \<open>_cc\<close>; \<open>CppClientInv\<close> has the invariant of its handlers and
      counters, \<open>CppClientRun\<close> shows that each completion keeps it. The main thread is a machine
      of its own, \<open>main_at\<close>: \<open>print_stat\<close> reads one counter in each step, in any order within a
      statement, and the services complete operations between the steps.
    \<^item> \<open>CppEpoll\<close>: \<^verbatim>\<open>echo_tcp.cpp\<close>, suffix \<open>_a\<close>. Its threads interleave: \<open>tcp_step\<close> is one accepted
      connection, one return of \<open>epoll_wait\<close> or one event of some worker. The interest lists
      are part of the state. \<open>CppEpollInv\<close> has the invariant.

  \<^bold>\<open>Composition.\<close> \<open>EndToEnd\<close> puts the load generator \<^verbatim>\<open>client.c\<close> in front of a server. Its locale
  \<open>echo_server\<close> is what a server promises about a connection; \<^verbatim>\<open>server-honest.c\<close>,
  \<^verbatim>\<open>thread-honest.c\<close>, \<^verbatim>\<open>server.c\<close> and \<^verbatim>\<open>thread.c\<close> (while the kernel takes all it is given) and
  \<^verbatim>\<open>server.cc\<close> implement it. The network is a hypothesis: what one side received is a prefix of what the
  other sent.

  \<^bold>\<open>What is shown.\<close>
    \<^item> \<open>ServerHonestProps\<close>, \<open>ServerHonestSafe\<close>: the echo is exact in every state and refines
      the abstract server; each callback on every branch; bounds and types; the exact
      condition of undefined behaviour and that it can be reached; the buffer drains while
      the kernel takes anything; a full buffer drops the client; leaks; what \<open>main\<close> does and how it fails; the address is read back as written.
    \<^item> \<open>ThreadHonestProps\<close>, \<open>ThreadProps\<close>: the same refinement with threads; every thread has a
      loop of its own on the one socket; the end of a stream is ignored by \<^verbatim>\<open>thread-honest.c\<close>;
      \<^verbatim>\<open>thread.c\<close> refines the abstract server while the kernel takes all it is given.
    \<^item> \<open>ServerProps\<close>: no undefined behaviour; what is sent is a subsequence of what came, and
      all of it exactly while the kernel takes all it is given; the rest is lost.
    \<^item> \<open>ClientProps\<close>: no undefined behaviour; the number of attempts is bounded; the sending
      loop ends; what is counted as an answer; what a failed attempt leaves behind.
    \<^item> \<open>CppServerProps\<close>: no handler runs on a deleted connection; the echo refines the abstract
      server; each connection has exactly one operation pending; a descriptor of more than
      16 bits is truncated on its way to the threads.
    \<^item> \<open>CppEpollProps\<close>: under every interleaving a connection belongs to one worker and is open
      when its events are handled; connections are shared out evenly; a failing \<open>read\<close> is
      undefined behaviour, and so are 0 workers.
    \<^item> \<open>CppClientProps\<close>: no undefined behaviour and no failed assertion while the server sends no
      more than it was sent; what the counters count; an average that is computed with \<open>children\<close>
      read last does not wrap around, in another order it can; the comparison sees only the
      digits of a message; overlapping writes and an empty queue can be reached.
    \<^item> \<open>EndToEnd\<close>: every byte the load generator sent has come back, was sent back and is on its
      way, is held by the server or has not reached it, in order, as the two histories show.

  \<^bold>\<open>Bounds.\<close> There is no fuel: the sending loop of the load generator is a
  \<open>partial_function\<close> whose end is a theorem, \<open>aux_unix_recv\<close> returns under \<open>recv_returns\<close>,
  and all other recursion is structural or on the digits of a number.

  \<^bold>\<open>Simplifications.\<close> A callback runs as one step, also in the threaded programs: they share
  no data but the listening socket, and interleaving inside a callback is not modelled; the
  mutex is recorded but never waited for. A created thread starts at any later moment. \<open>memcpy\<close> of
  a region onto itself is taken as defined. Memory from \<open>malloc\<close> is an arbitrary structure
  rather than indeterminate. Diagnostics are recorded with their format and arguments, not
  rendered. Events reported to a callback are not tied to what the kernel would answer next.
  After \<open>ev_break\<close> the model allows further callbacks, which only adds states. In the programs
  on Boost.Asio a handler runs as one step (the counters of \<^verbatim>\<open>client.cc\<close>, which it changes one
  after the other, are read by the main thread between handlers only), the system calls behind an operation are
  recorded when it completes, and timers may run out at any time. In \<^verbatim>\<open>echo_tcp.cpp\<close> the \<open>read\<close>
  and the \<open>write\<close> of one event are one step.

  \<^bold>\<open>Not modelled.\<close> The solutions in languages other than C and C++ (\<^verbatim>\<open>erlang-virtan\<close>,
  \<^verbatim>\<open>java-philipp\<close>, \<^verbatim>\<open>js-nikita\<close>, \<^verbatim>\<open>perl-ershov\<close>, \<^verbatim>\<open>python-vkazanov\<close>), the build script and
  the Makefiles: they are programs of their own with nothing in common with these but the
  task. In the C files, what stands inside \<open>#if 0\<close> is not code; \<open>exchange\<close> of \<^verbatim>\<open>client.cc\<close> is
  never called.
\<close>

end
